(* ===== verification/Venn_Prelude.thy ===== *)
theory Venn_Prelude
  imports Main "HOL-Library.Word" "HOL-Library.Sublist"
begin

text \<open>
  Shared vocabulary of the development: Go's fixed-width integers, the outcome of a call
  (value, error or panic), the error values of the program with \<open>errors.Is\<close> and
  \<open>errors.As\<close>, byte strings, and memory cells (a pointer to a struct is modelled by how it
  is read from and written to the state of the process).
\<close>

named_theorems venn_defs "definitions the component proofs unfold"
named_theorems cell_simps "reading and writing memory cells"

section \<open>Go integers\<close>

type_synonym u64 = "64 word"

text \<open>
  \<open>int\<close>, \<open>int64\<close> and \<open>time.Duration\<close> are 64-bit two's complement. They are modelled
  as \<open>int\<close>, and \<open>wrap64\<close> is written where an operation can leave the range.
\<close>

definition wrap64 :: "int \<Rightarrow> int" where
  "wrap64 x = (x + 2 ^ 63) mod 2 ^ 64 - 2 ^ 63"

definition in_i64 :: "int \<Rightarrow> bool" where
  "in_i64 x \<longleftrightarrow> - (2 ^ 63) \<le> x \<and> x < 2 ^ 63"

text \<open>Go's integer division truncates towards zero.\<close>

definition godiv :: "int \<Rightarrow> int \<Rightarrow> int" where
  "godiv a b = sgn a * sgn b * (\<bar>a\<bar> div \<bar>b\<bar>)"

definition i64_to_u64 :: "int \<Rightarrow> u64" where
  "i64_to_u64 x = word_of_int x"

definition u64_to_i64 :: "u64 \<Rightarrow> int" where
  "u64_to_i64 w = wrap64 (uint w)"

text \<open>
  Points in time are nanoseconds since the Unix epoch; \<open>time_zero\<close> is \<open>time.Time{}\<close>. The
  difference of two times saturates at the range of \<open>time.Duration\<close>.
\<close>

definition Second :: int where "Second = 1000000000"

definition Millisecond :: int where "Millisecond = 1000000"

definition time_zero :: int where "time_zero = - 62135596800 * Second"

definition time_Sub :: "int \<Rightarrow> int \<Rightarrow> int" where
  "time_Sub t u = max (- (2 ^ 63)) (min (2 ^ 63 - 1) (t - u))"

definition time_Unix :: "u64 \<Rightarrow> int" where
  "time_Unix sec = u64_to_i64 sec * Second"

lemma wrap64_id [simp]: "in_i64 x \<Longrightarrow> wrap64 x = x"
  by (simp add: wrap64_def in_i64_def)

lemma wrap64_range [simp]: "in_i64 (wrap64 x)"
proof -
  have "0 \<le> (x + 2 ^ 63) mod 2 ^ 64" and "(x + 2 ^ 63) mod 2 ^ 64 < (2 :: int) ^ 64"
    by simp_all
  then show ?thesis by (simp add: wrap64_def in_i64_def)
qed

lemma godiv_pos: "0 \<le> a \<Longrightarrow> 0 < b \<Longrightarrow> godiv a b = a div b"
  by (cases "a = 0") (auto simp: godiv_def sgn_if)

lemma godiv_bounds:
  assumes "0 \<le> a" and "0 < b"
  shows "0 \<le> godiv a b" and "godiv a b \<le> a"
  using assms int_div_le_self [of a b]
  by (cases "a = 0"; simp add: godiv_pos pos_imp_zdiv_nonneg_iff)+

lemma u64_i64_id: "in_i64 x \<Longrightarrow> u64_to_i64 (i64_to_u64 x) = x"
proof -
  assume r: "in_i64 x"
  have "(uint (word_of_int x :: u64) + 2 ^ 63) mod 2 ^ 64 = (x + 2 ^ 63) mod 2 ^ 64"
    by (simp add: uint_word_of_int mod_add_left_eq)
  then show ?thesis
    using r by (simp add: u64_to_i64_def i64_to_u64_def wrap64_def in_i64_def)
qed

section \<open>Byte strings\<close>

definition byte :: "nat \<Rightarrow> char" where
  "byte n = char_of n"

definition code :: "char \<Rightarrow> nat" where
  "code c = of_char c"

fun str_contains :: "string \<Rightarrow> string \<Rightarrow> bool" where
  "str_contains [] needle = (needle = [])"
| "str_contains (c # cs) needle = (prefix needle (c # cs) \<or> str_contains cs needle)"

definition has_suffix :: "string \<Rightarrow> string \<Rightarrow> bool" where
  "has_suffix s suf \<longleftrightarrow> prefix (rev suf) (rev s)"

definition lower_char :: "char \<Rightarrow> char" where
  "lower_char c = (if 65 \<le> code c \<and> code c \<le> 90 then byte (code c + 32) else c)"

definition to_lower :: "string \<Rightarrow> string" where
  "to_lower s = map lower_char s"

text \<open>\<open>strings.TrimSpace\<close> on the ASCII white space.\<close>

definition is_space :: "char \<Rightarrow> bool" where
  "is_space c \<longleftrightarrow> code c \<in> {9, 10, 11, 12, 13, 32}"

definition trim_space :: "string \<Rightarrow> string" where
  "trim_space s = rev (dropWhile is_space (rev (dropWhile is_space s)))"

text \<open>Decimal notation.\<close>

fun show_nat :: "nat \<Rightarrow> string" where
  "show_nat n = (if n < 10 then [byte (48 + n)] else show_nat (n div 10) @ [byte (48 + n mod 10)])"

declare show_nat.simps [simp del]

definition Itoa :: "int \<Rightarrow> string" where
  "Itoa i = (if i < 0 then CHR ''-'' # show_nat (nat (- i)) else show_nat (nat i))"

lemma str_contains_iff: "str_contains s needle \<longleftrightarrow> (\<exists>u v. s = u @ needle @ v)"
proof (induction s)
  case Nil
  then show ?case by auto
next
  case (Cons c cs)
  have "(\<exists>u v. c # cs = u @ needle @ v) \<longleftrightarrow>
      prefix needle (c # cs) \<or> (\<exists>u v. cs = u @ needle @ v)"
    by (auto simp: prefix_def Cons_eq_append_conv)
  then show ?case using Cons.IH by simp
qed

section \<open>Errors\<close>

text \<open>
  The package-level error variables, which \<open>errors.Is\<close> compares by identity.
\<close>

datatype sentinel =
    UserError | ErrNotificationsUnsupported | DeadlineExceeded | Canceled
  | ErrRatelimited | ErrUnhealthy | ErrMethodNotAllowed | ErrHeadJumpedBackwards | ErrHeadOld
  | ErrChainNotFound | ErrNoChain | ErrNoEndpointPath | ErrNoEndpointSpec
  | ErrLostLeadership | ErrNoIdentifier | RedisNil

text \<open>
  An error value: a sentinel, a plain text error, a JSON-RPC error (its code and text), a
  transport error with an HTTP status, an error made by \<open>fmt.Errorf\<close> with \<open>%w\<close>, or a
  combination made by \<open>multierr.Append\<close>.
\<close>

datatype gerror =
    Sentinel sentinel
  | ErrorText string
  | JsonError int string
  | HTTPError int string
  | Wrapped string gerror
  | Multi "gerror list"

definition NewInternalError :: "string \<Rightarrow> gerror" where
  "NewInternalError msg = JsonError (- 32603) msg"

definition NewInvalidRequestError :: "string \<Rightarrow> gerror" where
  "NewInvalidRequestError msg = JsonError (- 32600) msg"

definition NewInvalidParamsError :: "string \<Rightarrow> gerror" where
  "NewInvalidParamsError msg = JsonError (- 32602) msg"

text \<open>The sentinels of \<open>callcenter/errors.go\<close> are themselves JSON-RPC errors.\<close>

fun sentinel_json :: "sentinel \<Rightarrow> (int \<times> string) option" where
  "sentinel_json ErrRatelimited = Some (- 32603, ''remote is rate limited'')"
| "sentinel_json ErrUnhealthy = Some (- 32603, ''remote is unhealthy'')"
| "sentinel_json ErrMethodNotAllowed = Some (- 32600, ''method not allowed'')"
| "sentinel_json ErrHeadJumpedBackwards = Some (- 32603, ''head jumped backwards'')"
| "sentinel_json ErrHeadOld = Some (- 32603, ''head old'')"
| "sentinel_json _ = None"

fun sentinel_text :: "sentinel \<Rightarrow> string" where
  "sentinel_text UserError = ''user error''"
| "sentinel_text ErrNotificationsUnsupported = ''notifications not supported''"
| "sentinel_text DeadlineExceeded = ''context deadline exceeded''"
| "sentinel_text Canceled = ''context canceled''"
| "sentinel_text ErrChainNotFound = ''chain not found''"
| "sentinel_text ErrNoChain = ''no chain specified''"
| "sentinel_text ErrNoEndpointPath = ''no endpoint path specified''"
| "sentinel_text ErrNoEndpointSpec = ''no endpoint spec specified''"
| "sentinel_text ErrLostLeadership = ''lost leadership''"
| "sentinel_text ErrNoIdentifier = ''no valid ratelimit identifier for request''"
| "sentinel_text RedisNil = ''redis: nil''"
| "sentinel_text s = (case sentinel_json s of Some (_, t) \<Rightarrow> t | None \<Rightarrow> [])"

fun join_with :: "string \<Rightarrow> string list \<Rightarrow> string" where
  "join_with sep [] = []"
| "join_with sep [x] = x"
| "join_with sep (x # y # xs) = x @ sep @ join_with sep (y # xs)"

fun error_text :: "gerror \<Rightarrow> string" where
  "error_text (Sentinel s) = sentinel_text s"
| "error_text (ErrorText t) = t"
| "error_text (JsonError c t) = t"
| "error_text (HTTPError c t) = t"
| "error_text (Wrapped t e) = t"
| "error_text (Multi es) = join_with ''; '' (map error_text es)"

text \<open>\<open>errors.Is\<close> and the two uses of \<open>errors.As\<close>: a depth-first walk of the wrapped errors.\<close>

fun errors_Is :: "gerror \<Rightarrow> sentinel \<Rightarrow> bool" where
  "errors_Is (Sentinel s) t = (s = t)"
| "errors_Is (Wrapped _ e) t = errors_Is e t"
| "errors_Is (Multi es) t = (\<exists>e \<in> set es. errors_Is e t)"
| "errors_Is _ t = False"

fun first_some :: "('a \<Rightarrow> 'b option) \<Rightarrow> 'a list \<Rightarrow> 'b option" where
  "first_some f [] = None"
| "first_some f (x # xs) = (case f x of Some y \<Rightarrow> Some y | None \<Rightarrow> first_some f xs)"

lemma first_some_cong [fundef_cong]:
  "xs = ys \<Longrightarrow> (\<And>x. x \<in> set ys \<Longrightarrow> f x = g x) \<Longrightarrow> first_some f xs = first_some g ys"
  by (induction ys arbitrary: xs) (auto split: option.splits)

fun errors_As_json :: "gerror \<Rightarrow> (int \<times> string) option" where
  "errors_As_json (Sentinel s) = sentinel_json s"
| "errors_As_json (JsonError c t) = Some (c, t)"
| "errors_As_json (Wrapped _ e) = errors_As_json e"
| "errors_As_json (Multi es) = first_some errors_As_json es"
| "errors_As_json _ = None"

fun errors_As_http :: "gerror \<Rightarrow> int option" where
  "errors_As_http (HTTPError c t) = Some c"
| "errors_As_http (Wrapped _ e) = errors_As_http e"
| "errors_As_http (Multi es) = first_some errors_As_http es"
| "errors_As_http _ = None"

text \<open>
  \<open>multierr.Append\<close>, as documented: nil on the left gives the right error, and a combination
  on either side is flattened.
\<close>

fun multierr_list :: "gerror \<Rightarrow> gerror list" where
  "multierr_list (Multi es) = es"
| "multierr_list e = [e]"

fun multierr_Append :: "gerror option \<Rightarrow> gerror \<Rightarrow> gerror option" where
  "multierr_Append None e = Some e"
| "multierr_Append (Some d) e = Some (Multi (multierr_list d @ multierr_list e))"

lemma multierr_Append_not_None [simp]: "multierr_Append m e \<noteq> None"
  by (cases m) simp_all

section \<open>Outcomes\<close>

text \<open>A Go call that returns \<open>(value, error)\<close>, or panics.\<close>

datatype 'a outcome = Ok 'a | Err gerror | Panic string

fun outcome_bind :: "'a outcome \<Rightarrow> ('a \<Rightarrow> 'b outcome) \<Rightarrow> 'b outcome" where
  "outcome_bind (Ok x) f = f x"
| "outcome_bind (Err e) f = Err e"
| "outcome_bind (Panic m) f = Panic m"

lemma outcome_bind_Ok_iff:
  "outcome_bind m f = Ok y \<longleftrightarrow> (\<exists>x. m = Ok x \<and> f x = Ok y)"
  by (cases m) auto

section \<open>Memory cells\<close>

text \<open>
  A pointer held by a component: how the pointed-to struct is read from the state of the
  process and how it is replaced there.
\<close>

record ('s, 'a) cell =
  rd :: "'s \<Rightarrow> 'a"
  wr :: "'a \<Rightarrow> 's \<Rightarrow> 's"

definition upd :: "('s, 'a) cell \<Rightarrow> ('a \<Rightarrow> 'a) \<Rightarrow> 's \<Rightarrow> 's" where
  "upd c f s = wr c (f (rd c s)) s"

locale mem_cell =
  fixes c :: "('s, 'a) cell"
  assumes rd_wr: "rd c (wr c v s) = v"
    and wr_rd: "wr c (rd c s) s = s"
    and wr_wr: "wr c v (wr c u s) = wr c v s"
begin

lemma rd_upd: "rd c (upd c f s) = f (rd c s)"
  by (simp add: upd_def rd_wr)

lemma upd_upd: "upd c g (upd c f s) = upd c (g \<circ> f) s"
  by (simp add: upd_def rd_wr wr_wr)

lemma upd_fixed: "f (rd c s) = rd c s \<Longrightarrow> upd c f s = s"
  by (simp add: upd_def wr_rd)

lemmas cell_laws = rd_wr wr_rd wr_wr rd_upd upd_upd

end

text \<open>Two cells that do not overlap.\<close>

locale disjoint_cells = fst: mem_cell c + snd: mem_cell d
  for c :: "('s, 'a) cell" and d :: "('s, 'b) cell" +
  assumes rd_wr_left: "rd c (wr d v s) = rd c s"
    and rd_wr_right: "rd d (wr c u s) = rd d s"
begin

lemma rd_upd_left: "rd c (upd d f s) = rd c s"
  by (simp add: upd_def rd_wr_left)

lemma rd_upd_right: "rd d (upd c g s) = rd d s"
  by (simp add: upd_def rd_wr_right)

end

text \<open>A state that is one struct.\<close>

definition own_cell :: "('s, 's) cell" where
  "own_cell = \<lparr>rd = id, wr = (\<lambda>v _. v)\<rparr>"

lemma own_cell_ok: "mem_cell own_cell"
  by unfold_locales (simp_all add: own_cell_def)

text \<open>A field of a struct, given by its selector and its update, and one entry of a table.\<close>

definition field_cell :: "('a \<Rightarrow> 'b) \<Rightarrow> (('b \<Rightarrow> 'b) \<Rightarrow> 'a \<Rightarrow> 'a) \<Rightarrow> ('s, 'a) cell \<Rightarrow> ('s, 'b) cell" where
  "field_cell sel updt c = \<lparr>rd = (\<lambda>s. sel (rd c s)), wr = (\<lambda>v. upd c (updt (\<lambda>_. v)))\<rparr>"

definition entry_cell :: "'k \<Rightarrow> ('s, 'k \<Rightarrow> 'b) cell \<Rightarrow> ('s, 'b) cell" where
  "entry_cell k c = \<lparr>rd = (\<lambda>s. rd c s k), wr = (\<lambda>v. upd c (\<lambda>f. f(k := v)))\<rparr>"

lemma field_cell_ok:
  assumes "mem_cell c" and "\<And>f x. sel (updt f x) = f (sel x)" and "\<And>x. updt (\<lambda>_. sel x) x = x"
    and "\<And>f g x. updt f (updt g x) = updt (\<lambda>y. f (g y)) x"
  shows "mem_cell (field_cell sel updt c)"
  using assms by unfold_locales (simp_all add: field_cell_def upd_def mem_cell.rd_wr mem_cell.wr_wr mem_cell.wr_rd)

lemma field_cells_disjoint:
  assumes "mem_cell (field_cell sel updt c)" and "mem_cell (field_cell sel' updt' c)" and "mem_cell c"
    and "\<And>f x. sel (updt' f x) = sel x" and "\<And>f x. sel' (updt f x) = sel' x"
  shows "disjoint_cells (field_cell sel updt c) (field_cell sel' updt' c)"
  using assms by (intro disjoint_cells.intro disjoint_cells_axioms.intro)
    (simp_all add: field_cell_def mem_cell.rd_upd)

lemma entry_cell_ok: "mem_cell c \<Longrightarrow> mem_cell (entry_cell k c)"
  by unfold_locales (simp_all add: entry_cell_def upd_def mem_cell.rd_wr mem_cell.wr_wr mem_cell.wr_rd)

lemma entry_cells_disjoint: "mem_cell c \<Longrightarrow> i \<noteq> k \<Longrightarrow> disjoint_cells (entry_cell i c) (entry_cell k c)"
  by (intro disjoint_cells.intro disjoint_cells_axioms.intro entry_cell_ok)
    (simp_all add: entry_cell_def mem_cell.rd_upd)

end
