(* ===== verification/Venn_Json.thy ===== *)
theory Venn_Json
  imports Venn_Prelude
begin

text \<open>
  JSON documents and the parts of \<open>encoding/json\<close> the program uses. A \<open>json.RawMessage\<close>
  that holds a document is modelled by the syntax tree of that document: object members keep
  their order and their duplicates, a number keeps its literal, a string literal is its body
  (escape sequences are not represented). \<open>json_text\<close> gives the compact text back.
\<close>

datatype json =
    JNull
  | JBool bool
  | JNum string
  | JStr string
  | JArr "json list"
  | JObj "(string \<times> json) list"

text \<open>The parameters of a request: absent, not valid JSON, or a document.\<close>

datatype raw = RawNil | RawBad | RawDoc json

definition quoted :: "string \<Rightarrow> string" where
  "quoted s = CHR 0x22 # s @ [CHR 0x22]"

fun json_text :: "json \<Rightarrow> string" where
  "json_text JNull = ''null''"
| "json_text (JBool b) = (if b then ''true'' else ''false'')"
| "json_text (JNum s) = s"
| "json_text (JStr s) = quoted s"
| "json_text (JArr xs) = ''['' @ join_with '','' (map json_text xs) @ '']''"
| "json_text (JObj fs) =
     CHR ''{'' # join_with '','' (map (\<lambda>(k, v). quoted k @ '':'' @ json_text v) fs) @ ''}''"

definition json_type_error :: gerror where
  "json_type_error = ErrorText ''json: cannot unmarshal value''"

definition json_syntax_error :: gerror where
  "json_syntax_error = ErrorText ''unexpected end of JSON input''"

text \<open>\<open>json.Unmarshal\<close> of the request parameters with a decoder for the document.\<close>

fun unmarshal_raw :: "(json \<Rightarrow> 'a outcome) \<Rightarrow> raw \<Rightarrow> 'a outcome" where
  "unmarshal_raw dec RawNil = Err json_syntax_error"
| "unmarshal_raw dec RawBad = Err json_syntax_error"
| "unmarshal_raw dec (RawDoc j) = dec j"

text \<open>A slice: null is the nil slice, an array is decoded element by element.\<close>

fun map_outcome :: "('a \<Rightarrow> 'b outcome) \<Rightarrow> 'a list \<Rightarrow> 'b list outcome" where
  "map_outcome f [] = Ok []"
| "map_outcome f (x # xs) =
     outcome_bind (f x) (\<lambda>y. outcome_bind (map_outcome f xs) (\<lambda>ys. Ok (y # ys)))"

fun dec_slice :: "(json \<Rightarrow> 'a outcome) \<Rightarrow> json \<Rightarrow> 'a list outcome" where
  "dec_slice dec JNull = Ok []"
| "dec_slice dec (JArr xs) = map_outcome dec xs"
| "dec_slice dec _ = Err json_type_error"

definition dec_raws :: "json \<Rightarrow> json list outcome" where
  "dec_raws = dec_slice Ok"

fun dec_bool :: "json \<Rightarrow> bool outcome" where
  "dec_bool (JBool b) = Ok b"
| "dec_bool JNull = Ok False"
| "dec_bool _ = Err json_type_error"

fun dec_string :: "json \<Rightarrow> string outcome" where
  "dec_string (JStr s) = Ok s"
| "dec_string JNull = Ok []"
| "dec_string _ = Err json_type_error"

text \<open>A pointer: null is nil.\<close>

fun dec_ptr :: "(json \<Rightarrow> 'a outcome) \<Rightarrow> json \<Rightarrow> 'a option outcome" where
  "dec_ptr dec JNull = Ok None"
| "dec_ptr dec j = outcome_bind (dec j) (\<lambda>x. Ok (Some x))"

text \<open>
  A struct: null leaves it as it is, an object sets the fields whose names its keys fold to
  (upper and lower case are equal, and so are the Kelvin sign and the long s in UTF-8), in
  order, so that the last duplicate wins and any invalid one is an error.
\<close>

fun fold_name :: "string \<Rightarrow> string" where
  "fold_name (a # b # c # cs) =
     (if code a = 0xE2 \<and> code b = 0x84 \<and> code c = 0xAA then CHR ''k'' # fold_name cs
      else if code a = 0xC5 \<and> code b = 0xBF then CHR ''s'' # fold_name (c # cs)
      else lower_char a # fold_name (b # c # cs))"
| "fold_name (a # b # []) =
     (if code a = 0xC5 \<and> code b = 0xBF then ''s'' else lower_char a # fold_name [b])"
| "fold_name [a] = [lower_char a]"
| "fold_name [] = []"

fun struct_fields :: "json \<Rightarrow> (string \<times> json) list outcome" where
  "struct_fields (JObj fs) = Ok fs"
| "struct_fields JNull = Ok []"
| "struct_fields _ = Err json_type_error"

fun dec_field :: "string \<Rightarrow> (json \<Rightarrow> 'a outcome) \<Rightarrow> 'a \<Rightarrow> (string \<times> json) list \<Rightarrow> 'a outcome" where
  "dec_field name dec x [] = Ok x"
| "dec_field name dec x ((k, v) # fs) =
     (if fold_name k = fold_name name
      then outcome_bind (dec v) (\<lambda>y. dec_field name dec y fs)
      else dec_field name dec x fs)"

lemma map_outcome_Ok [simp]: "map_outcome Ok xs = Ok xs"
  by (induction xs) auto

lemma map_outcome_Ok_iff:
  "map_outcome f xs = Ok ys \<longleftrightarrow> length xs = length ys \<and> (\<forall>i < length xs. f (xs ! i) = Ok (ys ! i))"
proof (induction xs arbitrary: ys)
  case Nil
  then show ?case by auto
next
  case (Cons x xs)
  show ?case
    by (cases ys) (auto simp: outcome_bind_Ok_iff Cons.IH nth_Cons split: nat.splits)
qed

lemma map_outcome_map: "(\<And>x. x \<in> set xs \<Longrightarrow> f (g x) = Ok x) \<Longrightarrow> map_outcome f (map g xs) = Ok xs"
  by (induction xs) auto

lemma dec_raws_simps [simp]:
  "dec_raws JNull = Ok []" "dec_raws (JArr xs) = Ok xs"
  "dec_raws (JBool b) = Err json_type_error" "dec_raws (JNum n) = Err json_type_error"
  "dec_raws (JStr s) = Err json_type_error" "dec_raws (JObj fs) = Err json_type_error"
  by (simp_all add: dec_raws_def)

lemma dec_ptr_Some: "j \<noteq> JNull \<Longrightarrow> dec_ptr dec j = outcome_bind (dec j) (\<lambda>x. Ok (Some x))"
  by (cases j) auto

end
