(* ===== verification/Venn_Ethtypes.thy ===== *)
theory Venn_Ethtypes
  imports Venn_Json
begin

text \<open>
  The package \<open>lib/ethtypes\<close>: block numbers and tags (\<open>rpc.go\<close>), log filters and their
  JSON form (\<open>filter.go\<close>), and the compiled filter with which cached logs are selected
  (\<open>logs.go\<close>). The codecs of go-ethereum (\<open>hexutil\<close>, \<open>common.Hash\<close>, \<open>common.Address\<close>)
  are a parameter, the record \<open>codec\<close>; \<open>codec_ok\<close> states what the program relies on.
\<close>

section \<open>Codecs of go-ethereum\<close>

type_synonym hash = "256 word"
type_synonym address = "160 word"

record codec =
  EncodeUint64 :: "u64 \<Rightarrow> string"
  dec_Uint64 :: "json \<Rightarrow> u64 outcome"
  hash_Hex :: "hash \<Rightarrow> string"
  dec_Hash :: "json \<Rightarrow> hash outcome"
  addr_Hex :: "address \<Rightarrow> string"
  dec_Address :: "json \<Rightarrow> address outcome"
  hex_Decode :: "string \<Rightarrow> nat list outcome"

definition hex_char :: "nat \<Rightarrow> char" where
  "hex_char n = ''0123456789abcdef'' ! n"

fun hex_digits :: "nat \<Rightarrow> string" where
  "hex_digits n = (if n < 16 then [hex_char n] else hex_digits (n div 16) @ [hex_char (n mod 16)])"

declare hex_digits.simps [simp del]

text \<open>\<open>common.BytesToHash\<close>: big endian, the last 32 bytes.\<close>

definition BytesToHash :: "nat list \<Rightarrow> hash" where
  "BytesToHash bs = word_of_nat (foldl (\<lambda>a b. a * 256 + b) 0 bs)"

text \<open>
  \<open>EncodeUint64\<close> writes 0x and the lower case hexadecimal digits without leading zeros, and
  the decoders read back what the encoders of the package write.
\<close>

definition codec_ok :: "codec \<Rightarrow> bool" where
  "codec_ok cdc \<longleftrightarrow>
     (\<forall>w. EncodeUint64 cdc w = ''0x'' @ hex_digits (unat w)) \<and>
     (\<forall>w. dec_Uint64 cdc (JStr (EncodeUint64 cdc w)) = Ok w) \<and>
     (\<forall>h. dec_Hash cdc (JStr (hash_Hex cdc h)) = Ok h) \<and>
     (\<forall>a. dec_Address cdc (JStr (addr_Hex cdc a)) = Ok a) \<and>
     (\<forall>h. \<exists>bs. hex_Decode cdc (hash_Hex cdc h) = Ok bs \<and> length bs = 32 \<and> BytesToHash bs = h)"

section \<open>Block numbers (rpc.go)\<close>

type_synonym BlockNumber = int

definition LatestExecutedBlockNumber :: BlockNumber where "LatestExecutedBlockNumber = - 5"
definition FinalizedBlockNumber :: BlockNumber where "FinalizedBlockNumber = - 4"
definition SafeBlockNumber :: BlockNumber where "SafeBlockNumber = - 3"
definition PendingBlockNumber :: BlockNumber where "PendingBlockNumber = - 2"
definition LatestBlockNumber :: BlockNumber where "LatestBlockNumber = - 1"
definition EarliestBlockNumber :: BlockNumber where "EarliestBlockNumber = 0"

lemmas block_tags = LatestExecutedBlockNumber_def FinalizedBlockNumber_def SafeBlockNumber_def
  PendingBlockNumber_def LatestBlockNumber_def EarliestBlockNumber_def

fun trimChar :: "string \<Rightarrow> string \<Rightarrow> string" where
  "trimChar data [] = data"
| "trimChar data (c # cs) =
     (if 2 \<le> length data \<and> hd data = c \<and> last data = c then butlast (tl data)
      else trimChar data cs)"

definition BlockNumber_MarshalJSON :: "codec \<Rightarrow> BlockNumber \<Rightarrow> string" where
  "BlockNumber_MarshalJSON cdc bn =
     (if bn = EarliestBlockNumber then quoted ''earliest''
      else if bn = LatestBlockNumber then quoted ''latest''
      else if bn = PendingBlockNumber then quoted ''pending''
      else if bn = SafeBlockNumber then quoted ''safe''
      else if bn = FinalizedBlockNumber then quoted ''finalized''
      else if bn = LatestExecutedBlockNumber then quoted ''latestExecuted''
      else quoted (EncodeUint64 cdc (i64_to_u64 bn)))"

text \<open>\<open>strconv.ParseUint(s, 10, 64)\<close>: \<open>None\<close> is a syntax or a range error.\<close>

definition is_digit :: "char \<Rightarrow> bool" where
  "is_digit c \<longleftrightarrow> 48 \<le> code c \<and> code c \<le> 57"

definition dec_value :: "string \<Rightarrow> nat" where
  "dec_value s = foldl (\<lambda>a c. a * 10 + (code c - 48)) 0 s"

definition ParseUint :: "string \<Rightarrow> u64 option" where
  "ParseUint s =
     (if s \<noteq> [] \<and> list_all is_digit s \<and> dec_value s < 2 ^ 64
      then Some (word_of_nat (dec_value s)) else None)"

text \<open>
  \<open>new(big.Int).SetString(s, 0)\<close> followed by \<open>Uint64()\<close>, whatever SetString reports: the
  optional sign is dropped, a prefix chooses the base, digits and underscores are read as
  long as they fit the base, and the low 64 bits of the magnitude remain.
\<close>

definition digit_value :: "char \<Rightarrow> nat" where
  "digit_value c =
     (if 48 \<le> code c \<and> code c \<le> 57 then code c - 48
      else if 97 \<le> code c \<and> code c \<le> 122 then code c - 87
      else if 65 \<le> code c \<and> code c \<le> 90 then code c - 55
      else 63)"

fun scan_digits :: "nat \<Rightarrow> string \<Rightarrow> nat \<Rightarrow> nat" where
  "scan_digits b [] acc = acc"
| "scan_digits b (c # cs) acc =
     (if c = CHR ''_'' then scan_digits b cs acc
      else if digit_value c < b then scan_digits b cs (acc * b + digit_value c)
      else acc)"

fun nat_scan :: "string \<Rightarrow> nat" where
  "nat_scan [] = 0"
| "nat_scan (c # cs) =
     (if c = CHR ''0'' then
        (case cs of
           [] \<Rightarrow> 0
         | d # ds \<Rightarrow>
             if d = CHR ''b'' \<or> d = CHR ''B'' then scan_digits 2 ds 0
             else if d = CHR ''o'' \<or> d = CHR ''O'' then scan_digits 8 ds 0
             else if d = CHR ''x'' \<or> d = CHR ''X'' then scan_digits 16 ds 0
             else scan_digits 8 cs 0)
      else scan_digits 10 (c # cs) 0)"

fun strip_sign :: "string \<Rightarrow> string" where
  "strip_sign [] = []"
| "strip_sign (c # cs) = (if c = CHR ''-'' \<or> c = CHR ''+'' then cs else c # cs)"

definition big_Uint64 :: "string \<Rightarrow> u64" where
  "big_Uint64 s = word_of_nat (nat_scan (strip_sign s))"

definition BlockNumber_UnmarshalJSON :: "string \<Rightarrow> BlockNumber outcome" where
  "BlockNumber_UnmarshalJSON data =
     (let input = trimChar (trim_space data) [CHR 0x22, CHR 0x27] in
      if input = ''earliest'' then Ok EarliestBlockNumber
      else if input = ''latest'' then Ok LatestBlockNumber
      else if input = ''pending'' then Ok PendingBlockNumber
      else if input = ''safe'' then Ok SafeBlockNumber
      else if input = ''finalized'' then Ok FinalizedBlockNumber
      else if input = ''latestExecuted'' then Ok LatestExecutedBlockNumber
      else if input = ''null'' then Ok LatestBlockNumber
      else
        let blckNum = (case ParseUint input of Some w \<Rightarrow> w | None \<Rightarrow> big_Uint64 input) in
        if 2 ^ 63 - 1 < uint blckNum then Err (ErrorText ''block number larger than int64'')
        else Ok (uint blckNum))"

text \<open>The decoder \<open>json.Unmarshal\<close> uses for a value of the type.\<close>

definition dec_BlockNumber :: "json \<Rightarrow> BlockNumber outcome" where
  "dec_BlockNumber j = BlockNumber_UnmarshalJSON (json_text j)"

record BlockNumberOrHash =
  bnh_BlockNumber :: "BlockNumber option"
  bnh_BlockHash :: "hash option"
  bnh_RequireCanonical :: bool

definition dec_erased :: "codec \<Rightarrow> json \<Rightarrow> BlockNumberOrHash outcome" where
  "dec_erased cdc j =
     outcome_bind (struct_fields j) (\<lambda>fs.
     outcome_bind (dec_field ''blockNumber'' (dec_ptr dec_BlockNumber) None fs) (\<lambda>n.
     outcome_bind (dec_field ''blockHash'' (dec_ptr (dec_Hash cdc)) None fs) (\<lambda>h.
     outcome_bind (dec_field ''requireCanonical'' dec_bool False fs) (\<lambda>c.
       Ok \<lparr>bnh_BlockNumber = n, bnh_BlockHash = h, bnh_RequireCanonical = c\<rparr>))))"

definition bnh_number :: "BlockNumber \<Rightarrow> BlockNumberOrHash" where
  "bnh_number n = \<lparr>bnh_BlockNumber = Some n, bnh_BlockHash = None, bnh_RequireCanonical = False\<rparr>"

definition BlockNumberOrHash_UnmarshalJSON :: "codec \<Rightarrow> json \<Rightarrow> BlockNumberOrHash outcome" where
  "BlockNumberOrHash_UnmarshalJSON cdc j =
     (case dec_erased cdc j of
        Ok e \<Rightarrow>
          if bnh_BlockNumber e \<noteq> None \<and> bnh_BlockHash e \<noteq> None
          then Err (ErrorText ''cannot specify both BlockHash and BlockNumber, choose one or the other'')
          else if bnh_BlockNumber e = None \<and> bnh_BlockHash e = None
          then Err (ErrorText ''at least one of BlockNumber or BlockHash is needed if a dictionary is provided'')
          else Ok e
      | Panic m \<Rightarrow> Panic m
      | Err _ \<Rightarrow>
          (case ParseUint (json_text j) of
             Some w \<Rightarrow>
               if 2 ^ 63 - 1 < uint w then Err (ErrorText ''blocknumber too high'')
               else Ok (bnh_number (uint w))
           | None \<Rightarrow>
               outcome_bind (dec_string j) (\<lambda>input.
               if input = ''earliest'' then Ok (bnh_number EarliestBlockNumber)
               else if input = ''latest'' then Ok (bnh_number LatestBlockNumber)
               else if input = ''pending'' then Ok (bnh_number PendingBlockNumber)
               else if input = ''safe'' then Ok (bnh_number SafeBlockNumber)
               else if input = ''finalized'' then Ok (bnh_number FinalizedBlockNumber)
               else if length input = 66
               then outcome_bind (dec_Hash cdc (JStr input)) (\<lambda>h.
                      Ok \<lparr>bnh_BlockNumber = None, bnh_BlockHash = Some h, bnh_RequireCanonical = False\<rparr>)
               else if 2 ^ 63 - 1 < uint (big_Uint64 input)
               then Err (ErrorText ''blocknumber too high'')
               else Ok (bnh_number (uint (big_Uint64 input))))))"

fun BlockNumberOrHash_Number :: "BlockNumberOrHash \<Rightarrow> BlockNumber \<times> bool" where
  "BlockNumberOrHash_Number b = (case bnh_BlockNumber b of Some n \<Rightarrow> (n, True) | None \<Rightarrow> (0, False))"

fun BlockNumberOrHash_Hash :: "BlockNumberOrHash \<Rightarrow> hash \<times> bool" where
  "BlockNumberOrHash_Hash b = (case bnh_BlockHash b of Some h \<Rightarrow> (h, True) | None \<Rightarrow> (0, False))"

section \<open>Log filters (filter.go)\<close>

definition decodeTopic :: "codec \<Rightarrow> string \<Rightarrow> hash outcome" where
  "decodeTopic cdc s =
     outcome_bind (hex_Decode cdc s) (\<lambda>b.
     if length b \<noteq> 32 then Err (ErrorText ''hex has invalid length after decoding; expected 32 for topic'')
     else Ok (BytesToHash b))"

definition invalid_topics :: gerror where
  "invalid_topics = ErrorText ''invalid topic(s)''"

fun topic_alternatives :: "codec \<Rightarrow> json list \<Rightarrow> hash list \<Rightarrow> hash list outcome" where
  "topic_alternatives cdc [] acc = Ok acc"
| "topic_alternatives cdc (JNull # ts) acc = Ok []"
| "topic_alternatives cdc (JStr s # ts) acc =
     outcome_bind (decodeTopic cdc s) (\<lambda>h. topic_alternatives cdc ts (acc @ [h]))"
| "topic_alternatives cdc (_ # ts) acc = Err invalid_topics"

fun topic_position :: "codec \<Rightarrow> json \<Rightarrow> hash list outcome" where
  "topic_position cdc JNull = Ok []"
| "topic_position cdc (JStr s) = outcome_bind (decodeTopic cdc s) (\<lambda>h. Ok [h])"
| "topic_position cdc (JArr ts) = topic_alternatives cdc ts []"
| "topic_position cdc _ = Err invalid_topics"

text \<open>An empty array and null leave the topics that were decoded before, if the field is repeated, as they are.\<close>

definition FilterQueryTopics_UnmarshalJSON :: "codec \<Rightarrow> hash list list \<Rightarrow> json \<Rightarrow> hash list list outcome" where
  "FilterQueryTopics_UnmarshalJSON cdc old v =
     outcome_bind (dec_raws v) (\<lambda>raw. if 0 < length raw then map_outcome (topic_position cdc) raw else Ok old)"

text \<open>Decoding a field into the value it has.\<close>

fun dec_field_into :: "string \<Rightarrow> ('a \<Rightarrow> json \<Rightarrow> 'a outcome) \<Rightarrow> 'a \<Rightarrow> (string \<times> json) list \<Rightarrow> 'a outcome" where
  "dec_field_into name dec x [] = Ok x"
| "dec_field_into name dec x ((k, v) # fs) =
     (if fold_name k = fold_name name
      then outcome_bind (dec x v) (\<lambda>y. dec_field_into name dec y fs)
      else dec_field_into name dec x fs)"

fun OneOrArray_UnmarshalJSON :: "(json \<Rightarrow> 'a outcome) \<Rightarrow> json \<Rightarrow> 'a list outcome" where
  "OneOrArray_UnmarshalJSON dec JNull = Ok []"
| "OneOrArray_UnmarshalJSON dec (JArr xs) = map_outcome dec xs"
| "OneOrArray_UnmarshalJSON dec j = outcome_bind (dec j) (\<lambda>v. Ok [v])"

fun OneOrArray_MarshalJSON :: "('a \<Rightarrow> json) \<Rightarrow> 'a list \<Rightarrow> json" where
  "OneOrArray_MarshalJSON enc [x] = enc x"
| "OneOrArray_MarshalJSON enc xs = JArr (map enc xs)"

record FilterQuery =
  fq_BlockHash :: "hash option"
  fq_FromBlock :: "BlockNumber option"
  fq_ToBlock :: "BlockNumber option"
  fq_Addresses :: "address list"
  fq_Topics :: "hash list list"

definition dec_FilterQuery :: "codec \<Rightarrow> json \<Rightarrow> FilterQuery outcome" where
  "dec_FilterQuery cdc j =
     outcome_bind (struct_fields j) (\<lambda>fs.
     outcome_bind (dec_field ''blockHash'' (dec_ptr (dec_Hash cdc)) None fs) (\<lambda>bh.
     outcome_bind (dec_field ''fromBlock'' (dec_ptr dec_BlockNumber) None fs) (\<lambda>fb.
     outcome_bind (dec_field ''toBlock'' (dec_ptr dec_BlockNumber) None fs) (\<lambda>tb.
     outcome_bind (dec_field ''address'' (OneOrArray_UnmarshalJSON (dec_Address cdc)) [] fs) (\<lambda>ad.
     outcome_bind (dec_field_into ''topics'' (FilterQueryTopics_UnmarshalJSON cdc) [] fs) (\<lambda>tp.
       Ok \<lparr>fq_BlockHash = bh, fq_FromBlock = fb, fq_ToBlock = tb, fq_Addresses = ad, fq_Topics = tp\<rparr>))))))"

text \<open>\<open>json.Marshal\<close> of a filter: every field has \<open>omitempty\<close>.\<close>

definition enc_BlockNumber :: "codec \<Rightarrow> BlockNumber \<Rightarrow> json" where
  "enc_BlockNumber cdc bn = JStr (butlast (tl (BlockNumber_MarshalJSON cdc bn)))"

fun enc_alternatives :: "codec \<Rightarrow> hash list \<Rightarrow> json" where
  "enc_alternatives cdc [] = JNull"
| "enc_alternatives cdc hs = JArr (map (\<lambda>h. JStr (hash_Hex cdc h)) hs)"

definition enc_FilterQuery :: "codec \<Rightarrow> FilterQuery \<Rightarrow> json" where
  "enc_FilterQuery cdc q = JObj (
     (case fq_BlockHash q of None \<Rightarrow> [] | Some h \<Rightarrow> [(''blockHash'', JStr (hash_Hex cdc h))]) @
     (case fq_FromBlock q of None \<Rightarrow> [] | Some n \<Rightarrow> [(''fromBlock'', enc_BlockNumber cdc n)]) @
     (case fq_ToBlock q of None \<Rightarrow> [] | Some n \<Rightarrow> [(''toBlock'', enc_BlockNumber cdc n)]) @
     (if fq_Addresses q = [] then []
      else [(''address'', OneOrArray_MarshalJSON (\<lambda>a. JStr (addr_Hex cdc a)) (fq_Addresses q))]) @
     (if fq_Topics q = [] then []
      else [(''topics'', JArr (map (enc_alternatives cdc) (fq_Topics q)))]))"

section \<open>Compiled filters (logs.go)\<close>

record LogAddressTopics =
  log_Address :: address
  log_Topics :: "hash list"

record CompiledFilter =
  cf_Addresses :: "address list"
  cf_Topics :: "hash list list"
  cf_AddrMap :: "address set"
  cf_TopicMap :: "hash set list"

text \<open>The loops that fill the two maps.\<close>

fun fill_map :: "'a set \<Rightarrow> 'a list \<Rightarrow> 'a set" where
  "fill_map m [] = m"
| "fill_map m (v # vs) = fill_map (insert v m) vs"

definition CompileFilter :: "address list \<Rightarrow> hash list list \<Rightarrow> CompiledFilter option" where
  "CompileFilter addresses topics =
     (if length addresses = 0 \<and> length topics = 0 then None
      else Some \<lparr>cf_Addresses = addresses, cf_Topics = topics,
                 cf_AddrMap = fill_map {} addresses, cf_TopicMap = map (fill_map {}) topics\<rparr>)"

text \<open>The loop over the topic sets, from index \<open>idx\<close>.\<close>

fun check_topics :: "nat \<Rightarrow> hash set list \<Rightarrow> hash list \<Rightarrow> bool" where
  "check_topics idx [] topics = True"
| "check_topics idx (topicSet # rest) topics =
     (if topicSet = {} then check_topics (Suc idx) rest topics
      else if length topics \<le> idx then False
      else if topics ! idx \<notin> topicSet then False
      else check_topics (Suc idx) rest topics)"

fun CompiledFilter_Check :: "CompiledFilter option \<Rightarrow> LogAddressTopics \<Rightarrow> bool" where
  "CompiledFilter_Check None l = True"
| "CompiledFilter_Check (Some c) l =
     (if cf_AddrMap c \<noteq> {} \<and> log_Address l \<notin> cf_AddrMap c then False
      else check_topics 0 (cf_TopicMap c) (log_Topics l))"

fun filter_loop :: "CompiledFilter option \<Rightarrow> 'l list \<Rightarrow> ('l \<Rightarrow> LogAddressTopics) \<Rightarrow> 'l list \<Rightarrow> 'l list" where
  "filter_loop c [] hdr out = out"
| "filter_loop c (v # vs) hdr out =
     filter_loop c vs hdr (if CompiledFilter_Check c (hdr v) then out @ [v] else out)"

definition CompiledFilter_Filter :: "CompiledFilter option \<Rightarrow> ('l \<Rightarrow> LogAddressTopics) \<Rightarrow> 'l list \<Rightarrow> 'l list" where
  "CompiledFilter_Filter c hdr logs = (if c = None then logs else filter_loop c logs hdr [])"

definition Logs_Filter :: "address list \<Rightarrow> hash list list \<Rightarrow> ('l \<Rightarrow> LogAddressTopics) \<Rightarrow> 'l list \<Rightarrow> 'l list" where
  "Logs_Filter addresses topics hdr logs =
     CompiledFilter_Filter (CompileFilter addresses topics) hdr logs"


section \<open>Scanning what was printed\<close>

lemma digit_value_hex_char: "n < 16 \<Longrightarrow> digit_value (hex_char n) = n"
proof -
  have "list_all (\<lambda>n. digit_value (hex_char n) = n) [0..<16]"
    by code_simp
  then show "n < 16 \<Longrightarrow> digit_value (hex_char n) = n"
    by (simp add: list_all_iff)
qed

lemma hex_char_not_underscore: "n < 16 \<Longrightarrow> hex_char n \<noteq> CHR ''_''"
  using digit_value_hex_char [of n] by (auto simp: digit_value_def code_def)

definition hex_body :: "string \<Rightarrow> bool" where
  "hex_body s \<longleftrightarrow> (\<forall>c \<in> set s. c \<noteq> CHR ''_'' \<and> digit_value c < 16)"

lemma scan_digits_append:
  "hex_body xs \<Longrightarrow> scan_digits 16 (xs @ ys) acc = scan_digits 16 ys (scan_digits 16 xs acc)"
  by (induction xs arbitrary: acc) (auto simp: hex_body_def)

lemma hex_body_digits: "hex_body (hex_digits n)"
proof (induction n rule: hex_digits.induct)
  case (1 n)
  then show ?case
    by (subst hex_digits.simps)
      (auto simp: hex_body_def digit_value_hex_char hex_char_not_underscore)
qed

lemma scan_hex_digits: "scan_digits 16 (hex_digits n) 0 = n"
proof (induction n rule: hex_digits.induct)
  case (1 n)
  show ?case
  proof (cases "n < 16")
    case True
    then show ?thesis
      by (subst hex_digits.simps) (simp add: digit_value_hex_char hex_char_not_underscore)
  next
    case False
    with 1 have "scan_digits 16 (hex_digits (n div 16)) 0 = n div 16" by simp
    with False show ?thesis
      by (subst hex_digits.simps)
        (simp add: scan_digits_append hex_body_digits digit_value_hex_char hex_char_not_underscore)
  qed
qed

lemma big_Uint64_hex: "big_Uint64 (''0x'' @ hex_digits (unat w)) = w"
  by (simp add: big_Uint64_def scan_hex_digits)

lemma ParseUint_0x: "ParseUint (''0x'' @ s) = None"
  by (simp add: ParseUint_def is_digit_def code_def)

lemma trim_space_quoted: "trim_space (quoted s) = quoted s"
  by (simp add: trim_space_def quoted_def is_space_def code_def)

lemma trimChar_quoted: "trimChar (quoted s) [CHR 0x22, CHR 0x27] = s"
  by (simp add: quoted_def)

lemma butlast_tl_quoted: "butlast (tl (quoted s)) = s"
  by (simp add: quoted_def)

section \<open>Properties of block numbers\<close>

definition valid_BlockNumber :: "BlockNumber \<Rightarrow> bool" where
  "valid_BlockNumber bn \<longleftrightarrow> - 5 \<le> bn \<and> bn < 2 ^ 63"

lemma Unmarshal_quoted:
  "BlockNumber_UnmarshalJSON (quoted s) =
     (if s = ''earliest'' then Ok EarliestBlockNumber
      else if s = ''latest'' then Ok LatestBlockNumber
      else if s = ''pending'' then Ok PendingBlockNumber
      else if s = ''safe'' then Ok SafeBlockNumber
      else if s = ''finalized'' then Ok FinalizedBlockNumber
      else if s = ''latestExecuted'' then Ok LatestExecutedBlockNumber
      else if s = ''null'' then Ok LatestBlockNumber
      else
        let blckNum = (case ParseUint s of Some w \<Rightarrow> w | None \<Rightarrow> big_Uint64 s) in
        if 2 ^ 63 - 1 < uint blckNum then Err (ErrorText ''block number larger than int64'')
        else Ok (uint blckNum))"
  by (simp only: BlockNumber_UnmarshalJSON_def trim_space_quoted trimChar_quoted Let_def)

lemma Unmarshal_quoted_hex:
  fixes w :: u64
  assumes "uint w < 2 ^ 63"
  shows "BlockNumber_UnmarshalJSON (quoted (''0x'' @ hex_digits (unat w))) = Ok (uint w)"
proof -
  let ?s = "''0x'' @ hex_digits (unat w)"
  have "ParseUint ?s = None" by (rule ParseUint_0x)
  moreover have "big_Uint64 ?s = w" by (rule big_Uint64_hex)
  ultimately show ?thesis
    using assms by (simp add: Unmarshal_quoted)
qed

lemma uint_i64_to_u64: "0 \<le> n \<Longrightarrow> n < 2 ^ 63 \<Longrightarrow> uint (i64_to_u64 n) = n"
  by (simp add: i64_to_u64_def uint_word_of_int)

lemma BlockNumber_round_trip_text:
  assumes c: "codec_ok cdc" and v: "valid_BlockNumber bn"
  shows "BlockNumber_UnmarshalJSON (BlockNumber_MarshalJSON cdc bn) = Ok bn"
proof (cases "bn \<le> 0")
  case True
  with v have "bn \<in> {- 5, - 4, - 3, - 2, - 1, 0}"
    by (auto simp: valid_BlockNumber_def)
  then show ?thesis
    by (auto simp: BlockNumber_MarshalJSON_def Unmarshal_quoted block_tags)
next
  case False
  with v have r: "0 < bn" "bn < 2 ^ 63" by (auto simp: valid_BlockNumber_def)
  have "BlockNumber_MarshalJSON cdc bn = quoted (''0x'' @ hex_digits (unat (i64_to_u64 bn)))"
    using r c by (simp add: BlockNumber_MarshalJSON_def block_tags codec_ok_def)
  moreover have "uint (i64_to_u64 bn) = bn"
    using r by (simp add: uint_i64_to_u64)
  ultimately show ?thesis
    using Unmarshal_quoted_hex [of "i64_to_u64 bn"] r by simp
qed

lemma MarshalJSON_is_quoted: "\<exists>s. BlockNumber_MarshalJSON cdc bn = quoted s"
  by (auto simp: BlockNumber_MarshalJSON_def)

lemma dec_enc_BlockNumber:
  assumes "codec_ok cdc" and "valid_BlockNumber bn"
  shows "dec_BlockNumber (enc_BlockNumber cdc bn) = Ok bn"
proof -
  obtain s where "BlockNumber_MarshalJSON cdc bn = quoted s"
    using MarshalJSON_is_quoted by blast
  then have "json_text (enc_BlockNumber cdc bn) = BlockNumber_MarshalJSON cdc bn"
    by (simp add: enc_BlockNumber_def butlast_tl_quoted)
  then show ?thesis
    using assms by (simp add: dec_BlockNumber_def BlockNumber_round_trip_text)
qed


lemma uint_not_large: "\<not> 2 ^ 63 - 1 < uint (w :: u64) \<Longrightarrow> valid_BlockNumber (uint w)"
  by (simp add: valid_BlockNumber_def order_trans [of "- 5" 0])

lemma Unmarshal_valid_text: "BlockNumber_UnmarshalJSON data = Ok bn \<Longrightarrow> valid_BlockNumber bn"
  by (auto simp: BlockNumber_UnmarshalJSON_def Let_def uint_not_large split: if_splits)
    (auto simp: valid_BlockNumber_def block_tags)

section \<open>Properties of filters\<close>

text \<open>What the documentation of \<open>FilterQueryTopics\<close> promises.\<close>

definition filter_spec :: "address list \<Rightarrow> hash list list \<Rightarrow> LogAddressTopics \<Rightarrow> bool" where
  "filter_spec addresses topics l \<longleftrightarrow>
     (addresses = [] \<or> log_Address l \<in> set addresses) \<and>
     (\<forall>i < length topics. topics ! i = [] \<or>
        (i < length (log_Topics l) \<and> log_Topics l ! i \<in> set (topics ! i)))"

lemma fill_map_set: "fill_map m vs = m \<union> set vs"
  by (induction vs arbitrary: m) auto

lemma check_topics_spec:
  "check_topics idx sets topics \<longleftrightarrow>
     (\<forall>i < length sets. sets ! i = {} \<or>
        (idx + i < length topics \<and> topics ! (idx + i) \<in> sets ! i))"
proof (induction sets arbitrary: idx)
  case Nil
  then show ?case by simp
next
  case (Cons t ts)
  have all: "(\<forall>i < length (t # ts). P i) \<longleftrightarrow> P 0 \<and> (\<forall>i < length ts. P (Suc i))" for P
    using less_Suc_eq_0_disj by auto
  show ?case
    by (simp only: all) (auto simp: Cons.IH)
qed

lemma filter_loop_eq: "filter_loop c logs hdr out = out @ filter (\<lambda>v. CompiledFilter_Check c (hdr v)) logs"
  by (induction logs arbitrary: out) auto

lemma Check_CompileFilter:
  "CompiledFilter_Check (CompileFilter addresses topics) l = filter_spec addresses topics l"
  by (auto simp: CompileFilter_def filter_spec_def check_topics_spec fill_map_set)

lemma CompiledFilter_Filter_eq:
  "CompiledFilter_Filter c hdr logs = filter (\<lambda>v. CompiledFilter_Check c (hdr v)) logs"
  by (auto simp: CompiledFilter_Filter_def filter_loop_eq)

section \<open>Round trip of filters\<close>

lemma decodeTopic_Hex: "codec_ok cdc \<Longrightarrow> decodeTopic cdc (hash_Hex cdc h) = Ok h"
proof -
  assume "codec_ok cdc"
  then obtain bs where "hex_Decode cdc (hash_Hex cdc h) = Ok bs" "length bs = 32" "BytesToHash bs = h"
    unfolding codec_ok_def by blast
  then show ?thesis by (simp add: decodeTopic_def)
qed

lemma topic_alternatives_enc:
  "codec_ok cdc \<Longrightarrow>
   topic_alternatives cdc (map (\<lambda>h. JStr (hash_Hex cdc h)) hs) acc = Ok (acc @ hs)"
  by (induction hs arbitrary: acc) (auto simp: decodeTopic_Hex)

lemma topic_position_enc: "codec_ok cdc \<Longrightarrow> topic_position cdc (enc_alternatives cdc hs) = Ok hs"
proof (cases hs)
  case (Cons h t)
  moreover assume "codec_ok cdc"
  ultimately show ?thesis
    using topic_alternatives_enc [of cdc hs "[]"] by simp
qed simp

lemma dec_enc_addresses:
  assumes "codec_ok cdc"
  shows "OneOrArray_UnmarshalJSON (dec_Address cdc)
           (OneOrArray_MarshalJSON (\<lambda>a. JStr (addr_Hex cdc a)) addrs) = Ok addrs"
proof -
  have dec: "dec_Address cdc (JStr (addr_Hex cdc a)) = Ok a" for a
    using assms by (simp add: codec_ok_def)
  show ?thesis
    by (cases addrs rule: remdups_adj.cases) (simp_all add: dec map_outcome_map)
qed

lemma dec_ptr_JStr [simp]: "dec_ptr dec (JStr s) = outcome_bind (dec (JStr s)) (\<lambda>x. Ok (Some x))"
  by simp

lemma dec_enc_FilterQuery:
  assumes c: "codec_ok cdc"
    and fb: "\<And>n. fq_FromBlock q = Some n \<Longrightarrow> valid_BlockNumber n"
    and tb: "\<And>n. fq_ToBlock q = Some n \<Longrightarrow> valid_BlockNumber n"
  shows "dec_FilterQuery cdc (enc_FilterQuery cdc q) = Ok q"
proof -
  have bn: "dec_ptr dec_BlockNumber (enc_BlockNumber cdc n) = Ok (Some n)" if "valid_BlockNumber n" for n
    using dec_enc_BlockNumber [OF c that] by (simp add: enc_BlockNumber_def)
  have h: "dec_Hash cdc (JStr (hash_Hex cdc x)) = Ok x" for x
    using c by (simp add: codec_ok_def)
  have tp: "FilterQueryTopics_UnmarshalJSON cdc [] (JArr (map (enc_alternatives cdc) ts)) = Ok ts" for ts
    using c by (simp add: FilterQueryTopics_UnmarshalJSON_def map_outcome_map topic_position_enc)
  show ?thesis
    by (cases "fq_BlockHash q"; cases "fq_FromBlock q"; cases "fq_ToBlock q")
      (auto simp: dec_FilterQuery_def enc_FilterQuery_def bn h tp fb tb dec_enc_addresses [OF c]
        lower_char_def code_def byte_def intro!: FilterQuery.equality)
qed


section \<open>A concrete codec\<close>

text \<open>
  An instance of the codec, for the theorems that apply the properties at concrete inputs.
\<close>

fun be_bytes :: "nat \<Rightarrow> nat \<Rightarrow> nat list" where
  "be_bytes 0 n = []"
| "be_bytes (Suc k) n = be_bytes k (n div 256) @ [n mod 256]"

definition bytes_hex :: "nat list \<Rightarrow> string" where
  "bytes_hex bs = concat (map (\<lambda>b. [hex_char (b div 16), hex_char (b mod 16)]) bs)"

fun hex_pairs :: "string \<Rightarrow> nat list outcome" where
  "hex_pairs [] = Ok []"
| "hex_pairs [c] = Err (ErrorText ''hex string of odd length'')"
| "hex_pairs (a # b # cs) =
     (if digit_value a < 16 \<and> digit_value b < 16
      then outcome_bind (hex_pairs cs) (\<lambda>bs. Ok ((digit_value a * 16 + digit_value b) # bs))
      else Err (ErrorText ''invalid hex string''))"

definition hex0x :: "string \<Rightarrow> nat list outcome" where
  "hex0x s = (if take 2 s = ''0x'' then hex_pairs (drop 2 s)
              else Err (ErrorText ''hex string without 0x prefix''))"

fun dec_fixed :: "nat \<Rightarrow> json \<Rightarrow> nat outcome" where
  "dec_fixed k (JStr s) = outcome_bind (hex0x s) (\<lambda>bs.
     if length bs = k then Ok (foldl (\<lambda>a b. a * 256 + b) 0 bs) else Err (ErrorText ''hex string has wrong length''))"
| "dec_fixed k _ = Err json_type_error"

fun dec_u64_text :: "json \<Rightarrow> u64 outcome" where
  "dec_u64_text (JStr s) = (if take 2 s = ''0x'' then Ok (big_Uint64 s) else Err (ErrorText ''hex string without 0x prefix''))"
| "dec_u64_text _ = Err json_type_error"

definition eth_codec :: codec where
  "eth_codec = \<lparr>
     EncodeUint64 = (\<lambda>w. ''0x'' @ hex_digits (unat w)),
     dec_Uint64 = dec_u64_text,
     hash_Hex = (\<lambda>h. ''0x'' @ bytes_hex (be_bytes 32 (unat h))),
     dec_Hash = (\<lambda>j. outcome_bind (dec_fixed 32 j) (\<lambda>n. Ok (word_of_nat n))),
     addr_Hex = (\<lambda>a. ''0x'' @ bytes_hex (be_bytes 20 (unat a))),
     dec_Address = (\<lambda>j. outcome_bind (dec_fixed 20 j) (\<lambda>n. Ok (word_of_nat n))),
     hex_Decode = hex0x\<rparr>"

lemma length_be_bytes [simp]: "length (be_bytes k n) = k"
  by (induction k arbitrary: n) auto

lemma be_bytes_small: "b \<in> set (be_bytes k n) \<Longrightarrow> b < 256"
  by (induction k arbitrary: n) auto

lemma foldl_be_bytes: "n < 256 ^ k \<Longrightarrow> foldl (\<lambda>a b. a * 256 + b) 0 (be_bytes k n) = n"
  by (induction k arbitrary: n) (auto simp: less_mult_imp_div_less)

lemma hex_pairs_bytes: "(\<And>b. b \<in> set bs \<Longrightarrow> b < 256) \<Longrightarrow> hex_pairs (bytes_hex bs) = Ok bs"
  by (induction bs) (auto simp: bytes_hex_def digit_value_hex_char less_mult_imp_div_less)

lemma hex0x_be_bytes: "hex0x (''0x'' @ bytes_hex (be_bytes k n)) = Ok (be_bytes k n)"
  using be_bytes_small by (simp add: hex0x_def hex_pairs_bytes)

lemma eth_codec_ok: "codec_ok eth_codec"
proof -
  have h: "foldl (\<lambda>a b. a * 256 + b) 0 (be_bytes 32 (unat h)) = unat h" for h :: hash
    using unsigned_less [where 'a = nat, of h] by (intro foldl_be_bytes) simp
  have a: "foldl (\<lambda>a b. a * 256 + b) 0 (be_bytes 20 (unat a)) = unat a" for a :: address
    using unsigned_less [where 'a = nat, of a] by (intro foldl_be_bytes) simp
  have u: "dec_u64_text (JStr (''0x'' @ hex_digits (unat w))) = Ok w" for w :: u64
    using big_Uint64_hex [of w] by simp
  show ?thesis
    unfolding codec_ok_def eth_codec_def
    using u by (simp add: hex0x_be_bytes [simplified] h a BytesToHash_def)
qed

section \<open>The properties\<close>

text \<open>
  C22: Encoding a block number and decoding the result gives the block number back, for every
  tag and every number that fits a non-negative int64.
\<close>

theorem block_number_round_trip:
  assumes "codec_ok cdc" and "valid_BlockNumber bn"
  shows "BlockNumber_UnmarshalJSON (BlockNumber_MarshalJSON cdc bn) = Ok bn"
  using assms by (rule BlockNumber_round_trip_text)

theorem block_number_round_trip_witness:
  "codec_ok eth_codec \<and> valid_BlockNumber 19000000 \<and>
   BlockNumber_UnmarshalJSON (BlockNumber_MarshalJSON eth_codec 19000000) = Ok 19000000"
  using block_number_round_trip [OF eth_codec_ok, of 19000000] eth_codec_ok
  by (simp add: valid_BlockNumber_def)

text \<open>
  A block number that decodes is one of the tags or lies between 0 and the largest int64.
\<close>

theorem block_number_decodes_in_range:
  "BlockNumber_UnmarshalJSON data = Ok bn \<Longrightarrow> valid_BlockNumber bn"
  by (rule Unmarshal_valid_text)

theorem block_number_decodes_in_range_witness:
  "BlockNumber_UnmarshalJSON (quoted ''latest'') = Ok (- 1) \<and> valid_BlockNumber (- 1)"
proof -
  have "BlockNumber_UnmarshalJSON (quoted ''latest'') = Ok (- 1)"
    by (simp add: Unmarshal_quoted block_tags)
  then show ?thesis using block_number_decodes_in_range by blast
qed

text \<open>
  A string that is no tag and does not start with a digit, a sign or an underscore is not
  rejected: it decodes as block 0, the genesis block.
\<close>

theorem unknown_tag_decodes_as_genesis:
  assumes "10 \<le> digit_value c" and "c \<notin> set ''+-_''"
    and "c # cs \<notin> set [''earliest'', ''latest'', ''pending'', ''safe'', ''finalized'',
           ''latestExecuted'', ''null'']"
  shows "BlockNumber_UnmarshalJSON (quoted (c # cs)) = Ok 0"
proof -
  have "\<not> is_digit c" using assms(1) by (auto simp: is_digit_def digit_value_def)
  then have "ParseUint (c # cs) = None" by (simp add: ParseUint_def)
  moreover have "c \<noteq> CHR ''0''" using assms(1) by (auto simp: digit_value_def code_def)
  then have "big_Uint64 (c # cs) = 0" using assms(1,2) by (auto simp: big_Uint64_def)
  ultimately show ?thesis using assms(3) by (auto simp: Unmarshal_quoted)
qed

theorem unknown_tag_decodes_as_genesis_witness:
  "BlockNumber_UnmarshalJSON (quoted ''foo'') = Ok 0"
  using unknown_tag_decodes_as_genesis [of "CHR ''f''" "''oo''"]
  by (simp add: digit_value_def code_def)

text \<open>
  C23: Encoding a log filter and decoding the result gives the filter back.
\<close>

theorem filter_query_round_trip:
  assumes "codec_ok cdc"
    and "\<And>n. fq_FromBlock q = Some n \<Longrightarrow> valid_BlockNumber n"
    and "\<And>n. fq_ToBlock q = Some n \<Longrightarrow> valid_BlockNumber n"
  shows "dec_FilterQuery cdc (enc_FilterQuery cdc q) = Ok q"
  using assms by (rule dec_enc_FilterQuery)

theorem filter_query_round_trip_witness:
  "dec_FilterQuery eth_codec (enc_FilterQuery eth_codec
     \<lparr>fq_BlockHash = None, fq_FromBlock = Some 5, fq_ToBlock = Some (- 1),
      fq_Addresses = [7], fq_Topics = [[], [1, 2]]\<rparr>) =
   Ok \<lparr>fq_BlockHash = None, fq_FromBlock = Some 5, fq_ToBlock = Some (- 1),
       fq_Addresses = [7], fq_Topics = [[], [1, 2]]\<rparr>"
  by (rule filter_query_round_trip [OF eth_codec_ok]) (auto simp: valid_BlockNumber_def)

text \<open>
  C24: Filtering logs with a compiled filter keeps, in order, exactly the logs that the
  documentation of the topics describes: an allowed address (any, when none is given), and for
  each position with alternatives a topic at that position that is one of them.
\<close>

theorem log_filter_is_specification:
  "Logs_Filter addresses topics hdr logs = filter (\<lambda>l. filter_spec addresses topics (hdr l)) logs"
  by (simp add: Logs_Filter_def CompiledFilter_Filter_eq Check_CompileFilter)

end
