(* ===== verification/Venn_Jrpc.thy ===== *)
theory Venn_Jrpc
  imports Complex_Main Venn_Ethtypes
begin

text \<open>
  The configuration records (\<open>lib/config/config.go\<close>), the values a request carries in its
  context (\<open>lib/subctx\<close>), and the JSON-RPC plumbing of \<open>lib/jrpcutil\<close>: handlers, the
  interceptor and \<open>Do\<close>. A handler is a function of the request and the state of the process;
  it returns what it sent to its response writer, in order, or the panic that ended it, and the
  new state. Floating point configuration values are rational numbers.
\<close>

section \<open>Configuration records\<close>

record RemoteRateLimit =
  rl_EventsPerSecond :: rat
  rl_Burst :: int

record Filter =
  flt_Name :: string
  flt_Methods :: "(string \<times> bool) list"

record Remote =
  rem_Name :: string
  rem_Url :: string
  rem_Priority :: int
  rem_Headers :: "(string \<times> string) list"
  rem_HealthCheckIntervalMin :: int
  rem_HealthCheckIntervalMax :: int
  rem_RateLimitBackoff :: int
  rem_ErrorBackoffMin :: int
  rem_ErrorBackoffMax :: int
  rem_Filters :: "string list"
  rem_ParsedFilters :: "Filter list"
  rem_RateLimit :: "RemoteRateLimit option"
  rem_SendDataAndInput :: bool
  rem_MaxBlockLookback :: int

definition Remote_zero :: Remote where
  "Remote_zero = \<lparr>rem_Name = [], rem_Url = [], rem_Priority = 0, rem_Headers = [],
     rem_HealthCheckIntervalMin = 0, rem_HealthCheckIntervalMax = 0, rem_RateLimitBackoff = 0,
     rem_ErrorBackoffMin = 0, rem_ErrorBackoffMax = 0, rem_Filters = [], rem_ParsedFilters = [],
     rem_RateLimit = None, rem_SendDataAndInput = False, rem_MaxBlockLookback = 0\<rparr>"

record Chain =
  ch_Name :: string
  ch_Id :: int
  ch_Aliases :: "string list"
  ch_BlockTimeSeconds :: rat
  ch_Remotes :: "Remote list"
  ch_Stalk :: "bool option"
  ch_ParsedStalk :: bool
  ch_ForgeBlockReceipts :: bool
  ch_MaxBlockLookback :: int

record AbuseLimit =
  al_Id :: string
  al_Total :: int
  al_Window :: int

record EndpointSpec =
  ep_Name :: string
  ep_Paths :: "(string \<times> string) list"
  ep_Abuse :: "AbuseLimit list"
  ep_Usage :: "string list"
  ep_Methods :: "string list"
  ep_VennUrl :: string

text \<open>\<open>time.Duration(x * float64(time.Second))\<close> for a non-negative number of seconds.\<close>

definition seconds_to_duration :: "rat \<Rightarrow> int" where
  "seconds_to_duration x = (if 0 \<le> x then \<lfloor>x * 1000000000\<rfloor> else - \<lfloor>- x * 1000000000\<rfloor>)"

section \<open>Contexts (lib/subctx) and rate limit identifiers\<close>

record Identifier =
  id_Endpoint :: string
  id_Type :: string
  id_Slug :: string
  id_ExtraCost :: int

record ctx =
  ctx_Chain :: "Chain option"
  ctx_Internal :: "bool option"
  ctx_EndpointPath :: "string option"
  ctx_EndpointSpec :: "EndpointSpec option"
  ctx_Identifier :: "Identifier option"
  ctx_Notifier :: bool
  ctx_Deadline :: "int option"

definition Background :: ctx where
  "Background = \<lparr>ctx_Chain = None, ctx_Internal = None, ctx_EndpointPath = None,
     ctx_EndpointSpec = None, ctx_Identifier = None, ctx_Notifier = False,
     ctx_Deadline = None\<rparr>"

definition WithChain :: "ctx \<Rightarrow> Chain \<Rightarrow> ctx" where
  "WithChain c chain = c\<lparr>ctx_Chain := Some chain\<rparr>"

definition WithEndpointSpec :: "ctx \<Rightarrow> EndpointSpec \<Rightarrow> ctx" where
  "WithEndpointSpec c spec = c\<lparr>ctx_EndpointSpec := Some spec\<rparr>"

definition WithEndpointPath :: "ctx \<Rightarrow> string \<Rightarrow> ctx" where
  "WithEndpointPath c path = c\<lparr>ctx_EndpointPath := Some path\<rparr>"

definition WithInternal :: "ctx \<Rightarrow> bool \<Rightarrow> ctx" where
  "WithInternal c b = c\<lparr>ctx_Internal := Some b\<rparr>"

definition GetEndpointPath :: "ctx \<Rightarrow> string outcome" where
  "GetEndpointPath c =
     (case ctx_EndpointPath c of
        None \<Rightarrow> Err (Sentinel ErrNoEndpointPath)
      | Some p \<Rightarrow> if p = [] then Err (Sentinel ErrNoEndpointPath) else Ok p)"

definition GetEndpointSpec :: "ctx \<Rightarrow> EndpointSpec outcome" where
  "GetEndpointSpec c =
     (case ctx_EndpointSpec c of None \<Rightarrow> Err (Sentinel ErrNoEndpointSpec) | Some e \<Rightarrow> Ok e)"

definition GetChain :: "ctx \<Rightarrow> Chain outcome" where
  "GetChain c = (case ctx_Chain c of None \<Rightarrow> Err (Sentinel ErrNoChain) | Some ch \<Rightarrow> Ok ch)"

definition IsInternal :: "ctx \<Rightarrow> bool" where
  "IsInternal c = (case ctx_Internal c of None \<Rightarrow> False | Some b \<Rightarrow> b)"

text \<open>
  \<open>context.WithTimeoutCause\<close>: an earlier deadline of the parent stays in force. The cause is the
  given one when the new deadline is the one that passes. Cancellation by the caller is not
  represented.
\<close>

definition WithTimeout :: "int \<Rightarrow> int \<Rightarrow> ctx \<Rightarrow> ctx" where
  "WithTimeout now d c =
     (case ctx_Deadline c of
        Some t \<Rightarrow> if t < now + d then c else c\<lparr>ctx_Deadline := Some (now + d)\<rparr>
      | None \<Rightarrow> c\<lparr>ctx_Deadline := Some (now + d)\<rparr>)"

definition timed_out :: "int \<Rightarrow> int \<Rightarrow> ctx \<Rightarrow> int \<Rightarrow> bool" where
  "timed_out now d c later \<longleftrightarrow>
     now + d \<le> later \<and> (case ctx_Deadline c of Some t \<Rightarrow> now + d \<le> t | None \<Rightarrow> True)"

section \<open>Requests, replies, handlers\<close>

record request =
  rq_Method :: string
  rq_Params :: raw
  rq_Ctx :: ctx
  rq_RemoteAddr :: string
  rq_HTTPRemoteAddr :: "string option"

text \<open>
  A result of type \<open>any\<close>: nil, a \<open>json.RawMessage\<close>, a \<open>sonic.NoCopyRawMessage\<close>, a
  \<open>hexutil.Uint64\<close>, a string, or a block header value (its number, its timestamp and its JSON
  form).
\<close>

datatype any =
    ANil
  | ARaw json
  | ANoCopy json
  | AUint64 u64
  | AString string
  | AHeader u64 u64 json

type_synonym send = "any \<times> gerror option"

datatype reply = Sends "send list" | Crash string

type_synonym 's handler = "request \<Rightarrow> 's \<Rightarrow> reply \<times> 's"

type_synonym 's middleware = "'s handler \<Rightarrow> 's handler"

definition send_err :: "gerror \<Rightarrow> reply" where
  "send_err e = Sends [(ANil, Some e)]"

definition send_ok :: "any \<Rightarrow> reply" where
  "send_ok v = Sends [(v, None)]"

text \<open>\<open>w.Send(v, err)\<close> with the outcome of a call.\<close>

fun send_outcome :: "('a \<Rightarrow> any) \<Rightarrow> 'a outcome \<Rightarrow> reply" where
  "send_outcome f (Ok x) = send_ok (f x)"
| "send_outcome f (Err e) = send_err e"
| "send_outcome f (Panic m) = Crash m"

section \<open>The interceptor (lib/jrpcutil/interceptor.go)\<close>

record Interceptor =
  ic_Result :: any
  ic_Error :: "gerror option"

definition Interceptor_zero :: Interceptor where
  "Interceptor_zero = \<lparr>ic_Result = ANil, ic_Error = None\<rparr>"

definition Interceptor_Send :: "Interceptor \<Rightarrow> send \<Rightarrow> Interceptor" where
  "Interceptor_Send ic p = \<lparr>ic_Result = fst p, ic_Error = snd p\<rparr>"

text \<open>\<open>next.ServeRPC(&icept, r)\<close>: the interceptor keeps the last thing sent to it.\<close>

definition serve_icept :: "'s handler \<Rightarrow> Interceptor \<Rightarrow> request \<Rightarrow> 's \<Rightarrow> Interceptor outcome \<times> 's" where
  "serve_icept h ic r s =
     (case h r s of
        (Sends xs, s') \<Rightarrow> (Ok (foldl Interceptor_Send ic xs), s')
      | (Crash m, s') \<Rightarrow> (Panic m, s'))"

text \<open>\<open>w.Send(icept.Result, icept.Error)\<close>.\<close>

definition send_icept :: "Interceptor \<Rightarrow> reply" where
  "send_icept ic = Sends [(ic_Result ic, ic_Error ic)]"

text \<open>
  A middleware that intercepts what the next handler sends and goes on with it; a panic of the
  next handler unwinds through it.
\<close>

definition with_icept :: "'s handler \<Rightarrow> request \<Rightarrow> 's \<Rightarrow> (Interceptor \<Rightarrow> 's \<Rightarrow> reply \<times> 's) \<Rightarrow> reply \<times> 's" where
  "with_icept h r s k =
     (case serve_icept h Interceptor_zero r s of
        (Ok ic, s') \<Rightarrow> k ic s'
      | (Err e, s') \<Rightarrow> (send_err e, s')
      | (Panic m, s') \<Rightarrow> (Crash m, s'))"

section \<open>Do (lib/jrpcutil/do.go)\<close>

definition NewRequest :: "ctx \<Rightarrow> string \<Rightarrow> json \<Rightarrow> request" where
  "NewRequest c method args =
     \<lparr>rq_Method = method, rq_Params = RawDoc args, rq_Ctx = c, rq_RemoteAddr = [], rq_HTTPRemoteAddr = None\<rparr>"

fun marshal_any :: "codec \<Rightarrow> any \<Rightarrow> json" where
  "marshal_any cdc ANil = JNull"
| "marshal_any cdc (ARaw j) = j"
| "marshal_any cdc (ANoCopy j) = j"
| "marshal_any cdc (AUint64 w) = JStr (EncodeUint64 cdc w)"
| "marshal_any cdc (AString t) = JStr t"
| "marshal_any cdc (AHeader n t j) = j"

text \<open>With a \<open>*json.RawMessage\<close> as the result.\<close>

definition Do :: "codec \<Rightarrow> ctx \<Rightarrow> 's handler \<Rightarrow> string \<Rightarrow> json \<Rightarrow> 's \<Rightarrow> json outcome \<times> 's" where
  "Do cdc c h method args s =
     (case serve_icept h Interceptor_zero (NewRequest (WithInternal c True) method args) s of
        (Ok ic, s') \<Rightarrow>
          (case ic_Error ic of
             Some e \<Rightarrow> (Err e, s')
           | None \<Rightarrow> (Ok (marshal_any cdc (ic_Result ic)), s'))
      | (Err e, s') \<Rightarrow> (Err e, s')
      | (Panic m, s') \<Rightarrow> (Panic m, s'))"

text \<open>With another result type: the marshalled result is decoded into it.\<close>

definition Do_into :: "(json \<Rightarrow> 'a outcome) \<Rightarrow> codec \<Rightarrow> ctx \<Rightarrow> 's handler \<Rightarrow> string \<Rightarrow> json \<Rightarrow> 's \<Rightarrow> 'a outcome \<times> 's" where
  "Do_into dec cdc c h method args s =
     (case Do cdc c h method args s of (o1, s') \<Rightarrow> (outcome_bind o1 dec, s'))"

section \<open>Lemmas on the plumbing\<close>

lemma serve_icept_eq:
  "serve_icept h ic r s =
     ((case fst (h r s) of
         Sends xs \<Rightarrow> Ok (if xs = [] then ic else \<lparr>ic_Result = fst (last xs), ic_Error = snd (last xs)\<rparr>)
       | Crash m \<Rightarrow> Panic m),
      snd (h r s))"
proof -
  have "foldl Interceptor_Send ic xs =
      (if xs = [] then ic else \<lparr>ic_Result = fst (last xs), ic_Error = snd (last xs)\<rparr>)" for xs
    by (induction xs rule: rev_induct) (auto simp: Interceptor_Send_def)
  then show ?thesis
    by (simp add: serve_icept_def split: prod.splits reply.splits)
qed

text \<open>What an interceptor holds after a handler that sent \<open>xs\<close>.\<close>

definition icept_of :: "send list \<Rightarrow> Interceptor" where
  "icept_of xs = (if xs = [] then Interceptor_zero else \<lparr>ic_Result = fst (last xs), ic_Error = snd (last xs)\<rparr>)"

lemma icept_of_simps [simp]:
  "icept_of [] = Interceptor_zero"
  "icept_of (xs @ [x]) = \<lparr>ic_Result = fst x, ic_Error = snd x\<rparr>"
  "icept_of [(v, e)] = \<lparr>ic_Result = v, ic_Error = e\<rparr>"
  by (simp_all add: icept_of_def)

lemma with_icept_eq:
  "with_icept h r s k =
     (case h r s of (Sends xs, s') \<Rightarrow> k (icept_of xs) s' | (Crash m, s') \<Rightarrow> (Crash m, s'))"
  by (auto simp: with_icept_def serve_icept_eq icept_of_def split: prod.splits reply.splits)

lemma snd_serve_icept [simp]: "snd (serve_icept h ic r s) = snd (h r s)"
  by (simp add: serve_icept_eq)

lemma serve_icept_no_Err [simp]: "serve_icept h ic r s \<noteq> (Err e, s')"
  by (simp add: serve_icept_eq split: reply.splits)

lemma serve_icept_state: "serve_icept h ic r s = (x, s') \<Longrightarrow> s' = snd (h r s)"
  by (simp add: serve_icept_eq)

lemma Do_state: "snd (Do cdc c h method args s) = snd (h (NewRequest (WithInternal c True) method args) s)"
  by (auto simp: Do_def serve_icept_eq split: outcome.splits option.splits reply.splits)

lemma Do_into_state:
  "snd (Do_into dec cdc c h method args s) = snd (h (NewRequest (WithInternal c True) method args) s)"
  by (simp add: Do_into_def split_beta Do_state)

lemma send_err_neq_Crash [simp]: "send_err e \<noteq> Crash m" "send_ok v \<noteq> Crash m"
  by (simp_all add: send_err_def send_ok_def)

text \<open>A handler that does not touch a cell.\<close>

definition keeps_cell :: "('s, 'a) cell \<Rightarrow> 's handler \<Rightarrow> bool" where
  "keeps_cell c h \<longleftrightarrow> (\<forall>r s. rd c (snd (h r s)) = rd c s)"

lemma Do_into_keeps: "keeps_cell c h \<Longrightarrow> Do_into dec cdc x h m a s = (res, s') \<Longrightarrow> rd c s' = rd c s"
  using Do_into_state [of dec cdc x h m a s] by (auto simp: keeps_cell_def)

text \<open>Requests served one after the other.\<close>

fun serve_all :: "'s handler \<Rightarrow> request list \<Rightarrow> 's \<Rightarrow> reply list \<times> 's" where
  "serve_all h [] s = ([], s)"
| "serve_all h (r # rs) s =
     (case h r s of (x, s1) \<Rightarrow> case serve_all h rs s1 of (xs, s2) \<Rightarrow> (x # xs, s2))"

end
