(* ===== verification/Venn_Util.thy ===== *)
theory Venn_Util
  imports Venn_Jrpc
begin

text \<open>
  The package \<open>lib/util\<close>: classification of errors (\<open>error.go\<close>), defaults
  (\<open>coalesce.go\<close>), method names (\<open>validation.go\<close>) and remote addresses (\<open>net.go\<close>).
\<close>

section \<open>Defaults and lookups\<close>

definition Coa :: "'a \<Rightarrow> 'a \<Rightarrow> 'a \<Rightarrow> 'a" where
  "Coa zero v fallback = (if v = zero then fallback else v)"

definition CoaFunc :: "('a \<Rightarrow> 'b outcome) \<Rightarrow> 'a \<Rightarrow> 'a \<Rightarrow> 'b \<Rightarrow> 'b outcome" where
  "CoaFunc fn zero v fallback = (if v = zero then Ok fallback else fn v)"

definition NewErrChainNotFound :: "string \<Rightarrow> gerror" where
  "NewErrChainNotFound chain = Wrapped (''chain not found: '' @ chain) (Sentinel ErrChainNotFound)"

definition util_GetChain :: "string \<Rightarrow> (string \<rightharpoonup> 'a) \<Rightarrow> 'a outcome" where
  "util_GetChain chain m =
     (case m chain of None \<Rightarrow> Err (NewErrChainNotFound chain) | Some c \<Rightarrow> Ok c)"

section \<open>Classification of errors (error.go)\<close>

fun IsUserError :: "gerror option \<Rightarrow> bool" where
  "IsUserError None = False"
| "IsUserError (Some err) =
     (if errors_Is err UserError then True
      else if errors_Is err ErrNotificationsUnsupported then True
      else case errors_As_json err of
        Some (c, txt) \<Rightarrow>
          if c \<in> {- 32601, - 32603, - 32001, - 32002, - 32005} then False
          else if c = - 32000 then \<not> str_contains txt ''not found''
          else True
      | None \<Rightarrow> errors_Is err DeadlineExceeded \<or> errors_Is err Canceled)"

text \<open>
  \<open>utf8.DecodeRuneInString\<close>: the rune and its width. \<open>rune_error\<close> is U+FFFD, which is also
  what an invalid sequence decodes to.
\<close>

definition rune_error :: nat where "rune_error = 0xFFFD"

definition is_cont :: "char \<Rightarrow> bool" where
  "is_cont c \<longleftrightarrow> 0x80 \<le> code c \<and> code c \<le> 0xBF"

fun DecodeRune :: "string \<Rightarrow> nat \<times> nat" where
  "DecodeRune [] = (rune_error, 0)"
| "DecodeRune (a # rest) =
     (let x = code a in
      if x < 0x80 then (x, 1)
      else if 0xC2 \<le> x \<and> x \<le> 0xDF then
        (case rest of b # _ \<Rightarrow> if is_cont b then ((x - 0xC0) * 64 + (code b - 0x80), 2) else (rune_error, 1)
         | [] \<Rightarrow> (rune_error, 1))
      else if 0xE0 \<le> x \<and> x \<le> 0xEF then
        (case rest of
           b # c # _ \<Rightarrow>
             if is_cont b \<and> is_cont c \<and> (x = 0xE0 \<longrightarrow> 0xA0 \<le> code b) \<and> (x = 0xED \<longrightarrow> code b \<le> 0x9F)
             then ((x - 0xE0) * 4096 + (code b - 0x80) * 64 + (code c - 0x80), 3) else (rune_error, 1)
         | _ \<Rightarrow> (rune_error, 1))
      else if 0xF0 \<le> x \<and> x \<le> 0xF4 then
        (case rest of
           b # c # d # _ \<Rightarrow>
             if is_cont b \<and> is_cont c \<and> is_cont d \<and> (x = 0xF0 \<longrightarrow> 0x90 \<le> code b) \<and> (x = 0xF4 \<longrightarrow> code b \<le> 0x8F)
             then ((x - 0xF0) * 262144 + (code b - 0x80) * 4096 + (code c - 0x80) * 64 + (code d - 0x80), 4)
             else (rune_error, 1)
         | _ \<Rightarrow> (rune_error, 1))
      else (rune_error, 1))"

text \<open>
  \<open>unicode.ToUpper\<close>, exact for the runes whose upper case is an ASCII letter (the letters, the
  dotless i and the long s). The needles are ASCII, so no other rune can be equal to theirs.
\<close>

definition ToUpper :: "nat \<Rightarrow> nat" where
  "ToUpper r = (if 97 \<le> r \<and> r \<le> 122 then r - 32
                else if r = 0x131 then 73 else if r = 0x17F then 83 else r)"

text \<open>The loop of \<open>startsWithIgnoreCase\<close> over an ASCII needle, after its length check.\<close>

fun starts_loop :: "string \<Rightarrow> string \<Rightarrow> bool" where
  "starts_loop haystack [] = True"
| "starts_loop haystack (n # needle) =
     (case DecodeRune haystack of
        (actual, width) \<Rightarrow>
          if actual = rune_error then False
          else if ToUpper actual \<noteq> ToUpper (code n) then False
          else starts_loop (drop width haystack) needle)"

definition startsWithIgnoreCase :: "string \<Rightarrow> string \<Rightarrow> bool" where
  "startsWithIgnoreCase haystack needle =
     (if length haystack < length needle then False else starts_loop haystack needle)"

lemma DecodeRune_size: "fst (DecodeRune s) \<noteq> rune_error \<Longrightarrow> 0 < snd (DecodeRune s) \<and> s \<noteq> []"
  by (cases s) (auto simp: Let_def split: list.splits if_splits)

function containsIgnoreCase :: "string \<Rightarrow> string \<Rightarrow> bool" where
  "containsIgnoreCase haystack needle =
     (if length haystack < length needle then False
      else if startsWithIgnoreCase haystack needle then True
      else if fst (DecodeRune haystack) = rune_error then False
      else containsIgnoreCase (drop (snd (DecodeRune haystack)) haystack) needle)"
  by pat_completeness auto
termination
  by (relation "measure (length \<circ> fst)") (use DecodeRune_size in \<open>fastforce simp: diff_less\<close>)+

declare containsIgnoreCase.simps [simp del]

fun IsTimeoutError :: "gerror option \<Rightarrow> bool" where
  "IsTimeoutError None = False"
| "IsTimeoutError (Some err) =
     ((case errors_As_json err of Some (c, _) \<Rightarrow> c = - 32005 | None \<Rightarrow> False) \<or>
      errors_As_http err = Some 429 \<or>
      containsIgnoreCase (error_text err) ''limit'' \<or>
      containsIgnoreCase (error_text err) ''rate'')"

fun IsNodeError :: "gerror option \<Rightarrow> bool" where
  "IsNodeError None = False"
| "IsNodeError (Some err) =
     (if errors_As_json err \<noteq> None then False
      else case errors_As_http err of
        Some status \<Rightarrow> status \<notin> {429, 400, 413}
      | None \<Rightarrow> True)"

section \<open>Method names (validation.go)\<close>

definition MethodValidationMiddleware :: "'s middleware" where
  "MethodValidationMiddleware next = (\<lambda>r s.
     if 256 < length (rq_Method r)
     then (send_err (NewInvalidRequestError ''method name too long''), s)
     else if str_contains (rq_Method r) ''_internal''
     then (send_err (NewInvalidRequestError ''method not allowed''), s)
     else next r s)"

section \<open>Remote addresses (net.go)\<close>

fun index_of :: "char \<Rightarrow> string \<Rightarrow> nat option" where
  "index_of c [] = None"
| "index_of c (x # xs) = (if x = c then Some 0 else map_option Suc (index_of c xs))"

definition last_index_of :: "char \<Rightarrow> string \<Rightarrow> nat option" where
  "last_index_of c s = map_option (\<lambda>i. length s - Suc i) (index_of c (rev s))"

text \<open>\<open>net.SplitHostPort\<close>; \<open>None\<close> is its error.\<close>

definition SplitHostPort :: "string \<Rightarrow> (string \<times> string) option" where
  "SplitHostPort hp =
     (case last_index_of (CHR '':'') hp of
        None \<Rightarrow> None
      | Some i \<Rightarrow>
          if hp ! 0 = CHR ''['' then
            (case index_of (CHR '']'') hp of
               None \<Rightarrow> None
             | Some e \<Rightarrow>
                 if e + 1 \<noteq> i then None
                 else if CHR ''['' \<in> set (drop 1 hp) \<or> CHR '']'' \<in> set (drop (e + 1) hp) then None
                 else Some (take (e - 1) (drop 1 hp), drop (i + 1) hp))
          else if CHR '':'' \<in> set (take i hp) then None
          else if CHR ''['' \<in> set hp \<or> CHR '']'' \<in> set hp then None
          else Some (take i hp, drop (i + 1) hp))"

definition HostFromRemoteAddr :: "string \<Rightarrow> string" where
  "HostFromRemoteAddr remoteAddr =
     (case SplitHostPort remoteAddr of None \<Rightarrow> remoteAddr | Some (host, _) \<Rightarrow> host)"

section \<open>Properties\<close>

definition ascii :: "string \<Rightarrow> bool" where
  "ascii s \<longleftrightarrow> (\<forall>c \<in> set s. code c < 128)"

lemma code_inj [simp]: "code a = code b \<longleftrightarrow> a = b"
  by (simp add: code_def)

lemma code_byte: "n < 256 \<Longrightarrow> code (byte n) = n"
  by (simp add: code_def byte_def)

lemma ToUpper_lower_char:
  assumes "code a < 128" and "code b < 128"
  shows "ToUpper (code a) = ToUpper (code b) \<longleftrightarrow> lower_char a = lower_char b"
proof -
  have low: "code (lower_char c) = (if 65 \<le> code c \<and> code c \<le> 90 then code c + 32 else code c)"
    if "code c < 128" for c
    using that by (simp add: lower_char_def code_byte)
  have "lower_char a = lower_char b \<longleftrightarrow> code (lower_char a) = code (lower_char b)"
    by simp
  also have "\<dots> \<longleftrightarrow> ToUpper (code a) = ToUpper (code b)"
    unfolding low [OF assms(1)] low [OF assms(2)] using assms by (auto simp: ToUpper_def simp del: code_inj)
  finally show ?thesis by simp
qed

lemma DecodeRune_ascii: "code c < 128 \<Longrightarrow> DecodeRune (c # cs) = (code c, 1)"
  by simp

lemma starts_loop_ascii:
  "ascii h \<Longrightarrow> ascii n \<Longrightarrow> starts_loop h n \<longleftrightarrow> prefix (to_lower n) (to_lower h)"
proof (induction n arbitrary: h)
  case Nil
  then show ?case by (simp add: to_lower_def)
next
  case (Cons c n)
  show ?case
  proof (cases h)
    case Nil
    then show ?thesis by (simp add: to_lower_def)
  next
    case (Cons d t)
    have "code d < 128" "code c < 128" "ascii t" "ascii n"
      using Cons.prems Cons by (auto simp: ascii_def)
    then show ?thesis
      using Cons.IH [of t] Cons ToUpper_lower_char [of d c] DecodeRune_ascii [of d t]
      by (auto simp: to_lower_def rune_error_def simp del: DecodeRune.simps)
  qed
qed

lemma startsWithIgnoreCase_ascii:
  "ascii h \<Longrightarrow> ascii n \<Longrightarrow> startsWithIgnoreCase h n \<longleftrightarrow> prefix (to_lower n) (to_lower h)"
  using prefix_length_le [of "to_lower n" "to_lower h"]
  by (auto simp: startsWithIgnoreCase_def starts_loop_ascii to_lower_def)

lemma str_contains_length: "str_contains h n \<Longrightarrow> length n \<le> length h"
  by (auto simp: str_contains_iff)

lemma containsIgnoreCase_ascii:
  "ascii h \<Longrightarrow> ascii n \<Longrightarrow> containsIgnoreCase h n \<longleftrightarrow> str_contains (to_lower h) (to_lower n)"
proof (induction h)
  case Nil
  then show ?case
    by (subst containsIgnoreCase.simps)
      (auto simp: to_lower_def startsWithIgnoreCase_def rune_error_def)
next
  case (Cons c h)
  have c: "code c < 128" "ascii h" using Cons.prems by (auto simp: ascii_def)
  have "containsIgnoreCase (c # h) n \<longleftrightarrow>
      \<not> length (c # h) < length n \<and> (startsWithIgnoreCase (c # h) n \<or> containsIgnoreCase h n)"
    using c DecodeRune_ascii [of c h]
    by (subst containsIgnoreCase.simps) (auto simp: rune_error_def simp del: DecodeRune.simps)
  also have "\<dots> \<longleftrightarrow> \<not> length (c # h) < length n \<and>
      (prefix (to_lower n) (to_lower (c # h)) \<or> str_contains (to_lower h) (to_lower n))"
    using Cons c by (simp add: startsWithIgnoreCase_ascii)
  also have "\<dots> \<longleftrightarrow> str_contains (to_lower (c # h)) (to_lower n)"
    using str_contains_length [of "to_lower (c # h)" "to_lower n"] by (auto simp: to_lower_def)
  finally show ?case .
qed

text \<open>
  The hand-written search that decides whether an error text mentions a limit or a rate is,
  on ASCII text, substring search that ignores the case of letters.
\<close>

theorem containsIgnoreCase_is_substring_search:
  assumes "ascii haystack" and "ascii needle"
  shows "containsIgnoreCase haystack needle \<longleftrightarrow> (\<exists>u v. to_lower haystack = u @ to_lower needle @ v)"
  using containsIgnoreCase_ascii [OF assms] by (simp add: str_contains_iff)

theorem containsIgnoreCase_is_substring_search_witness:
  "containsIgnoreCase ''Daily Request Limit'' ''limit'' \<longleftrightarrow>
     (\<exists>u v. to_lower ''Daily Request Limit'' = u @ to_lower ''limit'' @ v)"
  by (rule containsIgnoreCase_is_substring_search) (simp_all add: ascii_def code_def)

text \<open>
  The method check passes a request on exactly when its method has at most 256 bytes and does
  not contain \<open>_internal\<close>; otherwise it answers with an invalid-request error and leaves the
  state alone.
\<close>

theorem method_validation_decides:
  "MethodValidationMiddleware next r s =
     (if length (rq_Method r) \<le> 256 \<and> \<not> (\<exists>u v. rq_Method r = u @ ''_internal'' @ v) then next r s
      else (send_err (NewInvalidRequestError
              (if length (rq_Method r) \<le> 256 then ''method not allowed'' else ''method name too long'')), s))"
  by (simp add: MethodValidationMiddleware_def str_contains_iff)

end
