(* ===== verification/Venn_Backer.thy ===== *)
theory Venn_Backer
  imports Venn_Util
begin

text \<open>
  \<open>lib/callcenter/backer.go\<close>: the backoff of one remote. The timer is modelled by the delay it
  was last armed with; its callback is the operation \<open>Backer_fire\<close>, which may run at any
  moment while the timer is armed.
\<close>

record Backer =
  bk_rateLimitTimeout :: int
  bk_errorMinTimeout :: int
  bk_errorMaxTimeout :: int
  bk_timer :: "int option"
  bk_happy :: bool
  bk_timeout :: int

definition NewBacker :: "int \<Rightarrow> int \<Rightarrow> int \<Rightarrow> Backer" where
  "NewBacker rateLimitTimeout errorMinTimeout errorMaxTimeout =
     \<lparr>bk_rateLimitTimeout = rateLimitTimeout, bk_errorMinTimeout = errorMinTimeout,
      bk_errorMaxTimeout = errorMaxTimeout, bk_timer = Some 0, bk_happy = True,
      bk_timeout = errorMinTimeout\<rparr>"

definition Backer_fire :: "Backer \<Rightarrow> Backer" where
  "Backer_fire b = b\<lparr>bk_happy := True, bk_timer := None\<rparr>"

definition Backer_ok :: "Backer \<Rightarrow> Backer" where
  "Backer_ok b =
     (if \<not> bk_happy b then b
      else b\<lparr>bk_timeout := min (bk_errorMinTimeout b) (godiv (bk_timeout b) 2)\<rparr>)"

definition Backer_limit :: "Backer \<Rightarrow> Backer" where
  "Backer_limit b =
     (if \<not> bk_happy b then b
      else b\<lparr>bk_happy := False, bk_timer := Some (bk_rateLimitTimeout b)\<rparr>)"

definition Backer_error :: "Backer \<Rightarrow> Backer" where
  "Backer_error b =
     (if \<not> bk_happy b then b
      else let t = max (bk_errorMaxTimeout b) (wrap64 (bk_timeout b * 2)) in
        b\<lparr>bk_timeout := t, bk_happy := False, bk_timer := Some t\<rparr>)"

text \<open>What the middleware does with the error of the intercepted call.\<close>

definition Backer_react :: "gerror option \<Rightarrow> Backer \<Rightarrow> Backer" where
  "Backer_react err b =
     (if err \<noteq> None then
        (if IsUserError err then Backer_ok b
         else if IsTimeoutError err then Backer_limit b
         else if IsNodeError err then Backer_error b
         else Backer_ok b)
      else Backer_ok b)"

definition backoff_error :: gerror where
  "backoff_error = NewInternalError ''remote is unhealthy (backoff active)''"

definition Backer_Middleware :: "('s, Backer) cell \<Rightarrow> 's middleware" where
  "Backer_Middleware c next = (\<lambda>r s.
     if \<not> bk_happy (rd c s) then (send_err backoff_error, s)
     else with_icept next r s (\<lambda>ic s'. (send_icept ic, upd c (Backer_react (ic_Error ic)) s')))"

lemmas backer_defs = Backer_fire_def Backer_ok_def Backer_limit_def Backer_error_def Let_def

section \<open>Steps\<close>

inductive backer_step :: "Backer \<Rightarrow> Backer \<Rightarrow> bool" where
  step_ok: "backer_step b (Backer_ok b)"
| step_limit: "backer_step b (Backer_limit b)"
| step_error: "backer_step b (Backer_error b)"
| step_fire: "bk_timer b \<noteq> None \<Longrightarrow> backer_step b (Backer_fire b)"

inductive backer_reachable :: "int \<Rightarrow> int \<Rightarrow> int \<Rightarrow> Backer \<Rightarrow> bool" for rl mn mx where
  reach_new: "backer_reachable rl mn mx (NewBacker rl mn mx)"
| reach_step: "backer_reachable rl mn mx b \<Longrightarrow> backer_step b b' \<Longrightarrow> backer_reachable rl mn mx b'"

inductive_simps backer_step_simps: "backer_step b b'"

definition backer_inv :: "int \<Rightarrow> int \<Rightarrow> int \<Rightarrow> Backer \<Rightarrow> bool" where
  "backer_inv rl mn mx b \<longleftrightarrow>
     bk_rateLimitTimeout b = rl \<and> bk_errorMinTimeout b = mn \<and> bk_errorMaxTimeout b = mx \<and>
     (\<not> bk_happy b \<longrightarrow> (\<exists>d. bk_timer b = Some d \<and> (d = rl \<or> mx \<le> d)))"

lemma backer_step_inv: "backer_step b b' \<Longrightarrow> backer_inv rl mn mx b \<Longrightarrow> backer_inv rl mn mx b'"
  by (auto simp: backer_step_simps backer_inv_def backer_defs)

lemma backer_reachable_inv: "backer_reachable rl mn mx b \<Longrightarrow> backer_inv rl mn mx b"
proof (induction rule: backer_reachable.induct)
  case reach_new
  show ?case by (simp add: backer_inv_def NewBacker_def)
next
  case (reach_step b b')
  then show ?case by (blast intro: backer_step_inv)
qed

section \<open>Properties\<close>

text \<open>
  C17: A remote that is backing off always recovers: in every reachable state in which it refuses
  requests its timer is armed, either with the rate limit delay or with a delay that is at least
  the configured maximum, and the callback of the timer makes it usable again.
\<close>

theorem backer_recovers:
  assumes "backer_reachable rl mn mx b" and "\<not> bk_happy b"
  shows "\<exists>d. bk_timer b = Some d \<and> (d = rl \<or> mx \<le> d) \<and> bk_happy (Backer_fire b)"
  using backer_reachable_inv [OF assms(1)] assms(2) by (auto simp: backer_inv_def Backer_fire_def)

theorem backer_recovers_witness:
  "\<exists>d. bk_timer (Backer_limit (NewBacker 5 1 60)) = Some d \<and> (d = 5 \<or> 60 \<le> d) \<and>
       bk_happy (Backer_fire (Backer_limit (NewBacker 5 1 60)))"
proof (rule backer_recovers)
  show "backer_reachable 5 1 60 (Backer_limit (NewBacker 5 1 60))"
    by (rule reach_step [OF reach_new step_limit])
  show "\<not> bk_happy (Backer_limit (NewBacker 5 1 60))"
    by (simp add: Backer_limit_def NewBacker_def)
qed

text \<open>
  The configured bounds of the error backoff are exchanged. With a minimum below the maximum,
  the second consecutive node error already waits twice as long as the maximum, and one success
  takes the next base delay below the minimum.
\<close>

theorem backer_bounds_exchanged:
  assumes "1 < mn" and "mn \<le> mx" and "mx < 2 ^ 60"
  shows "bk_timer (Backer_error (Backer_fire (Backer_error (Backer_fire (NewBacker rl mn mx))))) =
           Some (2 * max mx (2 * mn)) \<and>
         mx < 2 * max mx (2 * mn) \<and>
         bk_timeout (Backer_ok (NewBacker rl mn mx)) < mn"
proof -
  have w: "wrap64 (mn * 2) = mn * 2" "wrap64 (max mx (mn * 2) * 2) = max mx (mn * 2) * 2"
    using assms by (auto simp: in_i64_def max_def)
  have "bk_timer (Backer_error (Backer_fire (Backer_error (Backer_fire (NewBacker rl mn mx))))) =
           Some (2 * max mx (2 * mn))"
    using assms w by (simp add: backer_defs NewBacker_def mult.commute)
  moreover have "mx < 2 * max mx (2 * mn)" using assms by (simp add: max_def)
  moreover have "bk_timeout (Backer_ok (NewBacker rl mn mx)) < mn"
    using assms by (simp add: backer_defs NewBacker_def godiv_pos)
  ultimately show ?thesis by blast
qed

theorem backer_bounds_exchanged_witness:
  "bk_timer (Backer_error (Backer_fire (Backer_error (Backer_fire (NewBacker 5 10 60))))) = Some 120"
  using backer_bounds_exchanged [of 10 60 5] by simp

text \<open>
  While the remote is backing off a request is answered with an internal error and the remote
  is not called. Otherwise the remote is called, the client gets the last thing it sent, and the
  backoff is updated from the error of that call only.
\<close>

theorem backer_middleware_gates:
  assumes "mem_cell c" and "next r s = (Sends xs, s')"
  shows "if bk_happy (rd c s)
         then fst (Backer_Middleware c next r s) = send_icept (icept_of xs) \<and>
              rd c (snd (Backer_Middleware c next r s)) = Backer_react (ic_Error (icept_of xs)) (rd c s')
         else Backer_Middleware c next r s = (send_err backoff_error, s)"
  using assms by (simp add: Backer_Middleware_def with_icept_eq mem_cell.rd_upd)

theorem backer_middleware_gates_witness:
  "fst (Backer_Middleware own_cell
          (\<lambda>r s. (Sends [(AString ''0x1'', None)], s)) (NewRequest Background ''eth_gasPrice'' (JArr []))
          (NewBacker 5 10 60)) =
   send_icept \<lparr>ic_Result = AString ''0x1'', ic_Error = None\<rparr>"
  using backer_middleware_gates [OF own_cell_ok, of "\<lambda>r s. (Sends [(AString ''0x1'', None)], s)"
      "NewRequest Background ''eth_gasPrice'' (JArr [])" "NewBacker 5 10 60"]
  by (simp add: NewBacker_def own_cell_def)

end
