(* ===== verification/Venn_Doctor.thy ===== *)
theory Venn_Doctor
  imports Venn_Util
begin

text \<open>
  \<open>lib/callcenter/doctor.go\<close>: the health checks of one remote. The timer is modelled by the
  moment at which it is due. The Prometheus values the doctor writes are fields of the state. A
  request that finds the state unknown waits for the first check, which its model runs first.
\<close>

datatype HealthStatus = HealthStatusUnknown | HealthStatusHealthy | HealthStatusUnhealthy

record Doctor =
  dr_chainId :: int
  dr_chainName :: string
  dr_remoteName :: string
  dr_minInterval :: int
  dr_maxInterval :: int
  dr_due :: int
  dr_health :: HealthStatus
  dr_interval :: int
  dr_latencies :: "int list"
  dr_lastError :: string
  dr_statusGauge :: "int option"
  dr_failures :: nat
  dr_lastSuccess :: "int option"

definition NewDoctor :: "int \<Rightarrow> string \<Rightarrow> string \<Rightarrow> int \<Rightarrow> int \<Rightarrow> Doctor" where
  "NewDoctor chainId chainName remoteName minInterval maxInterval =
     \<lparr>dr_chainId = chainId, dr_chainName = chainName, dr_remoteName = remoteName,
      dr_minInterval = minInterval, dr_maxInterval = maxInterval, dr_due = 0,
      dr_health = HealthStatusUnknown, dr_interval = minInterval, dr_latencies = [],
      dr_lastError = [], dr_statusGauge = None, dr_failures = 0, dr_lastSuccess = None\<rparr>"

text \<open>\<open>Middleware\<close> creates the timer with the minimal interval.\<close>

definition Doctor_start :: "int \<Rightarrow> Doctor \<Rightarrow> Doctor" where
  "Doctor_start now d = d\<lparr>dr_due := now + dr_minInterval d\<rparr>"

text \<open>The branch for a failed \<open>eth_blockNumber\<close>.\<close>

definition Doctor_fail_blockNumber :: "int \<Rightarrow> gerror \<Rightarrow> Doctor \<Rightarrow> Doctor" where
  "Doctor_fail_blockNumber now err d =
     d\<lparr>dr_health := HealthStatusUnhealthy, dr_lastError := error_text err,
       dr_interval := dr_minInterval d, dr_due := now + dr_minInterval d,
       dr_failures := dr_failures d + 1, dr_statusGauge := Some (- 1)\<rparr>"

text \<open>The branches after \<open>eth_chainId\<close>: the latency is always recorded.\<close>

definition Doctor_fail_chainId :: "int \<Rightarrow> int \<Rightarrow> string \<Rightarrow> Doctor \<Rightarrow> Doctor" where
  "Doctor_fail_chainId now latency msg d =
     d\<lparr>dr_latencies := dr_latencies d @ [latency], dr_lastError := msg,
       dr_health := HealthStatusUnhealthy, dr_interval := dr_minInterval d,
       dr_due := now + dr_minInterval d, dr_failures := dr_failures d + 1,
       dr_statusGauge := Some 0\<rparr>"

definition Doctor_succeed :: "int \<Rightarrow> int \<Rightarrow> Doctor \<Rightarrow> Doctor" where
  "Doctor_succeed now latency d =
     (let interval = min (dr_maxInterval d) (wrap64 (dr_interval d * 2)) in
      d\<lparr>dr_latencies := dr_latencies d @ [latency], dr_health := HealthStatusHealthy,
        dr_lastError := [], dr_interval := interval, dr_due := now + interval,
        dr_statusGauge := Some 1, dr_lastSuccess := Some now\<rparr>)"

definition mismatch_text :: "int \<Rightarrow> int \<Rightarrow> string" where
  "mismatch_text expected got =
     ''chain ID mismatch: expected '' @ Itoa expected @ '', got '' @ Itoa got"

definition Doctor_chainId :: "int \<Rightarrow> int \<Rightarrow> u64 outcome \<Rightarrow> Doctor \<Rightarrow> Doctor" where
  "Doctor_chainId now latency res d =
     (case res of
        Err err \<Rightarrow> Doctor_fail_chainId now latency (error_text err) d
      | Panic m \<Rightarrow> d
      | Ok chainId \<Rightarrow>
          if u64_to_i64 chainId \<noteq> dr_chainId d
          then Doctor_fail_chainId now latency (mismatch_text (dr_chainId d) (u64_to_i64 chainId)) d
          else Doctor_succeed now latency d)"

text \<open>
  \<open>check\<close>: the two calls to the remote, with \<open>clk\<close> the wall clock of the process. Both calls carry the
  deadline of the check.
\<close>

definition check_ctx :: "int \<Rightarrow> ctx" where
  "check_ctx now = WithTimeout now (15 * Second) Background"

definition Doctor_check :: "codec \<Rightarrow> ('s \<Rightarrow> int) \<Rightarrow> ('s, Doctor) cell \<Rightarrow> 's handler \<Rightarrow> 's \<Rightarrow> unit outcome \<times> 's" where
  "Doctor_check cdc clk c remote s =
     (case Do_into (dec_Uint64 cdc) cdc (check_ctx (clk s)) remote ''eth_blockNumber'' (JArr []) s of
        (Panic m, s1) \<Rightarrow> (Panic m, s1)
      | (Err err, s1) \<Rightarrow> (Ok (), upd c (Doctor_fail_blockNumber (clk s1) err) s1)
      | (Ok _, s1) \<Rightarrow>
          (case Do_into (dec_Uint64 cdc) cdc (check_ctx (clk s)) remote ''eth_chainId'' (JArr []) s1 of
             (Panic m, s2) \<Rightarrow> (Panic m, s2)
           | (res, s2) \<Rightarrow> (Ok (), upd c (Doctor_chainId (clk s2) (clk s2 - clk s) res) s2)))"

text \<open>\<open>CanUse\<close>: \<open>None\<close> when it has to wait for the first check.\<close>

definition Doctor_CanUse :: "int \<Rightarrow> Doctor \<Rightarrow> (bool \<times> Doctor) option" where
  "Doctor_CanUse now d =
     (case dr_health d of
        HealthStatusHealthy \<Rightarrow>
          Some (True, d\<lparr>dr_interval := dr_minInterval d, dr_due := now + dr_minInterval d\<rparr>)
      | HealthStatusUnhealthy \<Rightarrow> Some (False, d)
      | HealthStatusUnknown \<Rightarrow> None)"

definition Doctor_unhealthy_error :: "Doctor \<Rightarrow> gerror" where
  "Doctor_unhealthy_error d = NewInternalError
     (''remote '' @ CHR 0x27 # dr_remoteName d @ CHR 0x27 # '' on chain '' @ CHR 0x27 # dr_chainName d @
      CHR 0x27 # '' is unhealthy'')"

definition Doctor_serve :: "('s \<Rightarrow> int) \<Rightarrow> ('s, Doctor) cell \<Rightarrow> 's middleware" where
  "Doctor_serve clk c remote = (\<lambda>r s.
     case Doctor_CanUse (clk s) (rd c s) of
       None \<Rightarrow> (Crash ''waits for the first check'', s)
     | Some (False, d) \<Rightarrow> (send_err (Doctor_unhealthy_error d), wr c d s)
     | Some (True, d) \<Rightarrow> remote r (wr c d s))"

definition Doctor_ServeRPC :: "codec \<Rightarrow> ('s \<Rightarrow> int) \<Rightarrow> ('s, Doctor) cell \<Rightarrow> 's middleware" where
  "Doctor_ServeRPC cdc clk c remote = (\<lambda>r s.
     if dr_health (rd c s) = HealthStatusUnknown
     then (case Doctor_check cdc clk c remote s of
             (Panic m, s') \<Rightarrow> (Crash m, s')
           | (_, s') \<Rightarrow> Doctor_serve clk c remote r s')
     else Doctor_serve clk c remote r s)"

text \<open>
  The goroutine that checks: \<open>events\<close> are the outcomes of its select, \<open>True\<close> when the timer fires and
  \<open>False\<close> when the context has ended. The result says whether it has returned.
\<close>

fun Doctor_loop :: "('s \<Rightarrow> unit outcome \<times> 's) \<Rightarrow> bool list \<Rightarrow> 's \<Rightarrow> bool outcome \<times> 's" where
  "Doctor_loop check [] s = (Ok False, s)"
| "Doctor_loop check (False # events) s = (Ok True, s)"
| "Doctor_loop check (True # events) s =
     (case check s of
        (Panic m, s1) \<Rightarrow> (Panic m, s1)
      | (_, s1) \<Rightarrow> Doctor_loop check events s1)"

text \<open>\<open>Close\<close> with whether the context has ended.\<close>

definition Doctor_Close :: "bool \<Rightarrow> gerror option \<times> bool" where
  "Doctor_Close ended = (if ended then (Some (ErrorText ''use of closed network connection''), ended) else (None, True))"

definition Doctor_GetLastError :: "Doctor \<Rightarrow> string" where
  "Doctor_GetLastError d = dr_lastError d"

definition Doctor_GetHealthStatus :: "Doctor \<Rightarrow> HealthStatus" where
  "Doctor_GetHealthStatus d = dr_health d"

text \<open>
  Average, minimum, maximum and number of the latencies of the checks that are still in the window;
  \<open>win\<close> gives those of all recorded latencies that the window holds, and sums are exact.
\<close>

definition Doctor_GetLatencyStats :: "(int list \<Rightarrow> int list) \<Rightarrow> Doctor \<Rightarrow> int \<times> int \<times> int \<times> nat" where
  "Doctor_GetLatencyStats win d =
     (let w = win (dr_latencies d) in
      if length w = 0 then (0, 0, 0, 0) else (godiv (sum_list w) (int (length w)), Min (set w), Max (set w), length w))"

lemmas doctor_defs = Doctor_fail_blockNumber_def Doctor_fail_chainId_def Doctor_succeed_def
  Doctor_chainId_def Doctor_CanUse_def Let_def

section \<open>Steps\<close>

inductive doctor_step :: "Doctor \<Rightarrow> Doctor \<Rightarrow> bool" where
  check_blockNumber: "doctor_step d (Doctor_fail_blockNumber now err d)"
| check_chainId: "(\<And>m. res \<noteq> Panic m) \<Longrightarrow> doctor_step d (Doctor_chainId now latency res d)"
| use: "Doctor_CanUse now d = Some (b, d') \<Longrightarrow> doctor_step d d'"

inductive doctor_reachable :: "Doctor \<Rightarrow> Doctor \<Rightarrow> bool" for d0 where
  doctor_refl: "doctor_reachable d0 d0"
| doctor_trans: "doctor_reachable d0 d \<Longrightarrow> doctor_step d d' \<Longrightarrow> doctor_reachable d0 d'"

inductive_simps doctor_step_simps: "doctor_step d d'"

definition doctor_inv :: "int \<Rightarrow> int \<Rightarrow> Doctor \<Rightarrow> bool" where
  "doctor_inv mn mx d \<longleftrightarrow>
     dr_minInterval d = mn \<and> dr_maxInterval d = mx \<and> mn \<le> dr_interval d \<and> dr_interval d \<le> mx \<and>
     (dr_health d = HealthStatusHealthy \<longrightarrow> dr_lastError d = [] \<and> dr_statusGauge d = Some 1) \<and>
     (dr_health d = HealthStatusUnhealthy \<longrightarrow> dr_interval d = mn \<and> 0 < dr_failures d)"

lemma double_no_wrap: "0 \<le> i \<Longrightarrow> i < 2 ^ 62 \<Longrightarrow> wrap64 (i * 2) = i * 2"
  by (simp add: in_i64_def)

lemma doctor_succeed_inv:
  assumes "0 \<le> mn" and "mn \<le> mx" and "mx < 2 ^ 62" and "doctor_inv mn mx d"
  shows "doctor_inv mn mx (Doctor_succeed now latency d)"
proof -
  have "wrap64 (dr_interval d * 2) = dr_interval d * 2"
    using assms by (intro double_no_wrap) (auto simp: doctor_inv_def)
  then show ?thesis
    using assms by (auto simp: doctor_inv_def Doctor_succeed_def Let_def)
qed

lemma doctor_step_inv:
  assumes "0 \<le> mn" and "mn \<le> mx" and "mx < 2 ^ 62"
  shows "doctor_step d d' \<Longrightarrow> doctor_inv mn mx d \<Longrightarrow> doctor_inv mn mx d'"
proof (induction rule: doctor_step.induct)
  case (check_blockNumber d now err)
  then show ?case using assms by (simp add: doctor_inv_def Doctor_fail_blockNumber_def)
next
  case (check_chainId res d now latency)
  then show ?case
    using assms doctor_succeed_inv [OF assms]
    by (auto simp: Doctor_chainId_def doctor_inv_def Doctor_fail_chainId_def split: outcome.splits)
next
  case (use now d b d')
  then show ?case
    using assms by (auto simp: Doctor_CanUse_def doctor_inv_def split: HealthStatus.splits)
qed

lemma doctor_reachable_inv:
  assumes "0 \<le> mn" and "mn \<le> mx" and "mx < 2 ^ 62"
  shows "doctor_reachable d0 d \<Longrightarrow> doctor_inv mn mx d0 \<Longrightarrow> doctor_inv mn mx d"
  by (induction rule: doctor_reachable.induct) (auto intro: doctor_step_inv [OF assms])

section \<open>Checks and requests\<close>

lemma Doctor_chainId_health:
  "(\<And>m. res \<noteq> Panic m) \<Longrightarrow>
   dr_health (Doctor_chainId now latency res d) =
     (if \<exists>w. res = Ok w \<and> u64_to_i64 w = dr_chainId d then HealthStatusHealthy else HealthStatusUnhealthy)"
  by (cases res) (auto simp: doctor_defs)

lemma Doctor_check_health:
  assumes c: "mem_cell c" and k: "keeps_cell c remote"
    and chk: "Doctor_check cdc clk c remote s = (Ok (), s')"
  shows "dr_health (rd c s') =
     (if \<exists>n s1 w s2. Do_into (dec_Uint64 cdc) cdc (check_ctx (clk s)) remote ''eth_blockNumber'' (JArr []) s = (Ok n, s1) \<and>
                    Do_into (dec_Uint64 cdc) cdc (check_ctx (clk s)) remote ''eth_chainId'' (JArr []) s1 = (Ok w, s2) \<and>
                    u64_to_i64 w = dr_chainId (rd c s)
      then HealthStatusHealthy else HealthStatusUnhealthy)"
proof -
  note up = mem_cell.rd_upd [OF c]
  obtain o1 s1 where d1: "Do_into (dec_Uint64 cdc) cdc (check_ctx (clk s)) remote ''eth_blockNumber'' (JArr []) s = (o1, s1)"
    by fastforce
  show ?thesis
  proof (cases o1)
    case (Ok n)
    obtain o2 s2 where d2: "Do_into (dec_Uint64 cdc) cdc (check_ctx (clk s)) remote ''eth_chainId'' (JArr []) s1 = (o2, s2)"
      by fastforce
    have "rd c s2 = rd c s" using Do_into_keeps [OF k d1] Do_into_keeps [OF k d2] by simp
    moreover have "o2 \<noteq> Panic m" for m
      using chk d1 d2 Ok by (auto simp: Doctor_check_def)
    ultimately show ?thesis
      using chk d1 d2 Ok Doctor_chainId_health [of o2 "clk s2" "clk s2 - clk s" "rd c s"]
      by (cases o2) (auto simp: Doctor_check_def up)
  next
    case (Err e)
    then show ?thesis using chk d1 by (auto simp: Doctor_check_def up doctor_defs)
  next
    case (Panic m)
    then show ?thesis using chk d1 by (auto simp: Doctor_check_def)
  qed
qed

text \<open>Whatever the checks find, the loop takes the doctor through steps only.\<close>

lemma Doctor_check_reachable:
  assumes c: "mem_cell c" and k: "keeps_cell c remote" and chk: "Doctor_check cdc clk c remote s = (Ok (), s')"
    and d: "doctor_reachable d0 (rd c s)"
  shows "doctor_reachable d0 (rd c s')"
proof -
  note up = mem_cell.rd_upd [OF c]
  obtain o1 s1 where d1: "Do_into (dec_Uint64 cdc) cdc (check_ctx (clk s)) remote ''eth_blockNumber'' (JArr []) s = (o1, s1)" by fastforce
  obtain o2 s2 where d2: "Do_into (dec_Uint64 cdc) cdc (check_ctx (clk s)) remote ''eth_chainId'' (JArr []) s1 = (o2, s2)" by fastforce
  have s1: "rd c s1 = rd c s" and s2: "rd c s2 = rd c s" using Do_into_keeps [OF k d1] Do_into_keeps [OF k d2] by simp_all
  show ?thesis
  proof (cases o1)
    case (Ok n)
    then have "o2 \<noteq> Panic m" for m using chk d1 d2 by (auto simp: Doctor_check_def)
    moreover have "rd c s' = Doctor_chainId (clk s2) (clk s2 - clk s) o2 (rd c s)"
      using chk d1 d2 Ok s2 by (cases o2) (auto simp: Doctor_check_def up)
    ultimately show ?thesis using doctor_trans [OF d check_chainId] by metis
  next
    case (Err e)
    then have "rd c s' = Doctor_fail_blockNumber (clk s1) e (rd c s)" using chk d1 s1 by (auto simp: Doctor_check_def up)
    then show ?thesis using doctor_trans [OF d check_blockNumber] by metis
  next
    case (Panic m)
    then show ?thesis using chk d1 by (auto simp: Doctor_check_def)
  qed
qed

lemma Doctor_loop_reachable:
  assumes "mem_cell c" and "keeps_cell c remote"
  shows "Doctor_loop (Doctor_check cdc clk c remote) events s = (Ok b, s') \<Longrightarrow> doctor_reachable d0 (rd c s) \<Longrightarrow> doctor_reachable d0 (rd c s')"
proof (induction "Doctor_check cdc clk c remote" events s rule: Doctor_loop.induct)
  case (3 events s)
  obtain x s1 where x: "Doctor_check cdc clk c remote s = (x, s1)" by fastforce
  have "\<exists>m. x = Panic m" if "x \<noteq> Ok ()"
    using x that by (auto simp: Doctor_check_def split: prod.splits outcome.splits)
  then have "x = Ok ()" using "3.prems"(1) x by fastforce
  then show ?case using 3 x Doctor_check_reachable [OF assms, of cdc clk s s1 d0] by simp
qed simp_all

text \<open>Requests at the moments \<open>ts\<close>, each of which asks \<open>CanUse\<close>.\<close>

fun use_all :: "Doctor \<Rightarrow> int list \<Rightarrow> Doctor" where
  "use_all d [] = d"
| "use_all d (t # ts) =
     (case Doctor_CanUse t d of Some (_, d') \<Rightarrow> use_all d' ts | None \<Rightarrow> d)"

lemma use_all_append: "dr_health d = HealthStatusHealthy \<Longrightarrow> use_all d (ts @ us) = use_all (use_all d ts) us"
  by (induction ts arbitrary: d) (auto simp: Doctor_CanUse_def)

lemma use_all_healthy:
  "dr_health d = HealthStatusHealthy \<Longrightarrow>
   dr_health (use_all d ts) = HealthStatusHealthy \<and> dr_minInterval (use_all d ts) = dr_minInterval d"
  by (induction ts arbitrary: d) (auto simp: Doctor_CanUse_def)

lemma use_all_due:
  "dr_health d = HealthStatusHealthy \<Longrightarrow> dr_due (use_all d (ts @ [t])) = t + dr_minInterval d"
  using use_all_healthy [of d ts] by (simp add: use_all_append Doctor_CanUse_def)

section \<open>Properties\<close>

text \<open>
  C15: In every state a doctor can reach, the interval of its checks lies between the configured
  bounds, an unhealthy remote is checked at the minimal interval, and a healthy one has no last
  error and the status gauge 1.
\<close>

theorem doctor_invariant:
  assumes "0 \<le> mn" and "mn \<le> mx" and "mx < 2 ^ 62"
    and "doctor_reachable (Doctor_start now (NewDoctor chainId chainName remoteName mn mx)) d"
  shows "mn \<le> dr_interval d \<and> dr_interval d \<le> mx \<and>
     (dr_health d = HealthStatusHealthy \<longrightarrow> dr_lastError d = [] \<and> dr_statusGauge d = Some 1) \<and>
     (dr_health d = HealthStatusUnhealthy \<longrightarrow> dr_interval d = mn \<and> 0 < dr_failures d)"
proof -
  have "doctor_inv mn mx (Doctor_start now (NewDoctor chainId chainName remoteName mn mx))"
    using assms(2) by (simp add: doctor_inv_def Doctor_start_def NewDoctor_def)
  from doctor_reachable_inv [OF assms(1,2,3,4) this] show ?thesis
    by (simp add: doctor_inv_def)
qed

theorem doctor_invariant_witness:
  "let d = Doctor_succeed 7 1 (Doctor_start 0 (NewDoctor 1 ''eth'' ''a'' 60 3600)) in
   60 \<le> dr_interval d \<and> dr_interval d \<le> 3600"
proof -
  have "doctor_step d (Doctor_chainId 7 1 (Ok 1) d)" for d
    by (rule check_chainId) simp
  moreover have "Doctor_chainId 7 1 (Ok 1) (Doctor_start 0 (NewDoctor 1 ''eth'' ''a'' 60 3600)) =
      Doctor_succeed 7 1 (Doctor_start 0 (NewDoctor 1 ''eth'' ''a'' 60 3600))"
    by (simp add: Doctor_chainId_def Doctor_start_def NewDoctor_def u64_to_i64_def in_i64_def)
  ultimately have "doctor_reachable (Doctor_start 0 (NewDoctor 1 ''eth'' ''a'' 60 3600))
      (Doctor_succeed 7 1 (Doctor_start 0 (NewDoctor 1 ''eth'' ''a'' 60 3600)))"
    using doctor_trans [OF doctor_refl] by metis
  from doctor_invariant [OF _ _ _ this] show ?thesis
    by (simp add: Let_def)
qed

text \<open>
  C14: A check concludes that the remote is healthy exactly when the remote answered
  \<open>eth_blockNumber\<close> and \<open>eth_chainId\<close> without an error and reported the configured chain id; in
  every other case it concludes that the remote is unhealthy, and never leaves the state unknown.
\<close>

theorem doctor_check_decides:
  assumes "mem_cell c" and "keeps_cell c remote"
    and "Doctor_check cdc clk c remote s = (Ok (), s')"
  shows "dr_health (rd c s') =
     (if \<exists>n s1 w s2. Do_into (dec_Uint64 cdc) cdc (check_ctx (clk s)) remote ''eth_blockNumber'' (JArr []) s = (Ok n, s1) \<and>
                    Do_into (dec_Uint64 cdc) cdc (check_ctx (clk s)) remote ''eth_chainId'' (JArr []) s1 = (Ok w, s2) \<and>
                    u64_to_i64 w = dr_chainId (rd c s)
      then HealthStatusHealthy else HealthStatusUnhealthy)"
  using assms by (rule Doctor_check_health)

theorem doctor_check_decides_witness:
  "let remote = (\<lambda>r s. (Sends [(ANil, Some (ErrorText ''dial tcp''))], s)) in
   \<exists>s'. Doctor_check eth_codec (\<lambda>s. 0) own_cell remote (NewDoctor 1 ''eth'' ''a'' 60 3600) = (Ok (), s') \<and>
        dr_health s' = HealthStatusUnhealthy"
proof -
  let ?remote = "\<lambda>r s. (Sends [(ANil, Some (ErrorText ''dial tcp''))], s :: Doctor)"
  let ?s = "NewDoctor 1 ''eth'' ''a'' 60 3600"
  have k: "keeps_cell own_cell ?remote" by (simp add: keeps_cell_def)
  have d: "Do_into (dec_Uint64 eth_codec) eth_codec (check_ctx 0) ?remote ''eth_blockNumber'' (JArr []) ?s =
      (Err (ErrorText ''dial tcp''), ?s)"
    by (simp add: Do_into_def Do_def serve_icept_eq)
  then obtain s' where r: "Doctor_check eth_codec (\<lambda>s. 0) own_cell ?remote ?s = (Ok (), s')"
    by (simp add: Doctor_check_def)
  from doctor_check_decides [OF own_cell_ok k r] d r show ?thesis
    by (simp add: own_cell_def Let_def)
qed

text \<open>
  An unhealthy remote is not called: the request is answered with an internal error that names
  the remote. A healthy remote is called with the request, and the reply is its reply.
\<close>

theorem doctor_gates_requests:
  assumes "mem_cell c" and "dr_health (rd c s) \<noteq> HealthStatusUnknown"
  shows "Doctor_ServeRPC cdc clk c remote r s =
     (if dr_health (rd c s) = HealthStatusHealthy
      then remote r (upd c (\<lambda>d. d\<lparr>dr_interval := dr_minInterval d, dr_due := clk s + dr_minInterval d\<rparr>) s)
      else (send_err (Doctor_unhealthy_error (rd c s)), s))"
  using assms
  by (cases "dr_health (rd c s)")
    (auto simp: Doctor_ServeRPC_def Doctor_serve_def Doctor_CanUse_def upd_def mem_cell.wr_rd)

theorem doctor_gates_requests_witness:
  "Doctor_ServeRPC eth_codec (\<lambda>s. 0) own_cell (\<lambda>r s. (send_ok ANil, s))
     (NewRequest Background ''eth_call'' (JArr []))
     ((NewDoctor 1 ''eth'' ''a'' 60 3600)\<lparr>dr_health := HealthStatusUnhealthy\<rparr>) =
   (send_err (Doctor_unhealthy_error ((NewDoctor 1 ''eth'' ''a'' 60 3600)\<lparr>dr_health := HealthStatusUnhealthy\<rparr>)),
    (NewDoctor 1 ''eth'' ''a'' 60 3600)\<lparr>dr_health := HealthStatusUnhealthy\<rparr>)"
  by (subst doctor_gates_requests [OF own_cell_ok]) (simp_all add: own_cell_def)

text \<open>
  C16: A healthy remote that is used more often than its minimal check interval is never checked
  again: at the time of each request the timer that the previous request re-armed is not yet due.
\<close>

theorem doctor_checks_starve_under_load:
  assumes "dr_health d = HealthStatusHealthy"
    and "\<And>i. Suc i < length ts \<Longrightarrow> ts ! Suc i - ts ! i < dr_minInterval d"
    and "Suc i < length ts"
  shows "ts ! Suc i < dr_due (use_all d (take (Suc i) ts))"
proof -
  have "take (Suc i) ts = take i ts @ [ts ! i]"
    using assms(3) by (simp add: take_Suc_conv_app_nth)
  then have "dr_due (use_all d (take (Suc i) ts)) = ts ! i + dr_minInterval d"
    using use_all_due [OF assms(1)] by simp
  with assms(2) [OF assms(3)] show ?thesis by linarith
qed

theorem doctor_checks_starve_under_load_witness:
  "let d = (NewDoctor 1 ''eth'' ''a'' 60 3600)\<lparr>dr_health := HealthStatusHealthy\<rparr> in
   [100, 150, 200 :: int] ! Suc 1 < dr_due (use_all d (take (Suc 1) [100, 150, 200]))"
proof -
  let ?d = "(NewDoctor 1 ''eth'' ''a'' 60 3600)\<lparr>dr_health := HealthStatusHealthy\<rparr>"
  have "[100, 150, 200 :: int] ! Suc 1 < dr_due (use_all ?d (take (Suc 1) [100, 150, 200]))"
  proof (rule doctor_checks_starve_under_load)
    show "dr_health ?d = HealthStatusHealthy" by simp
    show "Suc i < length [100, 150, 200 :: int] \<Longrightarrow>
      [100, 150, 200 :: int] ! Suc i - [100, 150, 200] ! i < dr_minInterval ?d" for i
      by (cases i) (auto simp: NewDoctor_def less_Suc_eq)
    show "Suc 1 < length [100, 150, 200 :: int]" by simp
  qed
  then show ?thesis by (simp only: Let_def)
qed

end
