(* ===== verification/Venn_Validator.thy ===== *)
theory Venn_Validator
  imports Venn_Util
begin

text \<open>
  \<open>lib/callcenter/validator.go\<close>: the validation of what one remote returns. The validator keeps
  the highest head the remote has reported and when that block was made, refuses a head that
  moves backwards or that has not changed for too long, and turns null results into errors.
\<close>

record Validator =
  vd_old :: int
  vd_head :: u64
  vd_updated :: int

definition NewValidator :: "int \<Rightarrow> Validator" where
  "NewValidator old = \<lparr>vd_old = old, vd_head = 0, vd_updated = time_zero\<rparr>"

definition jumped_backwards :: "u64 \<Rightarrow> u64 \<Rightarrow> gerror" where
  "jumped_backwards old new =
     Wrapped (''head jumped backwards: '' @ show_nat (unat old) @ '' -> '' @ show_nat (unat new))
       (Sentinel ErrHeadJumpedBackwards)"

definition Validator_updateHead :: "int \<Rightarrow> u64 \<Rightarrow> int \<Rightarrow> Validator \<Rightarrow> gerror option \<times> Validator" where
  "Validator_updateHead now head updated v =
     (if head < vd_head v then (Some (jumped_backwards (vd_head v) head), v)
      else if vd_head v < head then (None, v\<lparr>vd_head := head, vd_updated := updated\<rparr>)
      else
        let v' = (if updated < vd_updated v then v\<lparr>vd_updated := updated\<rparr> else v) in
        if vd_old v' < time_Sub now (vd_updated v') then (Some (Sentinel ErrHeadOld), v')
        else (None, v'))"

text \<open>The parameters are an array whose first element is the string "latest".\<close>

fun isQueryingEthGetBlockByNumberWithLatest :: "raw \<Rightarrow> bool" where
  "isQueryingEthGetBlockByNumberWithLatest (RawDoc (JArr (JStr b # _))) = (b = ''latest'')"
| "isQueryingEthGetBlockByNumberWithLatest _ = False"

fun parse_block_members :: "codec \<Rightarrow> u64 \<Rightarrow> int \<Rightarrow> (string \<times> json) list \<Rightarrow> (u64 \<times> int) outcome" where
  "parse_block_members cdc number timestamp [] = Ok (number, timestamp)"
| "parse_block_members cdc number timestamp ((k, v) # fs) =
     (if k = ''number'' then
        outcome_bind (dec_Uint64 cdc v) (\<lambda>n. parse_block_members cdc n timestamp fs)
      else if k = ''timestamp'' then
        outcome_bind (dec_Uint64 cdc v) (\<lambda>ts. parse_block_members cdc number (time_Unix ts) fs)
      else parse_block_members cdc number timestamp fs)"

fun parseRawBlock :: "codec \<Rightarrow> json \<Rightarrow> (u64 \<times> int) outcome" where
  "parseRawBlock cdc JNull = Err (Sentinel ErrHeadOld)"
| "parseRawBlock cdc (JObj fs) = parse_block_members cdc 0 time_zero fs"
| "parseRawBlock cdc _ = Err json_type_error"

fun extractBlockTimeAndTimestamp :: "codec \<Rightarrow> any \<Rightarrow> (u64 \<times> int) outcome" where
  "extractBlockTimeAndTimestamp cdc (AHeader number timestamp _) = Ok (number, time_Unix timestamp)"
| "extractBlockTimeAndTimestamp cdc (ARaw j) = parseRawBlock cdc j"
| "extractBlockTimeAndTimestamp cdc (ANoCopy j) = parseRawBlock cdc j"
| "extractBlockTimeAndTimestamp cdc _ = Err (ErrorText ''expected block'')"

text \<open>The type switch on the result: a raw null or the nil interface.\<close>

fun null_result :: "any \<Rightarrow> bool" where
  "null_result (ARaw j) = (j = JNull)"
| "null_result (ANoCopy j) = (j = JNull)"
| "null_result ANil = True"
| "null_result _ = False"

definition err_is :: "gerror option \<Rightarrow> sentinel \<Rightarrow> bool" where
  "err_is err t = (case err of None \<Rightarrow> False | Some e \<Rightarrow> errors_Is e t)"

text \<open>A reported block is checked against the head the validator knows.\<close>

definition Validator_observe :: "codec \<Rightarrow> ('s \<Rightarrow> int) \<Rightarrow> ('s, Validator) cell \<Rightarrow> any \<Rightarrow> 's
    \<Rightarrow> (u64 \<times> gerror option) outcome \<times> 's" where
  "Validator_observe cdc clk c block s =
     (case extractBlockTimeAndTimestamp cdc block of
        Err e \<Rightarrow> (Err e, s)
      | Panic m \<Rightarrow> (Panic m, s)
      | Ok (number, timestamp) \<Rightarrow>
          (case Validator_updateHead (clk s) number timestamp (rd c s) of
             (err, v) \<Rightarrow> (Ok (number, err), wr c v s)))"

definition Validator_getBlockByNumber :: "codec \<Rightarrow> ('s \<Rightarrow> int) \<Rightarrow> ('s, Validator) cell \<Rightarrow> 's middleware" where
  "Validator_getBlockByNumber cdc clk c next = (\<lambda>r s.
     let isLatest = isQueryingEthGetBlockByNumberWithLatest (rq_Params r);
         r' = (if isLatest then r\<lparr>rq_Ctx := WithTimeout (clk s) (15 * Second) (rq_Ctx r)\<rparr> else r)
     in with_icept next r' s (\<lambda>ic s1.
       let finish = (\<lambda>err s2.
         let err' = (if err = None \<and> null_result (ic_Result ic) then Some (Sentinel ErrHeadOld) else err);
             err'' = (if err_is err' DeadlineExceeded \<and> isLatest \<and>
                         timed_out (clk s) (15 * Second) (rq_Ctx r) (clk s2)
                      then Some (Sentinel ErrHeadOld) else err')
         in (Sends [(ic_Result ic, err'')], s2))
       in if ic_Error ic = None \<and> isLatest
          then (case Validator_observe cdc clk c (ic_Result ic) s1 of
                  (Panic m, s2) \<Rightarrow> (Crash m, s2)
                | (Err e, s2) \<Rightarrow> finish (Some e) s2
                | (Ok (number, err), s2) \<Rightarrow> finish err s2)
          else finish (ic_Error ic) s1))"

definition Validator_blockNumber :: "codec \<Rightarrow> ('s \<Rightarrow> int) \<Rightarrow> ('s, Validator) cell \<Rightarrow> 's middleware" where
  "Validator_blockNumber cdc clk c next = (\<lambda>r s.
     case Do cdc (rq_Ctx r) next ''eth_getBlockByNumber'' (JArr [JStr ''latest'', JBool False]) s of
       (Err e, s1) \<Rightarrow> (send_err e, s1)
     | (Panic m, s1) \<Rightarrow> (Crash m, s1)
     | (Ok block, s1) \<Rightarrow>
         (case Validator_observe cdc clk c (ARaw block) s1 of
            (Err e, s2) \<Rightarrow> (send_err e, s2)
          | (Panic m, s2) \<Rightarrow> (Crash m, s2)
          | (Ok (number, err), s2) \<Rightarrow> (Sends [(AUint64 number, err)], s2)))"

definition Validator_Middleware :: "codec \<Rightarrow> ('s \<Rightarrow> int) \<Rightarrow> ('s, Validator) cell \<Rightarrow> 's middleware" where
  "Validator_Middleware cdc clk c next = (\<lambda>r s.
     if rq_Params r = RawBad then (send_err (NewInvalidParamsError ''params must be valid json''), s)
     else if rq_Method r = ''eth_getBlockByNumber'' then Validator_getBlockByNumber cdc clk c next r s
     else if rq_Method r = ''eth_blockNumber'' then Validator_blockNumber cdc clk c next r s
     else if rq_Method r \<in> {''eth_getBlockByHash'', ''eth_getLogs'', ''eth_getBlockReceipts''} then
       with_icept next r s (\<lambda>ic s1.
         (if ic_Error ic = None \<and> null_result (ic_Result ic)
          then Sends [(ic_Result ic, Some (Sentinel ErrHeadOld))] else send_icept ic, s1))
     else next r s)"

definition Validator_GetHead :: "Validator \<Rightarrow> u64 \<times> int" where
  "Validator_GetHead v = (vd_head v, vd_updated v)"

section \<open>Lemmas\<close>

lemma updateHead_head: "Validator_updateHead now n t v = (err, v') \<Longrightarrow> vd_head v' = max n (vd_head v)"
  by (auto simp: Validator_updateHead_def Let_def max_def split: if_splits)

lemma updateHead_ok: "Validator_updateHead now n t v = (None, v') \<Longrightarrow> vd_head v' = n"
  by (auto simp: Validator_updateHead_def Let_def split: if_splits)

lemma observe_monotone:
  "mem_cell c \<Longrightarrow> vd_head (rd c s) \<le> vd_head (rd c (snd (Validator_observe cdc clk c b s)))"
  by (auto simp: Validator_observe_def mem_cell.rd_wr updateHead_head split: outcome.splits prod.splits)

lemma observe_ok:
  "mem_cell c \<Longrightarrow> Validator_observe cdc clk c b s = (Ok (n, None), s') \<Longrightarrow> vd_head (rd c s') = n"
  by (auto simp: Validator_observe_def mem_cell.rd_wr updateHead_ok split: outcome.splits prod.splits)

lemma keeps_cellD: "keeps_cell c h \<Longrightarrow> h r s = (x, s') \<Longrightarrow> rd c s' = rd c s"
  by (metis keeps_cell_def snd_conv)

lemma getBlockByNumber_monotone:
  assumes c: "mem_cell c" and k: "keeps_cell c next"
  shows "vd_head (rd c s) \<le> vd_head (rd c (snd (Validator_getBlockByNumber cdc clk c next r s)))"
proof -
  let ?r = "if isQueryingEthGetBlockByNumberWithLatest (rq_Params r)
            then r\<lparr>rq_Ctx := WithTimeout (clk s) (15 * Second) (rq_Ctx r)\<rparr> else r"
  obtain x s1 where n: "next ?r s = (x, s1)" by fastforce
  have "vd_head (rd c s) = vd_head (rd c s1)" using keeps_cellD [OF k n] by simp
  then show ?thesis
    using n observe_monotone [OF c, of s1 cdc clk "ic_Result (icept_of xs)" for xs]
    by (auto simp: Validator_getBlockByNumber_def with_icept_eq Let_def
        split: reply.splits outcome.splits prod.splits intro: order_trans)
       (metis snd_conv)+
qed

lemma blockNumber_monotone:
  assumes c: "mem_cell c" and k: "keeps_cell c next"
    and run: "Validator_blockNumber cdc clk c next r s = (x, s')"
  shows "vd_head (rd c s) \<le> vd_head (rd c s') \<and> (\<forall>n. x = Sends [(AUint64 n, None)] \<longrightarrow> vd_head (rd c s') = n)"
proof -
  let ?call = "Do cdc (rq_Ctx r) next ''eth_getBlockByNumber'' (JArr [JStr ''latest'', JBool False]) s"
  obtain o1 s1 where d: "?call = (o1, s1)" by fastforce
  have "s1 = snd ?call" using d by simp
  then have s1: "rd c s1 = rd c s" using k by (simp add: Do_state keeps_cell_def)
  show ?thesis
  proof (cases o1)
    case (Ok block)
    obtain o2 s2 where ob: "Validator_observe cdc clk c (ARaw block) s1 = (o2, s2)" by fastforce
    have "vd_head (rd c s) \<le> vd_head (rd c s2)"
      using observe_monotone [OF c, of s1 cdc clk "ARaw block"] ob s1 by simp
    then show ?thesis
      using run d Ok ob observe_ok [OF c]
      by (auto simp: Validator_blockNumber_def send_err_def split: outcome.splits)
  qed (use run d s1 in \<open>auto simp: Validator_blockNumber_def send_err_def\<close>)
qed

lemma validator_step:
  assumes c: "mem_cell c" and k: "keeps_cell c next"
    and run: "Validator_Middleware cdc clk c next r s = (x, s')"
  shows "vd_head (rd c s) \<le> vd_head (rd c s') \<and>
     (\<forall>n. rq_Method r = ''eth_blockNumber'' \<and> x = Sends [(AUint64 n, None)] \<longrightarrow> vd_head (rd c s') = n)"
  using run getBlockByNumber_monotone [OF c k, of s cdc clk r] blockNumber_monotone [OF c k]
    keeps_cellD [OF k]
  by (auto simp: Validator_Middleware_def with_icept_eq send_err_def split: if_splits prod.splits reply.splits)

text \<open>The head numbers among the replies to \<open>eth_blockNumber\<close>.\<close>

fun reported_heads :: "request list \<Rightarrow> reply list \<Rightarrow> u64 list" where
  "reported_heads (r # rs) (Sends [(AUint64 n, None)] # xs) =
     (if rq_Method r = ''eth_blockNumber'' then n # reported_heads rs xs else reported_heads rs xs)"
| "reported_heads (r # rs) (x # xs) = reported_heads rs xs"
| "reported_heads _ _ = []"

lemma reported_heads_Cons:
  "reported_heads (r # rs) (x # xs) =
     (if rq_Method r = ''eth_blockNumber'' \<and> (\<exists>n. x = Sends [(AUint64 n, None)])
      then (THE n. x = Sends [(AUint64 n, None)]) # reported_heads rs xs else reported_heads rs xs)"
  by (cases "(r # rs, x # xs)" rule: reported_heads.cases) auto

lemma reported_heads_sorted:
  assumes c: "mem_cell c" and k: "keeps_cell c next"
  shows "serve_all (Validator_Middleware cdc clk c next) rs s = (xs, s') \<Longrightarrow>
     sorted (reported_heads rs xs) \<and> (\<forall>n \<in> set (reported_heads rs xs). vd_head (rd c s) \<le> n)"
proof (induction rs arbitrary: s xs)
  case Nil
  then show ?case by simp
next
  case (Cons r rs)
  obtain x s1 where x: "Validator_Middleware cdc clk c next r s = (x, s1)" by fastforce
  obtain ys where ys: "serve_all (Validator_Middleware cdc clk c next) rs s1 = (ys, s')" and xs: "xs = x # ys"
    using Cons.prems x by (auto split: prod.splits)
  from Cons.IH [OF ys] validator_step [OF c k x] show ?case
    unfolding xs reported_heads_Cons by (auto intro: order_trans)
qed

section \<open>Properties\<close>

text \<open>
  C6: The heads a remote reports through its validator never move backwards. Over any sequence of
  requests, the block numbers with which \<open>eth_blockNumber\<close> succeeds form an ascending list,
  whatever the remote answers.
\<close>

theorem validator_heads_never_go_back:
  assumes "mem_cell c" and "keeps_cell c next"
  shows "sorted (reported_heads rs (fst (serve_all (Validator_Middleware cdc clk c next) rs s)))"
  using reported_heads_sorted [OF assms, of cdc clk rs s] by (metis prod.collapse)

definition block_json :: "string \<Rightarrow> json" where
  "block_json n = JObj [(''number'', JStr n), (''timestamp'', JStr ''0x64'')]"

theorem validator_heads_never_go_back_witness:
  "let next = (\<lambda>r s. (send_ok (ARaw (block_json ''0x7'')), s)) in
   sorted (reported_heads [NewRequest Background ''eth_blockNumber'' (JArr [])]
     (fst (serve_all (Validator_Middleware eth_codec (\<lambda>_. 100 * Second) own_cell next)
       [NewRequest Background ''eth_blockNumber'' (JArr [])] (NewValidator (60 * Second)))))"
proof -
  have "keeps_cell own_cell (\<lambda>r s. (send_ok (ARaw (block_json ''0x7'')), s :: Validator))"
    by (simp add: keeps_cell_def)
  from validator_heads_never_go_back [OF own_cell_ok this] show ?thesis by (simp only: Let_def)
qed

text \<open>
  A reported head is accepted exactly when it is higher than the known one, or equal to it and
  the earliest time stamp seen for it is not older than the configured age; the known head becomes
  the higher of the two and the other cases are errors that say what is wrong.
\<close>

theorem updateHead_decides:
  "case Validator_updateHead now head updated v of (err, v') \<Rightarrow>
     vd_head v' = max head (vd_head v) \<and>
     (err = None \<longleftrightarrow> vd_head v < head \<or>
        head = vd_head v \<and> time_Sub now (min updated (vd_updated v)) \<le> vd_old v) \<and>
     (head < vd_head v \<longleftrightarrow> err_is err ErrHeadJumpedBackwards) \<and>
     (head = vd_head v \<and> vd_old v < time_Sub now (min updated (vd_updated v)) \<longleftrightarrow> err_is err ErrHeadOld)"
  by (auto simp: Validator_updateHead_def jumped_backwards_def err_is_def Let_def max_def min_def)

text \<open>
  A null result is never passed on as a success. If the validator answers one of the block or
  log queries without an error then the result is neither nil nor a JSON null.
\<close>

theorem validator_refuses_null:
  assumes "rq_Method r \<in> {''eth_getBlockByNumber'', ''eth_getBlockByHash'', ''eth_getLogs'', ''eth_getBlockReceipts''}"
    and "Validator_Middleware cdc clk c next r s = (Sends xs, s')" and "(v, None) \<in> set xs"
  shows "\<not> null_result v"
  using assms
  by (auto simp: Validator_Middleware_def Validator_getBlockByNumber_def with_icept_eq send_err_def
      send_icept_def Let_def split: if_splits prod.splits reply.splits outcome.splits)

theorem validator_refuses_null_witness:
  "\<not> null_result (ARaw (JArr []))"
proof (rule validator_refuses_null)
  let ?r = "NewRequest Background ''eth_getLogs'' (JArr [])"
  show "rq_Method ?r \<in> {''eth_getBlockByNumber'', ''eth_getBlockByHash'', ''eth_getLogs'', ''eth_getBlockReceipts''}"
    by (simp add: NewRequest_def)
  show "Validator_Middleware eth_codec (\<lambda>_. 0) own_cell (\<lambda>r s. (send_ok (ARaw (JArr [])), s)) ?r (NewValidator 60) =
      (Sends [(ARaw (JArr []), None)], NewValidator 60)"
    by (simp add: Validator_Middleware_def NewRequest_def with_icept_eq send_ok_def send_icept_def)
  show "(ARaw (JArr []), None) \<in> set [(ARaw (JArr []), None)]" by simp
qed

end
