(* ===== verification/Venn_Cluster.thy ===== *)
theory Venn_Cluster
  imports Venn_Util "HOL-Library.Multiset"
begin

text \<open>
  \<open>lib/callcenter/cluster.go\<close>: the remotes of one chain, grouped by priority. \<open>Add\<close> keeps the
  groups sorted, \<open>ServeRPC\<close> tries the remotes of each group in turn, starting at a different one
  for every request. A handler is referred to by its address; \<open>serve\<close> gives the code at an
  address.
\<close>

type_synonym handler_ref = nat

record RemoteWithConfig =
  rw_Handler :: handler_ref
  rw_Config :: Remote

record clustererPriority =
  cp_priority :: int
  cp_remotes :: "RemoteWithConfig list"
  cp_round :: int

record Cluster =
  cl_priorities :: "clustererPriority list"
  cl_remotes :: "RemoteWithConfig list"
  cl_remotePriority :: "int list"

definition NewRemoteWithConfig :: "handler_ref \<Rightarrow> Remote \<Rightarrow> RemoteWithConfig" where
  "NewRemoteWithConfig h cfg = \<lparr>rw_Handler = h, rw_Config = cfg\<rparr>"

definition NewCluster :: Cluster where
  "NewCluster = \<lparr>cl_priorities = [], cl_remotes = [], cl_remotePriority = []\<rparr>"

text \<open>\<open>slices.BinarySearchFunc\<close>: \<open>before\<close> says that an element is before the target.\<close>

function binary_search :: "('a \<Rightarrow> bool) \<Rightarrow> 'a list \<Rightarrow> nat \<Rightarrow> nat \<Rightarrow> nat" where
  "binary_search before xs i j =
     (if i < j then
        (let h = (i + j) div 2 in
         if before (xs ! h) then binary_search before xs (h + 1) j else binary_search before xs i h)
      else i)"
  by pat_completeness auto
termination
  by (relation "measure (\<lambda>(before, xs, i, j). j - i)") auto

declare binary_search.simps [simp del]

definition BinarySearch :: "('a \<Rightarrow> int) \<Rightarrow> 'a list \<Rightarrow> int \<Rightarrow> nat \<times> bool" where
  "BinarySearch key xs t =
     (let i = binary_search (\<lambda>x. key x < t) xs 0 (length xs) in (i, i < length xs \<and> key (xs ! i) = t))"

text \<open>Append a slot, move the tail up by one, and fill the gap.\<close>

definition insert_at :: "nat \<Rightarrow> 'a \<Rightarrow> 'a list \<Rightarrow> 'a list" where
  "insert_at i x xs = take i xs @ x # drop i xs"

definition Cluster_Add :: "int \<Rightarrow> RemoteWithConfig \<Rightarrow> Cluster \<Rightarrow> Cluster" where
  "Cluster_Add priority remote cl =
     (let (idx, _) = BinarySearch id (cl_remotePriority cl) priority;
          cl1 = (if length (cl_remotePriority cl) \<le> idx
                 then cl\<lparr>cl_remotes := cl_remotes cl @ [remote],
                         cl_remotePriority := cl_remotePriority cl @ [priority]\<rparr>
                 else cl\<lparr>cl_remotes := insert_at idx remote (cl_remotes cl),
                         cl_remotePriority := insert_at idx priority (cl_remotePriority cl)\<rparr>);
          (pos, ok) = BinarySearch cp_priority (cl_priorities cl1) priority
      in if ok
         then cl1\<lparr>cl_priorities := (cl_priorities cl1)[pos :=
                (cl_priorities cl1 ! pos)\<lparr>cp_remotes := cp_remotes (cl_priorities cl1 ! pos) @ [remote]\<rparr>]\<rparr>
         else cl1\<lparr>cl_priorities := insert_at pos
                \<lparr>cp_priority = priority, cp_remotes = [remote], cp_round = 0\<rparr> (cl_priorities cl1)\<rparr>)"

definition Cluster_Remotes :: "Cluster \<Rightarrow> RemoteWithConfig list" where
  "Cluster_Remotes cl = cl_remotes cl"

section \<open>Serving a request\<close>

text \<open>Go's remainder has the sign of the dividend.\<close>

definition gomod :: "int \<Rightarrow> int \<Rightarrow> int" where
  "gomod a b = a - b * godiv a b"

text \<open>What the loop does after a call: the reply with which it ends, or \<open>None\<close> to go on.\<close>

definition cluster_react :: "bool \<Rightarrow> Interceptor \<Rightarrow> reply option" where
  "cluster_react is_last ic =
     (case ic_Error ic of
        Some err \<Rightarrow>
          if IsUserError (Some err) then Some (send_err err)
          else if \<not> is_last then None
          else if errors_Is err ErrHeadOld then Some (send_ok (ic_Result ic))
          else Some (send_err err)
      | None \<Rightarrow> if ic_Result ic \<noteq> ANil then Some (send_ok (ic_Result ic)) else None)"

text \<open>
  The inner loop, with \<open>n\<close> iterations left: one interceptor is shared by all calls of a request.
  \<open>Inl\<close> is the end of the request, \<open>Inr\<close> the end of the loop.
\<close>

fun try_remotes :: "(handler_ref \<Rightarrow> 's handler) \<Rightarrow> bool \<Rightarrow> RemoteWithConfig list \<Rightarrow> request \<Rightarrow> int \<Rightarrow> nat
    \<Rightarrow> Interceptor \<Rightarrow> 's \<Rightarrow> (reply + Interceptor) \<times> 's" where
  "try_remotes serve lastp rs r j 0 ic s = (Inr ic, s)"
| "try_remotes serve lastp rs r j (Suc n) ic s =
     (let j' = wrap64 (j + 1); idx = gomod j' (int (length rs)) in
      if idx < 0 then (Inl (Crash ''index out of range''), s)
      else case serve_icept (serve (rw_Handler (rs ! nat idx))) ic r s of
             (Panic m, s') \<Rightarrow> (Inl (Crash m), s')
           | (Err e, s') \<Rightarrow> (Inl (send_err e), s')
           | (Ok ic', s') \<Rightarrow>
               (case cluster_react (lastp \<and> n = 0) ic' of
                  Some x \<Rightarrow> (Inl x, s')
                | None \<Rightarrow> try_remotes serve lastp rs r j' n ic' s'))"

definition bump_round :: "('s, Cluster) cell \<Rightarrow> nat \<Rightarrow> 's \<Rightarrow> 's" where
  "bump_round c i = upd c (\<lambda>cl. cl\<lparr>cl_priorities := (cl_priorities cl)[i :=
     (cl_priorities cl ! i)\<lparr>cp_round := wrap64 (cp_round (cl_priorities cl ! i) + 1)\<rparr>]\<rparr>)"

fun try_priorities :: "(handler_ref \<Rightarrow> 's handler) \<Rightarrow> ('s, Cluster) cell \<Rightarrow> nat list \<Rightarrow> request
    \<Rightarrow> Interceptor \<Rightarrow> 's \<Rightarrow> reply \<times> 's" where
  "try_priorities serve c [] r ic s = (Sends [], s)"
| "try_priorities serve c (i # is) r ic s =
     (let rs = cp_remotes (cl_priorities (rd c s) ! i);
          s1 = (if 1 < length rs then bump_round c i s else s);
          j = (if 1 < length rs then cp_round (cl_priorities (rd c s1) ! i) else 0)
      in case try_remotes serve (i + 1 = length (cl_priorities (rd c s))) rs r j (length rs) ic s1 of
           (Inl x, s') \<Rightarrow> (x, s')
         | (Inr ic', s') \<Rightarrow> try_priorities serve c is r ic' s')"

definition Cluster_ServeRPC :: "(handler_ref \<Rightarrow> 's handler) \<Rightarrow> ('s, Cluster) cell \<Rightarrow> 's handler" where
  "Cluster_ServeRPC serve c = (\<lambda>r s.
     try_priorities serve c [0..<length (cl_priorities (rd c s))] r Interceptor_zero s)"

section \<open>Adding remotes\<close>

lemma binary_search_steps:
  "\<not> i < j \<Longrightarrow> binary_search before xs i j = i"
  "i < j \<Longrightarrow> before (xs ! ((i + j) div 2)) \<Longrightarrow>
   binary_search before xs i j = binary_search before xs ((i + j) div 2 + 1) j"
  "i < j \<Longrightarrow> \<not> before (xs ! ((i + j) div 2)) \<Longrightarrow>
   binary_search before xs i j = binary_search before xs i ((i + j) div 2)"
  by (simp_all add: binary_search.simps [of before xs i j] Let_def)

text \<open>On a list whose elements before the target come first, the search finds the boundary.\<close>

definition boundary :: "('a \<Rightarrow> bool) \<Rightarrow> 'a list \<Rightarrow> nat \<Rightarrow> bool" where
  "boundary before xs n \<longleftrightarrow> n \<le> length xs \<and> (\<forall>k < n. before (xs ! k)) \<and>
     (\<forall>k < length xs. n \<le> k \<longrightarrow> \<not> before (xs ! k))"

lemma binary_search_boundary:
  assumes "\<And>k l. k \<le> l \<Longrightarrow> l < length xs \<Longrightarrow> before (xs ! l) \<Longrightarrow> before (xs ! k)"
  shows "i \<le> j \<Longrightarrow> j \<le> length xs \<Longrightarrow> \<forall>k < i. before (xs ! k) \<Longrightarrow>
     \<forall>k < length xs. j \<le> k \<longrightarrow> \<not> before (xs ! k) \<Longrightarrow> boundary before xs (binary_search before xs i j)"
  using assms
proof (induction before xs i j rule: binary_search.induct)
  case (1 before xs i j)
  let ?h = "(i + j) div 2"
  note mono = "1.prems"(5)
  consider "\<not> i < j" | "i < j" "before (xs ! ?h)" | "i < j" "\<not> before (xs ! ?h)" by blast
  then show ?case
  proof cases
    case 1
    then have "i = j" using "1.prems"(1) by simp
    then show ?thesis using "1.prems" by (simp add: binary_search_steps(1) boundary_def)
  next
    case 2
    then have h: "?h + 1 \<le> j" "?h < length xs" using "1.prems"(2) by auto
    have "\<forall>k < ?h + 1. before (xs ! k)" using mono [OF _ h(2) 2(2)] by simp
    from "1.IH"(1) [OF 2(1) refl 2(2) h(1) "1.prems"(2) this "1.prems"(4) mono] show ?thesis
      by (simp only: binary_search_steps(2) [where before = before, OF 2])
  next
    case 3
    then have h: "i \<le> ?h" "?h \<le> length xs" using "1.prems"(2) by auto
    have "\<forall>k < length xs. ?h \<le> k \<longrightarrow> \<not> before (xs ! k)" using mono 3(2) by blast
    from "1.IH"(2) [OF 3(1) refl 3(2) h "1.prems"(3) this mono] show ?thesis
      by (simp only: binary_search_steps(3) [where before = before, OF 3])
  qed
qed

lemma boundary_takeWhile: "boundary before xs n \<Longrightarrow> n = length (takeWhile before xs)"
proof (induction xs arbitrary: n)
  case Nil
  then show ?case by (simp add: boundary_def)
next
  case (Cons x xs)
  show ?case
  proof (cases n)
    case 0
    then show ?thesis using Cons.prems by (auto simp: boundary_def)
  next
    case (Suc m)
    have b: "\<forall>k < Suc m. before ((x # xs) ! k)" "Suc m \<le> length (x # xs)"
        "\<forall>k < length (x # xs). Suc m \<le> k \<longrightarrow> \<not> before ((x # xs) ! k)"
      using Cons.prems Suc by (simp_all add: boundary_def)
    have "before (xs ! k)" if "k < m" for k using b(1) that by (metis Suc_mono nth_Cons_Suc)
    moreover have "\<not> before (xs ! k)" if "k < length xs" "m \<le> k" for k
      using b(3) that by (metis Suc_le_mono Suc_mono length_Cons nth_Cons_Suc)
    ultimately have "boundary before xs m" using b(2) by (simp add: boundary_def)
    moreover have "before x" using b(1) by (metis nth_Cons_0 zero_less_Suc)
    ultimately show ?thesis using Cons.IH [of m] Suc by simp
  qed
qed

lemma BinarySearch_sorted:
  assumes "sorted (map key xs)"
  shows "BinarySearch key xs t =
     (length (takeWhile (\<lambda>x. key x < t) xs), t \<in> key ` set xs)"
proof -
  let ?b = "\<lambda>x. key x < t"
  have le: "k \<le> l \<Longrightarrow> l < length xs \<Longrightarrow> key (xs ! k) \<le> key (xs ! l)" for k l
    using sorted_nth_mono [OF assms, of k l] by simp
  have bd: "boundary ?b xs (binary_search ?b xs 0 (length xs))"
    by (rule binary_search_boundary) (use le in \<open>auto intro: le_less_trans\<close>)
  let ?i = "binary_search ?b xs 0 (length xs)"
  have "(?i < length xs \<and> key (xs ! ?i) = t) \<longleftrightarrow> t \<in> key ` set xs"
  proof
    assume "t \<in> key ` set xs"
    then obtain k where k: "k < length xs" "key (xs ! k) = t" by (auto simp: in_set_conv_nth)
    have ik: "?i \<le> k"
    proof (rule ccontr)
      assume "\<not> ?i \<le> k"
      then have "key (xs ! k) < t" using bd by (simp add: boundary_def)
      with k(2) show False by simp
    qed
    then have "\<not> key (xs ! ?i) < t" using bd k(1) by (simp add: boundary_def)
    with le [OF ik k(1)] k ik show "?i < length xs \<and> key (xs ! ?i) = t" by simp
  qed (metis image_eqI nth_mem)
  then show ?thesis
    unfolding BinarySearch_def Let_def boundary_takeWhile [OF bd, symmetric] by simp
qed


lemma insert_at_takeWhile:
  "insert_at (length (takeWhile P xs)) x xs = takeWhile P xs @ x # dropWhile P xs"
  by (simp add: insert_at_def takeWhile_eq_take [symmetric] dropWhile_eq_drop [symmetric])

lemma insert_at_insort:
  "insert_at (length (takeWhile (\<lambda>y. f y < f x) xs)) x xs = insort_key f x xs"
  unfolding insert_at_takeWhile by (induction xs) auto

lemma insert_at_zip:
  "length as = length bs \<Longrightarrow> zip (insert_at i a as) (insert_at i b bs) = insert_at i (a, b) (zip as bs)"
  by (simp add: insert_at_def take_zip drop_zip zip_append)

lemma length_insert_at [simp]: "length (insert_at i x xs) = Suc (length xs)"
  by (simp add: insert_at_def min_def)

lemma insert_at_end: "insert_at (length xs) x xs = xs @ [x]"
  by (simp add: insert_at_def)

text \<open>The cluster that results from adding \<open>ads\<close>, in this order.\<close>

definition cluster_of :: "(int \<times> RemoteWithConfig) list \<Rightarrow> Cluster \<Rightarrow> bool" where
  "cluster_of ads cl \<longleftrightarrow>
     length (cl_remotePriority cl) = length (cl_remotes cl) \<and>
     zip (cl_remotePriority cl) (cl_remotes cl) = sort_key fst (rev ads) \<and>
     sorted_wrt (<) (map cp_priority (cl_priorities cl)) \<and>
     cp_priority ` set (cl_priorities cl) = fst ` set ads \<and>
     (\<forall>p \<in> set (cl_priorities cl). cp_remotes p = map snd (filter (\<lambda>a. fst a = cp_priority p) ads))"

definition group_add :: "int \<Rightarrow> RemoteWithConfig \<Rightarrow> clustererPriority list \<Rightarrow> clustererPriority list" where
  "group_add priority remote ps =
     (let pos = length (takeWhile (\<lambda>p. cp_priority p < priority) ps) in
      if priority \<in> cp_priority ` set ps
      then ps[pos := (ps ! pos)\<lparr>cp_remotes := cp_remotes (ps ! pos) @ [remote]\<rparr>]
      else insert_at pos \<lparr>cp_priority = priority, cp_remotes = [remote], cp_round = 0\<rparr> ps)"

lemma Cluster_Add_eq:
  assumes "sorted (cl_remotePriority cl)" and "sorted (map cp_priority (cl_priorities cl))"
    and "length (cl_remotePriority cl) = length (cl_remotes cl)"
  shows "Cluster_Add priority remote cl =
     (let idx = length (takeWhile (\<lambda>x. x < priority) (cl_remotePriority cl)) in
      \<lparr>cl_priorities = group_add priority remote (cl_priorities cl),
       cl_remotes = insert_at idx remote (cl_remotes cl),
       cl_remotePriority = insert_at idx priority (cl_remotePriority cl)\<rparr>)"
proof -
  let ?idx = "length (takeWhile (\<lambda>x. x < priority) (cl_remotePriority cl))"
  have idx: "BinarySearch id (cl_remotePriority cl) priority = (?idx, priority \<in> set (cl_remotePriority cl))"
    using BinarySearch_sorted [of id "cl_remotePriority cl" priority] assms(1) by simp
  have pos: "BinarySearch cp_priority (cl_priorities cl) priority =
      (length (takeWhile (\<lambda>p. cp_priority p < priority) (cl_priorities cl)), priority \<in> cp_priority ` set (cl_priorities cl))"
    by (rule BinarySearch_sorted [OF assms(2)])
  have "?idx \<le> length (cl_remotePriority cl)" by (rule length_takeWhile_le)
  then have "length (cl_remotePriority cl) \<le> ?idx \<Longrightarrow> ?idx = length (cl_remotePriority cl)" by linarith
  then show ?thesis
    using assms(3) insert_at_end [of "cl_remotes cl"] insert_at_end [of "cl_remotePriority cl"]
    by (cases "length (cl_remotePriority cl) \<le> ?idx")
      (simp_all add: Cluster_Add_def idx pos group_add_def Let_def)
qed

lemma group_add_Nil: "group_add q r [] = [\<lparr>cp_priority = q, cp_remotes = [r], cp_round = 0\<rparr>]"
  by (simp add: group_add_def insert_at_def)

lemma group_add_Cons:
  assumes "sorted_wrt (<) (map cp_priority (p # ps))"
  shows "group_add q r (p # ps) =
     (if cp_priority p < q then p # group_add q r ps
      else if cp_priority p = q then p\<lparr>cp_remotes := cp_remotes p @ [r]\<rparr> # ps
      else \<lparr>cp_priority = q, cp_remotes = [r], cp_round = 0\<rparr> # p # ps)"
proof -
  have "cp_priority p \<notin> cp_priority ` set ps" "q < cp_priority p \<Longrightarrow> q \<notin> cp_priority ` set ps"
    using assms by auto
  then show ?thesis by (auto simp: group_add_def Let_def insert_at_def)
qed

lemma group_add_sorted:
  "sorted_wrt (<) (map cp_priority ps) \<Longrightarrow>
   cp_priority ` set (group_add q r ps) = insert q (cp_priority ` set ps) \<and>
   sorted_wrt (<) (map cp_priority (group_add q r ps))"
proof (induction ps)
  case Nil
  then show ?case by (simp add: group_add_Nil)
next
  case (Cons p ps)
  then have "cp_priority ` set (group_add q r ps) = insert q (cp_priority ` set ps)"
      "sorted_wrt (<) (map cp_priority (group_add q r ps))" by simp_all
  moreover from this(1) have "\<forall>x \<in> set (group_add q r ps). cp_priority x \<in> insert q (cp_priority ` set ps)"
    by blast
  ultimately show ?case using Cons.prems
    by (auto simp: group_add_Cons)
qed

lemma group_add_remotes:
  assumes "sorted_wrt (<) (map cp_priority ps)"
    and "\<And>p. p \<in> set ps \<Longrightarrow> cp_remotes p = map snd (filter (\<lambda>a. fst a = cp_priority p) ads)"
    and "q \<notin> cp_priority ` set ps \<Longrightarrow> filter (\<lambda>a. fst a = q) ads = []"
    and "p \<in> set (group_add q r ps)"
  shows "cp_remotes p = map snd (filter (\<lambda>a. fst a = cp_priority p) (ads @ [(q, r)]))"
  using assms
proof (induction ps)
  case Nil
  then show ?case by (simp add: group_add_Nil)
next
  case (Cons x ps)
  have x: "cp_remotes x = map snd (filter (\<lambda>a. fst a = cp_priority x) ads)"
    using Cons.prems(2) [of x] by simp
  have old: "cp_remotes p = map snd (filter (\<lambda>a. fst a = cp_priority p) ads)" if "p \<in> set ps"
    using Cons.prems(2) [of p] that by simp
  have above: "cp_priority x < cp_priority p" if "p \<in> set ps" using Cons.prems(1) that by simp
  consider "cp_priority x < q" | "cp_priority x = q" | "q < cp_priority x" by linarith
  then show ?case
  proof cases
    case 1
    then have "cp_remotes p = map snd (filter (\<lambda>a. fst a = cp_priority p) (ads @ [(q, r)]))"
      if "p \<in> set (group_add q r ps)"
      using Cons.IH Cons.prems(1,2,3) that by simp
    then show ?thesis using 1 x Cons.prems(4) by (auto simp: group_add_Cons [OF Cons.prems(1)])
  next
    case 2
    then show ?thesis using x old above Cons.prems(4) by (auto simp: group_add_Cons [OF Cons.prems(1)])
  next
    case 3
    have "q \<notin> cp_priority ` set (x # ps)" using Cons.prems(1) 3 by auto
    then have "filter (\<lambda>a. fst a = q) ads = []" by (rule Cons.prems(3))
    then show ?thesis using 3 x old above Cons.prems(4) by (auto simp: group_add_Cons [OF Cons.prems(1)])
  qed
qed

lemma cluster_of_Add:
  assumes "cluster_of ads cl"
  shows "cluster_of (ads @ [(q, r)]) (Cluster_Add q r cl)"
proof -
  let ?rp = "cl_remotePriority cl" and ?rs = "cl_remotes cl" and ?ps = "cl_priorities cl"
  have len: "length ?rp = length ?rs" and z: "zip ?rp ?rs = sort_key fst (rev ads)"
    and st: "sorted_wrt (<) (map cp_priority ?ps)" and set: "cp_priority ` set ?ps = fst ` set ads"
    and rem: "\<And>p. p \<in> set ?ps \<Longrightarrow> cp_remotes p = map snd (filter (\<lambda>a. fst a = cp_priority p) ads)"
    using assms by (simp_all add: cluster_of_def)
  have rp: "?rp = map fst (zip ?rp ?rs)" using len by simp
  then have srt: "sorted ?rp" using sorted_sort_key [of fst "rev ads"] by (simp only: z)
  have "takeWhile (\<lambda>x. x < q) ?rp = map fst (takeWhile (\<lambda>a. fst a < q) (zip ?rp ?rs))"
    by (subst rp) (simp add: takeWhile_map comp_def)
  then have idx: "length (takeWhile (\<lambda>x. x < q) ?rp) = length (takeWhile (\<lambda>a. fst a < fst (q, r)) (zip ?rp ?rs))"
    by simp
  have "zip (insert_at (length (takeWhile (\<lambda>x. x < q) ?rp)) q ?rp) (insert_at (length (takeWhile (\<lambda>x. x < q) ?rp)) r ?rs) =
      sort_key fst (rev (ads @ [(q, r)]))"
    unfolding insert_at_zip [OF len] idx insert_at_insort z by simp
  moreover have "q \<notin> cp_priority ` set ?ps \<Longrightarrow> filter (\<lambda>a. fst a = q) ads = []"
    unfolding set by (auto simp: filter_empty_conv)
  ultimately show ?thesis
    unfolding cluster_of_def Cluster_Add_eq [OF srt strict_sorted_imp_sorted [OF st] len] Let_def
    using group_add_sorted [OF st, of q r] group_add_remotes [OF st rem] len set by auto
qed

definition build_cluster :: "(int \<times> RemoteWithConfig) list \<Rightarrow> Cluster" where
  "build_cluster ads = foldl (\<lambda>cl a. Cluster_Add (fst a) (snd a) cl) NewCluster ads"

lemma cluster_of_build: "cluster_of ads (build_cluster ads)"
proof (induction ads rule: rev_induct)
  case Nil
  then show ?case by (simp add: build_cluster_def cluster_of_def NewCluster_def)
next
  case (snoc a ads)
  then show ?case using cluster_of_Add [of ads _ "fst a" "snd a"] by (simp add: build_cluster_def)
qed

section \<open>The order in which remotes are tried\<close>

text \<open>
  The specification of \<open>ServeRPC\<close>: a list of handlers is tried from the front until one of them
  decides the request.
\<close>

fun attempt :: "bool \<Rightarrow> 's handler list \<Rightarrow> request \<Rightarrow> Interceptor \<Rightarrow> 's \<Rightarrow> (reply + Interceptor) \<times> 's" where
  "attempt lastp [] r ic s = (Inr ic, s)"
| "attempt lastp (h # hs) r ic s =
     (case serve_icept h ic r s of
        (Panic m, s') \<Rightarrow> (Inl (Crash m), s')
      | (Err e, s') \<Rightarrow> (Inl (send_err e), s')
      | (Ok ic', s') \<Rightarrow>
          (case cluster_react (lastp \<and> hs = []) ic' of
             Some x \<Rightarrow> (Inl x, s')
           | None \<Rightarrow> attempt lastp hs r ic' s'))"

definition failover :: "'s handler list \<Rightarrow> 's handler" where
  "failover hs = (\<lambda>r s. case attempt True hs r Interceptor_zero s of
      (Inl x, s') \<Rightarrow> (x, s') | (Inr ic, s') \<Rightarrow> (Sends [], s'))"

text \<open>
  The order for one request: the groups by ascending priority, each group rotated by its round
  counter; the first handler of a group of several counts the round.
\<close>

fun counted :: "('s \<Rightarrow> 's) \<Rightarrow> 's handler list \<Rightarrow> 's handler list" where
  "counted f [] = []"
| "counted f (h # hs) = (\<lambda>r s. h r (f s)) # hs"

definition group_order :: "(handler_ref \<Rightarrow> 's handler) \<Rightarrow> ('s, Cluster) cell \<Rightarrow> Cluster \<Rightarrow> nat \<Rightarrow> 's handler list" where
  "group_order serve c cl i =
     (let p = cl_priorities cl ! i; hs = map (\<lambda>rem. serve (rw_Handler rem)) (cp_remotes p) in
      if 1 < length hs then counted (bump_round c i) (rotate (nat (cp_round p + 2)) hs) else hs)"

definition cluster_order :: "(handler_ref \<Rightarrow> 's handler) \<Rightarrow> ('s, Cluster) cell \<Rightarrow> Cluster \<Rightarrow> 's handler list" where
  "cluster_order serve c cl = concat (map (group_order serve c cl) [0..<length (cl_priorities cl)])"

text \<open>Every group has a remote, and no round counter is about to overflow.\<close>

definition cluster_ready :: "Cluster \<Rightarrow> bool" where
  "cluster_ready cl \<longleftrightarrow> (\<forall>p \<in> set (cl_priorities cl). cp_remotes p \<noteq> [] \<and> 0 \<le> cp_round p \<and>
     cp_round p + int (length (cp_remotes p)) + 1 < 2 ^ 63)"

lemma attempt_append:
  "hs' \<noteq> [] \<Longrightarrow> attempt lastp (hs @ hs') r ic s =
     (case attempt False hs r ic s of (Inl x, s') \<Rightarrow> (Inl x, s') | (Inr ic', s') \<Rightarrow> attempt lastp hs' r ic' s')"
  by (induction hs arbitrary: ic s) (simp_all split: prod.split outcome.split option.split)

lemma gomod_nonneg: "0 \<le> a \<Longrightarrow> 0 < b \<Longrightarrow> gomod a b = a mod b"
  by (simp add: gomod_def godiv_pos minus_mult_div_eq_mod)

lemma map_upt_Suc: "map f [0..<Suc n] = f 0 # map (\<lambda>k. f (Suc k)) [0..<n]"
  by (simp add: upt_conv_Cons map_Suc_upt [symmetric] comp_def del: upt_Suc)

lemma try_remotes_attempt:
  assumes "rs \<noteq> []"
  shows "0 \<le> j \<Longrightarrow> j + int n < 2 ^ 63 \<Longrightarrow>
     try_remotes serve lastp rs r j n ic s =
     attempt lastp (map (\<lambda>k. serve (rw_Handler (rs ! ((nat (j + 1) + k) mod length rs)))) [0..<n]) r ic s"
proof (induction n arbitrary: j ic s)
  case 0
  then show ?case by simp
next
  case (Suc n)
  have w: "wrap64 (j + 1) = j + 1" using Suc.prems by (simp add: in_i64_def)
  have "int (nat (j + 1) mod length rs) = (j + 1) mod int (length rs)"
    using Suc.prems(1) by (simp add: zmod_int)
  then have i: "gomod (j + 1) (int (length rs)) = int (nat (j + 1) mod length rs)"
    using Suc.prems(1) assms by (simp add: gomod_nonneg)
  have nx: "nat (j + 1) + Suc k = nat (j + 1 + 1) + k" for k using Suc.prems(1) by simp
  have IH: "try_remotes serve lastp rs r (j + 1) n ic' s' =
      attempt lastp (map (\<lambda>k. serve (rw_Handler (rs ! ((nat (j + 1) + Suc k) mod length rs)))) [0..<n]) r ic' s'" for ic' s'
    unfolding nx using Suc.IH [of "j + 1"] Suc.prems by simp
  have e: "map (\<lambda>k. serve (rw_Handler (rs ! ((nat (j + 1) + Suc k) mod length rs)))) [0..<n] = [] \<longleftrightarrow> n = 0"
    by simp
  show ?case
    unfolding map_upt_Suc try_remotes.simps Let_def w i attempt.simps IH e
    by (simp split: prod.split outcome.split option.split)
qed

lemma map_rotate_index:
  assumes "rs \<noteq> []"
  shows "map (\<lambda>k. f (rs ! ((m + k) mod length rs))) [0..<length rs] = rotate m (map f rs)"
  by (rule nth_equalityI) (use assms in \<open>auto simp: nth_rotate mod_less_divisor\<close>)

lemma attempt_keeps:
  "(\<And>h. h \<in> set hs \<Longrightarrow> keeps_cell c h) \<Longrightarrow> rd c (snd (attempt lastp hs r ic s)) = rd c s"
proof (induction hs arbitrary: ic s)
  case Nil
  then show ?case by simp
next
  case (Cons h hs)
  obtain x s' where x: "serve_icept h ic r s = (x, s')" by fastforce
  have "rd c s' = rd c s"
    using Cons.prems [of h] serve_icept_state [OF x] by (simp add: keeps_cell_def)
  then show ?case using Cons.IH Cons.prems by (simp add: x split: outcome.split option.split)
qed

lemma attempt_counted: "hs \<noteq> [] \<Longrightarrow> attempt lastp (counted f hs) r ic s = attempt lastp hs r ic (f s)"
  by (cases hs) (simp_all add: serve_icept_def)

text \<open>One group: the inner loop is an attempt over the rotated group.\<close>

lemma group_attempt:
  assumes c: "mem_cell c" and p: "cl_priorities (rd c s) ! i = p" "i < length (cl_priorities (rd c s))"
    and r: "cp_remotes p \<noteq> []" "0 \<le> cp_round p" "cp_round p + int (length (cp_remotes p)) + 1 < 2 ^ 63"
    and cl: "cl_priorities cl ! i = p"
  defines "s1 \<equiv> (if 1 < length (cp_remotes p) then bump_round c i s else s)"
  shows "try_remotes serve lastp (cp_remotes p) rq (if 1 < length (cp_remotes p) then cp_round (cl_priorities (rd c s1) ! i) else 0)
      (length (cp_remotes p)) ic s1 = attempt lastp (group_order serve c cl i) rq ic s"
proof -
  let ?rs = "cp_remotes p" and ?f = "\<lambda>rem. serve (rw_Handler rem)"
  show ?thesis
  proof (cases "1 < length ?rs")
    case True
    have "cp_round (cl_priorities (rd c s1) ! i) = cp_round p + 1"
      using p r True c by (simp add: s1_def bump_round_def mem_cell.rd_upd in_i64_def)
    moreover have "try_remotes serve lastp ?rs rq (cp_round p + 1) (length ?rs) ic s1 =
        attempt lastp (rotate (nat (cp_round p + 2)) (map ?f ?rs)) rq ic s1"
      using try_remotes_attempt [OF r(1), of "cp_round p + 1" "length ?rs" serve lastp rq ic s1] r(2,3)
        map_rotate_index [OF r(1), of ?f "nat (cp_round p + 1 + 1)"]
      by (simp add: add.commute)
    ultimately show ?thesis
      using True r(1) cl attempt_counted [of "rotate (nat (cp_round p + 2)) (map ?f ?rs)" lastp]
      by (simp add: group_order_def s1_def Let_def)
  next
    case False
    then have "length ?rs = 1" using r(1) by (cases ?rs) auto
    then show ?thesis
      using False try_remotes_attempt [OF r(1), of 0 1 serve lastp rq ic s] cl
      by (cases ?rs) (simp_all add: s1_def group_order_def Let_def)
  qed
qed

lemma counted_empty [simp]: "counted f hs = [] \<longleftrightarrow> hs = []"
  by (cases hs) auto

lemma group_order_nonempty: "cp_remotes (cl_priorities cl ! i) \<noteq> [] \<Longrightarrow> group_order serve c cl i \<noteq> []"
  by (simp add: group_order_def Let_def)

lemma group_attempt_keeps:
  assumes c: "mem_cell c" and k: "\<And>h. keeps_cell c (serve h)"
  shows "\<exists>p. cl_priorities (rd c (snd (attempt lastp (group_order serve c cl i) rq ic s))) = (cl_priorities (rd c s))[i := p]"
proof -
  let ?hs = "map (\<lambda>rem. serve (rw_Handler rem)) (cp_remotes (cl_priorities cl ! i))"
  have keep: "rd c (snd (attempt lastp hs rq ic s')) = rd c s'" if "set hs \<subseteq> range serve" for hs s'
    by (rule attempt_keeps) (use k that in auto)
  show ?thesis
  proof (cases "1 < length ?hs")
    case True
    let ?rot = "rotate (nat (cp_round (cl_priorities cl ! i) + 2)) ?hs"
    have "?rot \<noteq> []" using True by auto
    then have "attempt lastp (group_order serve c cl i) rq ic s = attempt lastp ?rot rq ic (bump_round c i s)"
      using True attempt_counted [of ?rot lastp "bump_round c i" rq ic s] by (simp add: group_order_def Let_def)
    moreover have "set ?rot \<subseteq> range serve" by auto
    ultimately show ?thesis using c keep by (auto simp: bump_round_def mem_cell.rd_upd)
  next
    case False
    moreover have "set ?hs \<subseteq> range serve" by auto
    ultimately show ?thesis using keep [of ?hs] by (simp add: group_order_def Let_def) (metis list_update_id)
  qed
qed

lemma try_priorities_order:
  assumes c: "mem_cell c" and k: "\<And>h. keeps_cell c (serve h)" and ready: "cluster_ready cl"
    and n: "n = length (cl_priorities cl)"
  shows "length (cl_priorities (rd c s)) = n \<Longrightarrow> \<forall>k < n. i \<le> k \<longrightarrow> cl_priorities (rd c s) ! k = cl_priorities cl ! k \<Longrightarrow>
     try_priorities serve c [i..<n] rq ic s =
     (case attempt True (concat (map (group_order serve c cl) [i..<n])) rq ic s of
        (Inl x, s') \<Rightarrow> (x, s') | (Inr ic', s') \<Rightarrow> (Sends [], s'))"
proof (induction "n - i" arbitrary: i ic s)
  case 0
  then show ?case by simp
next
  case (Suc m)
  let ?g = "group_order serve c cl" and ?p = "cl_priorities cl ! i"
  have i: "i < n" and up: "[i..<n] = i # [Suc i..<n]" using Suc.hyps(2) by (auto simp: upt_conv_Cons)
  have rem: "cp_remotes (cl_priorities cl ! l) \<noteq> []" if "l < n" for l
    using ready that n by (simp add: cluster_ready_def)
  have p: "cl_priorities (rd c s) ! i = ?p" using Suc.prems i by simp
  have r: "0 \<le> cp_round ?p" "cp_round ?p + int (length (cp_remotes ?p)) + 1 < 2 ^ 63"
    using ready i n by (auto simp: cluster_ready_def)
  have len: "i < length (cl_priorities (rd c s))" using i Suc.prems(1) by simp
  let ?a = "attempt (i + 1 = n) (?g i) rq ic s"
  have step: "try_priorities serve c [i..<n] rq ic s =
      (case ?a of (Inl x, s') \<Rightarrow> (x, s') | (Inr ic', s') \<Rightarrow> try_priorities serve c [Suc i..<n] rq ic' s')"
    unfolding up try_priorities.simps p Let_def Suc.prems(1)
    using group_attempt [OF c p len rem [OF i] r refl, of serve "i + 1 = n" rq ic] by simp
  show ?case
  proof (cases "i + 1 = n")
    case True
    then show ?thesis using step by (simp add: up split: prod.split sum.split)
  next
    case False
    have "?g (Suc i) \<noteq> []" using rem False i by (intro group_order_nonempty) auto
    then have ne: "concat (map ?g [Suc i..<n]) \<noteq> []" using False i by (simp add: upt_conv_Cons)
    obtain q where q: "cl_priorities (rd c (snd ?a)) = (cl_priorities (rd c s))[i := q]"
      using group_attempt_keeps [where serve = serve, OF c k] by blast
    have "try_priorities serve c [Suc i..<n] rq ic' s' =
       (case attempt True (concat (map ?g [Suc i..<n])) rq ic' s' of
          (Inl x, s') \<Rightarrow> (x, s') | (Inr ic', s') \<Rightarrow> (Sends [], s'))" if "?a = (Inr ic', s')" for ic' s'
      using Suc.hyps(1) [of "Suc i" s' ic'] Suc.hyps(2) Suc.prems q that by simp
    then show ?thesis
      unfolding step using False attempt_append [OF ne, of True "?g i" rq ic s]
      by (simp add: up split: prod.split sum.split)
  qed
qed

lemma serve_failover:
  assumes "mem_cell c" and "\<And>h. keeps_cell c (serve h)" and "cluster_ready (rd c s)"
  shows "Cluster_ServeRPC serve c r s = failover (cluster_order serve c (rd c s)) r s"
  unfolding Cluster_ServeRPC_def failover_def cluster_order_def
  by (rule try_priorities_order [OF assms refl]) simp_all

section \<open>Which reply decides\<close>

text \<open>The remotes in the order of one request.\<close>

definition try_group :: "clustererPriority \<Rightarrow> RemoteWithConfig list" where
  "try_group p = rotate (if 1 < length (cp_remotes p) then nat (cp_round p + 2) else 0) (cp_remotes p)"

definition try_order :: "Cluster \<Rightarrow> RemoteWithConfig list" where
  "try_order cl = concat (map try_group (cl_priorities cl))"

text \<open>An answer that ends the search wherever it occurs: a result, or an error of the user.\<close>

fun decisive :: "send \<Rightarrow> bool" where
  "decisive (v, None) = (v \<noteq> ANil)"
| "decisive (v, Some e) = IsUserError (Some e)"

text \<open>The reply to a client, given the answers of the remotes in the order in which they are tried.\<close>

definition cluster_reply :: "send list \<Rightarrow> reply" where
  "cluster_reply as =
     (case find decisive as of
        Some (v, None) \<Rightarrow> send_ok v
      | Some (v, Some e) \<Rightarrow> send_err e
      | None \<Rightarrow>
          if as = [] then Sends []
          else (case last as of
                  (v, None) \<Rightarrow> Sends []
                | (v, Some e) \<Rightarrow> if errors_Is e ErrHeadOld then send_ok v else send_err e))"

definition answers :: "request \<Rightarrow> 's handler \<Rightarrow> send \<Rightarrow> bool" where
  "answers r h a \<longleftrightarrow> (\<forall>s. fst (h r s) = Sends [a])"

lemma serve_icept_answers:
  "answers r h a \<Longrightarrow> serve_icept h ic r s = (Ok \<lparr>ic_Result = fst a, ic_Error = snd a\<rparr>, snd (h r s))"
  by (simp add: answers_def serve_icept_eq)

lemma attempt_answers:
  "list_all2 (answers r) hs as \<Longrightarrow>
   (case fst (attempt True hs r ic s) of Inl x \<Rightarrow> x | Inr _ \<Rightarrow> Sends []) = cluster_reply as"
proof (induction hs as arbitrary: ic s rule: list_all2_induct)
  case Nil
  then show ?case by (simp add: cluster_reply_def)
next
  case (Cons h hs a as)
  obtain v e where a: "a = (v, e)" by fastforce
  have "hs = [] \<longleftrightarrow> as = []" using Cons.hyps(2) by auto
  then show ?case
    using Cons.IH serve_icept_answers [OF Cons.hyps(1), of ic s]
    by (cases e) (auto simp: a cluster_react_def cluster_reply_def split: option.split)
qed

text \<open>A relation between handlers and remotes that counting a round does not disturb extends to the whole order.\<close>

lemma list_all2_counted:
  "list_all2 R hs xs \<Longrightarrow> (\<And>h x. R h x \<Longrightarrow> R (\<lambda>r s. h r (f s)) x) \<Longrightarrow> list_all2 R (counted f hs) xs"
  by (cases hs) (auto simp: list_all2_Cons1)

lemma cluster_order_related:
  assumes "\<And>x. R (serve (rw_Handler x)) x" and "\<And>h x k. R h x \<Longrightarrow> R (\<lambda>r s. h r (bump_round c k s)) x"
  shows "list_all2 R (cluster_order serve c cl) (try_order cl)"
proof -
  let ?g = "group_order serve c cl" and ?h = "\<lambda>x. serve (rw_Handler x)"
  have base: "list_all2 R (map ?h xs) xs" for xs
    by (simp add: list_all2_conv_all_nth assms(1))
  have grp: "list_all2 R (?g i) (try_group (cl_priorities cl ! i))" for i
    using base [of "rotate n (cp_remotes (cl_priorities cl ! i))" for n] base [of "cp_remotes (cl_priorities cl ! i)"]
    by (simp add: group_order_def try_group_def Let_def rotate_map [symmetric] list_all2_counted assms(2))
  have all: "list_all2 R (concat (map ?g is)) (concat (map (\<lambda>i. try_group (cl_priorities cl ! i)) is))" for "is"
    by (induction "is") (simp_all add: list_all2_appendI [OF grp])
  have idx: "map (\<lambda>i. try_group (cl_priorities cl ! i)) [0..<length (cl_priorities cl)] = map try_group (cl_priorities cl)"
    by (rule nth_equalityI) simp_all
  show ?thesis
    using all [of "[0..<length (cl_priorities cl)]"] unfolding idx by (simp add: cluster_order_def try_order_def)
qed

lemma cluster_order_answers:
  assumes "\<And>h. answers r (serve h) (ans h)"
  shows "list_all2 (answers r) (cluster_order serve c cl) (map (\<lambda>x. ans (rw_Handler x)) (try_order cl))"
  unfolding list_all2_map2 by (rule cluster_order_related) (use assms in \<open>simp_all add: answers_def\<close>)

lemma serve_cluster_reply:
  assumes "mem_cell c" and "cluster_ready (rd c s)" and "\<And>h. keeps_cell c (serve h)"
    and "\<And>h. answers r (serve h) (ans h)"
  shows "fst (Cluster_ServeRPC serve c r s) = cluster_reply (map (\<lambda>x. ans (rw_Handler x)) (try_order (rd c s)))"
  using attempt_answers [OF cluster_order_answers [where serve = serve and c = c and cl = "rd c s", OF assms(4)],
      of Interceptor_zero s]
  unfolding serve_failover [where serve = serve, OF assms(1,3,2)] failover_def
  by (simp add: split_beta split: prod.splits sum.splits)

lemma mset_rotated: "mset (rotate n xs) = mset xs"
proof (induction n)
  case (Suc n)
  then show ?case by (cases "rotate n xs") simp_all
qed simp

lemma mset_try_order: "mset (try_order cl) = mset (concat (map cp_remotes (cl_priorities cl)))"
proof -
  have "mset (try_group p) = mset (cp_remotes p)" for p by (simp add: try_group_def mset_rotated)
  then have "mset (concat (map try_group ps)) = mset (concat (map cp_remotes ps))" for ps
    by (induction ps) simp_all
  then show ?thesis by (simp add: try_order_def)
qed

lemma try_remotes_keeps:
  "(\<And>h. keeps_cell c (serve h)) \<Longrightarrow> rd c (snd (try_remotes serve lastp rs r j n ic s)) = rd c s"
proof (induction n arbitrary: j ic s)
  case 0
  then show ?case by simp
next
  case (Suc n)
  let ?h = "serve (rw_Handler (rs ! nat (gomod (wrap64 (j + 1)) (int (length rs)))))"
  obtain x s' where x: "serve_icept ?h ic r s = (x, s')" by fastforce
  have "rd c s' = rd c s"
    using Suc.prems serve_icept_state [OF x] by (simp add: keeps_cell_def)
  then show ?case using Suc.IH Suc.prems by (simp add: x Let_def split: outcome.split option.split)
qed

lemma bump_round_priorities:
  "mem_cell c \<Longrightarrow> cl_priorities (rd c (bump_round c i s)) = (cl_priorities (rd c s))[i :=
     (cl_priorities (rd c s) ! i)\<lparr>cp_round := wrap64 (cp_round (cl_priorities (rd c s) ! i) + 1)\<rparr>]"
  by (simp add: bump_round_def mem_cell.rd_upd)

text \<open>A request changes no round counter but those of the groups it reaches.\<close>

lemma try_priorities_others:
  assumes c: "mem_cell c" and k: "\<And>h. keeps_cell c (serve h)"
  shows "l \<notin> set is \<Longrightarrow>
     cl_priorities (rd c (snd (try_priorities serve c is r ic s))) ! l = cl_priorities (rd c s) ! l"
proof (induction "is" arbitrary: ic s)
  case Nil
  then show ?case by simp
next
  case (Cons i "is")
  note try_keeps = try_remotes_keeps [where serve = serve, OF k]
  let ?rs = "cp_remotes (cl_priorities (rd c s) ! i)"
  let ?s1 = "if 1 < length ?rs then bump_round c i s else s"
  let ?j = "if 1 < length ?rs then cp_round (cl_priorities (rd c ?s1) ! i) else 0"
  let ?l = "i + 1 = length (cl_priorities (rd c s))"
  obtain x s' where x: "try_remotes serve ?l ?rs r ?j (length ?rs) ic ?s1 = (x, s')" by fastforce
  have "rd c s' = rd c ?s1" using try_keeps [of ?l ?rs r ?j "length ?rs" ic ?s1] by (simp only: x snd_conv)
  then have "cl_priorities (rd c s') ! l = cl_priorities (rd c s) ! l"
    using Cons.prems c by (simp add: bump_round_priorities)
  then show ?case
    using Cons.IH Cons.prems unfolding try_priorities.simps Let_def x by (simp split: sum.split)
qed

lemma first_group_round:
  assumes c: "mem_cell c" and k: "\<And>h. keeps_cell c (serve h)"
    and p: "cl_priorities (rd c s) = p # ps" "1 < length (cp_remotes p)"
  shows "cp_round (cl_priorities (rd c (snd (Cluster_ServeRPC serve c r s))) ! 0) = wrap64 (cp_round p + 1)"
proof -
  note try_keeps = try_remotes_keeps [where serve = serve, OF k]
  let ?s1 = "bump_round c 0 s" and ?l = "0 + 1 = length (cl_priorities (rd c s))"
  let ?j = "cp_round (cl_priorities (rd c ?s1) ! 0)" and ?n = "length (cl_priorities (rd c s))"
  obtain x s' where x: "try_remotes serve ?l (cp_remotes p) r ?j (length (cp_remotes p)) Interceptor_zero ?s1 = (x, s')"
    by fastforce
  have "rd c s' = rd c ?s1"
    using try_keeps [of ?l "cp_remotes p" r ?j "length (cp_remotes p)" Interceptor_zero ?s1] by (simp only: x snd_conv)
  then have "cp_round (cl_priorities (rd c s') ! 0) = wrap64 (cp_round p + 1)"
    using c p by (simp add: bump_round_priorities)
  moreover have "Cluster_ServeRPC serve c r s =
      (case x of Inl y \<Rightarrow> (y, s') | Inr ic \<Rightarrow> try_priorities serve c [Suc 0..<?n] r ic s')"
    using x p by (simp add: Cluster_ServeRPC_def upt_conv_Cons Let_def del: upt_Suc split: sum.split)
  moreover have "cl_priorities (rd c (snd (try_priorities serve c [Suc 0..<?n] r ic s'))) ! 0 = cl_priorities (rd c s') ! 0" for ic
    by (rule try_priorities_others [where serve = serve, OF c k]) simp
  ultimately show ?thesis by (cases x) simp_all
qed

section \<open>Properties\<close>

text \<open>
  C5: Whatever remotes are added in whatever order, the groups of a cluster are sorted by strictly
  ascending priority, each group holds the remotes of its priority in the order in which they were
  added, and the flat list of remotes is sorted by priority.
\<close>

theorem cluster_add_sorts:
  "sorted_wrt (<) (map cp_priority (cl_priorities (build_cluster ads))) \<and>
   map (\<lambda>p. (cp_priority p, cp_remotes p)) (cl_priorities (build_cluster ads)) =
     map (\<lambda>q. (q, map snd (filter (\<lambda>a. fst a = q) ads))) (sorted_list_of_set (fst ` set ads)) \<and>
   Cluster_Remotes (build_cluster ads) = map snd (sort_key fst (rev ads))"
proof -
  let ?cl = "build_cluster ads"
  note b = cluster_of_build [of ads, unfolded cluster_of_def]
  have "map cp_priority (cl_priorities ?cl) = sorted_list_of_set (fst ` set ads)"
    using b sorted_list_of_set.idem_if_sorted_distinct [of "map cp_priority (cl_priorities ?cl)"]
    by (simp add: strict_sorted_iff)
  moreover have "map (\<lambda>p. (cp_priority p, cp_remotes p)) (cl_priorities ?cl) =
      map (\<lambda>q. (q, map snd (filter (\<lambda>a. fst a = q) ads))) (map cp_priority (cl_priorities ?cl))"
    using b by simp
  moreover have "map snd (zip (cl_remotePriority ?cl) (cl_remotes ?cl)) = cl_remotes ?cl"
    using b by (intro map_snd_zip) simp
  ultimately show ?thesis using b by (simp add: Cluster_Remotes_def)
qed

definition demo_remotes :: "(int \<times> RemoteWithConfig) list" where
  "demo_remotes = [(1, NewRemoteWithConfig 7 Remote_zero), (0, NewRemoteWithConfig 3 Remote_zero),
     (0, NewRemoteWithConfig 4 Remote_zero)]"

definition demo_answer :: "handler_ref \<Rightarrow> send" where
  "demo_answer h = (if h = 4 then (AString ''ok'', None) else (ANil, Some (ErrorText ''connection refused'')))"

definition demo_serve :: "handler_ref \<Rightarrow> Cluster handler" where
  "demo_serve h = (\<lambda>r s. (Sends [demo_answer h], s))"

lemma demo_build: "build_cluster demo_remotes =
   \<lparr>cl_priorities = [\<lparr>cp_priority = 0, cp_remotes = [NewRemoteWithConfig 3 Remote_zero, NewRemoteWithConfig 4 Remote_zero],
                      cp_round = 0\<rparr>,
                     \<lparr>cp_priority = 1, cp_remotes = [NewRemoteWithConfig 7 Remote_zero], cp_round = 0\<rparr>],
    cl_remotes = [NewRemoteWithConfig 4 Remote_zero, NewRemoteWithConfig 3 Remote_zero, NewRemoteWithConfig 7 Remote_zero],
    cl_remotePriority = [0, 0, 1]\<rparr>"
  by code_simp

lemma demo_ok: "keeps_cell own_cell (demo_serve h)" "answers r (demo_serve h) (demo_answer h)"
    "cluster_ready (rd own_cell (build_cluster demo_remotes))"
  by (simp_all add: keeps_cell_def answers_def demo_serve_def cluster_ready_def own_cell_def demo_build)

text \<open>
  C3: The client gets the first result that a remote returns, or the first error that the user
  caused. If there is none it gets the last remote's answer: its error, or its data without an error
  when the error was that the head is old. It gets no response at all when there are no remotes
  or the last one sent neither a result nor an error.
\<close>

theorem cluster_reply_decides:
  assumes "mem_cell c" and "cluster_ready (rd c s)" and "\<And>h. keeps_cell c (serve h)"
    and "\<And>h. answers r (serve h) (ans h)"
  shows "fst (Cluster_ServeRPC serve c r s) = cluster_reply (map (\<lambda>x. ans (rw_Handler x)) (try_order (rd c s)))"
  using assms by (rule serve_cluster_reply)

theorem cluster_reply_decides_witness:
  "fst (Cluster_ServeRPC demo_serve own_cell (NewRequest Background ''eth_call'' (JArr [])) (build_cluster demo_remotes)) =
   send_ok (AString ''ok'')"
  by (subst cluster_reply_decides [where serve = demo_serve and ans = demo_answer, OF own_cell_ok demo_ok(3,1,2)])
    (simp add: cluster_reply_def try_order_def try_group_def own_cell_def demo_build demo_answer_def
      NewRemoteWithConfig_def rotate_Suc eval_nat_numeral)

end
