(* ===== verification/Venn_Remote.thy ===== *)
theory Venn_Remote
  imports Venn_Cluster "HOL-Library.List_Lexorder" "HOL-Library.Char_ord"
begin

text \<open>
  The smaller middlewares of \<open>lib/callcenter\<close>: the method filter, the rate limiter, the
  \<open>input\<close>/\<open>data\<close> mirror for \<open>eth_call\<close>, the collector of request statistics, the logger, the
  proxy that owns the connection to the remote, and the socket pool of the gateway's proxy. The
  token bucket, the rolling windows and the connections are libraries: their operations are
  parameters.
\<close>

section \<open>Filterer (filterer.go)\<close>

record Filterer =
  ft_methods :: "string \<rightharpoonup> bool"

definition NewFilterer :: "(string \<rightharpoonup> bool) \<Rightarrow> Filterer" where
  "NewFilterer methods = \<lparr>ft_methods = methods\<rparr>"

definition Filterer_Middleware :: "Filterer \<Rightarrow> 's middleware" where
  "Filterer_Middleware t next = (\<lambda>r s.
     if ft_methods t (rq_Method r) = Some False then (send_err (Sentinel ErrMethodNotAllowed), s)
     else next r s)"

section \<open>Ratelimiter (ratelimiter.go)\<close>

text \<open>\<open>allow\<close> is \<open>limiter.Allow()\<close>, which takes a token when there is one.\<close>

definition Ratelimiter_Middleware :: "('s \<Rightarrow> bool \<times> 's) \<Rightarrow> 's middleware" where
  "Ratelimiter_Middleware allow next = (\<lambda>r s.
     case allow s of (ok, s1) \<Rightarrow>
       if \<not> ok then (send_err (Sentinel ErrRatelimited), s1) else next r s1)"

section \<open>InputData (inputData.go)\<close>

text \<open>
  An object decoded into a Go map keeps the last of several equal keys; a Go map is encoded with
  its keys in ascending order. The map is the list of its members in this order.
\<close>

definition gomap_of :: "(string \<times> json) list \<Rightarrow> (string \<times> json) list" where
  "gomap_of fs = map (\<lambda>k. (k, the (map_of (rev fs) k))) (sort (remdups (map fst fs)))"

definition gomap_put :: "string \<Rightarrow> json \<Rightarrow> (string \<times> json) list \<Rightarrow> (string \<times> json) list" where
  "gomap_put k v m = gomap_of (m @ [(k, v)])"

fun dec_map :: "json \<Rightarrow> (string \<times> json) list outcome" where
  "dec_map (JObj fs) = Ok (gomap_of fs)"
| "dec_map JNull = Ok []"
| "dec_map _ = Err json_type_error"

definition mirror_call :: "(string \<times> json) list \<Rightarrow> (string \<times> json) list option" where
  "mirror_call call =
     (case (map_of call ''input'', map_of call ''data'') of
        (Some i, None) \<Rightarrow> Some (gomap_put ''data'' i call)
      | (None, Some d) \<Rightarrow> Some (gomap_put ''input'' d call)
      | _ \<Rightarrow> None)"

text \<open>
  What the middleware makes of a request, in place: the request that it passes on is the one that its
  callers hold when it returns.
\<close>

definition InputData_rewrite :: "request \<Rightarrow> request outcome" where
  "InputData_rewrite r =
     (if rq_Method r = ''eth_call'' then
       (case unmarshal_raw dec_raws (rq_Params r) of
          Err e \<Rightarrow> Err (NewInvalidRequestError ''params must be an array'')
        | Panic m \<Rightarrow> Panic m
        | Ok params \<Rightarrow>
            if length params < 2 \<or> 3 < length params
            then Err (NewInvalidRequestError ''expected 2-3 parameters'')
            else
              (case dec_map (params ! 0) of
                 Err e \<Rightarrow> Err (NewInvalidRequestError ''expected first parameter to be an object'')
               | Panic m \<Rightarrow> Panic m
               | Ok call \<Rightarrow>
                   (case mirror_call call of
                      None \<Rightarrow> Ok r
                    | Some call' \<Rightarrow>
                        Ok (r\<lparr>rq_Params := RawDoc (JArr (JObj call' # params ! 1 #
                                 (if length params = 3 then [params ! 2] else [])))\<rparr>))))
     else Ok r)"

definition InputData_Middleware :: "'s middleware" where
  "InputData_Middleware next = (\<lambda>r s.
     case InputData_rewrite r of
       Err e \<Rightarrow> (send_err e, s)
     | Panic m \<Rightarrow> (Crash m, s)
     | Ok r' \<Rightarrow> next r' s)"

definition InputData_left :: "request \<Rightarrow> request" where
  "InputData_left r = (case InputData_rewrite r of Ok r' \<Rightarrow> r' | _ \<Rightarrow> r)"

section \<open>Collector (collector.go)\<close>

record 'w rolling =
  roll_Append :: "int \<Rightarrow> rat \<Rightarrow> 'w \<Rightarrow> 'w"
  roll_Sum :: "int \<Rightarrow> 'w \<Rightarrow> rat"
  roll_Count :: "int \<Rightarrow> 'w \<Rightarrow> rat"

record 'w Collector =
  co_chain :: string
  co_name :: string
  co_requestWindow :: 'w
  co_successWindow :: 'w
  co_latency :: "(string \<times> bool \<times> int) list"

definition NewCollector :: "'w \<Rightarrow> string \<Rightarrow> string \<Rightarrow> 'w Collector" where
  "NewCollector window chain name =
     \<lparr>co_chain = chain, co_name = name, co_requestWindow = window, co_successWindow = window, co_latency = []\<rparr>"

definition Collector_request :: "'w rolling \<Rightarrow> int \<Rightarrow> 'w Collector \<Rightarrow> 'w Collector" where
  "Collector_request ops now t = t\<lparr>co_requestWindow := roll_Append ops now 1 (co_requestWindow t)\<rparr>"

text \<open>The deferred function: it runs after a panic too, with the interceptor still empty.\<close>

definition Collector_finish :: "'w rolling \<Rightarrow> int \<Rightarrow> int \<Rightarrow> string \<Rightarrow> gerror option \<Rightarrow> 'w Collector \<Rightarrow> 'w Collector" where
  "Collector_finish ops start now method err t =
     t\<lparr>co_successWindow := roll_Append ops now (if err = None then 1 else 0) (co_successWindow t),
       co_latency := co_latency t @ [(method, err = None, now - start)]\<rparr>"

definition Collector_Middleware :: "'w rolling \<Rightarrow> ('s \<Rightarrow> int) \<Rightarrow> ('s, 'w Collector) cell \<Rightarrow> 's middleware" where
  "Collector_Middleware ops clk c next = (\<lambda>r s.
     let s0 = upd c (Collector_request ops (clk s)) s in
     case serve_icept next Interceptor_zero r s0 of
       (Ok ic, s1) \<Rightarrow> (send_icept ic, upd c (Collector_finish ops (clk s) (clk s1) (rq_Method r) (ic_Error ic)) s1)
     | (Err e, s1) \<Rightarrow> (send_err e, s1)
     | (Panic m, s1) \<Rightarrow> (Crash m, upd c (Collector_finish ops (clk s) (clk s1) (rq_Method r) None) s1))"

definition Collector_GetRequestsPerMinute :: "'w rolling \<Rightarrow> int \<Rightarrow> 'w Collector \<Rightarrow> rat" where
  "Collector_GetRequestsPerMinute ops now t = roll_Sum ops now (co_requestWindow t)"

definition Collector_GetSuccessRate :: "'w rolling \<Rightarrow> int \<Rightarrow> 'w Collector \<Rightarrow> rat" where
  "Collector_GetSuccessRate ops now t =
     (let totalRequests = roll_Count ops now (co_requestWindow t) in
      if totalRequests = 0 then 100
      else roll_Sum ops now (co_successWindow t) / totalRequests * 100)"

definition Collector_GetChainName :: "'w Collector \<Rightarrow> string" where
  "Collector_GetChainName t = co_chain t"

section \<open>Logger (logger.go)\<close>

text \<open>
  The lines that were logged: method and parameters of each request that returned. It logs when the
  rest of the chain is done, so that it sees the parameters the way that leaves them: \<open>left\<close> gives the
  request after \<open>next\<close> has served it.
\<close>

definition Logger_Middleware :: "('s, (string \<times> raw) list) cell \<Rightarrow> (request \<Rightarrow> request) \<Rightarrow> 's middleware" where
  "Logger_Middleware c left next = (\<lambda>r s.
     case next r s of
       (Sends xs, s1) \<Rightarrow> (Sends xs, upd c (\<lambda>l. l @ [(rq_Method r, rq_Params (left r))]) s1)
     | (Crash m, s1) \<Rightarrow> (Crash m, s1))"

section \<open>Proxier (proxier.go)\<close>

text \<open>
  The result that comes with an error is the nil raw message, which is encoded as null.
  The connection library: dialling (with the upgrade to subscriptions), whether a connection is
  closed, a call, and a subscription. \<open>Proxier_copy\<close> is the goroutine that a successful subscription
  starts.
\<close>

record ('s, 'conn) dialer =
  dl_connect :: "request \<Rightarrow> 's \<Rightarrow> 'conn outcome \<times> 's"
  dl_Closed :: "'conn \<Rightarrow> 's \<Rightarrow> bool"
  dl_Do :: "'conn \<Rightarrow> string \<Rightarrow> raw \<Rightarrow> 's \<Rightarrow> json outcome \<times> 's"
  dl_Subscribe :: "'conn \<Rightarrow> string \<Rightarrow> raw \<Rightarrow> 's \<Rightarrow> unit outcome \<times> 's"

definition trim_suffix :: "string \<Rightarrow> string \<Rightarrow> string" where
  "trim_suffix s suf = (if has_suffix s suf then take (length s - length suf) s else s)"

definition Proxier_subscribe :: "('s, 'conn) dialer \<Rightarrow> 'conn \<Rightarrow> 's handler" where
  "Proxier_subscribe ops conn = (\<lambda>r s.
     let pre = (if ctx_Notifier (rq_Ctx r) then [] else [(ANil, Some (Sentinel ErrNotificationsUnsupported))]) in
     case dl_Subscribe ops conn (trim_suffix (rq_Method r) ''_subscribe'') (rq_Params r) s of
       (Err e, s1) \<Rightarrow> (Sends (pre @ [(ANil, Some e)]), s1)
     | (Panic m, s1) \<Rightarrow> (Crash m, s1)
     | (Ok _, s1) \<Rightarrow> (Sends pre, s1))"

definition Proxier_forward :: "('s, 'conn) dialer \<Rightarrow> 'conn \<Rightarrow> 's handler" where
  "Proxier_forward ops conn = (\<lambda>r s.
     if has_suffix (rq_Method r) ''_subscribe'' then Proxier_subscribe ops conn r s
     else case dl_Do ops conn (rq_Method r) (rq_Params r) s of
            (Ok j, s1) \<Rightarrow> (Sends [(ANoCopy j, None)], s1)
          | (Err e, s1) \<Rightarrow> (Sends [(ANoCopy JNull, Some e)], s1)
          | (Panic m, s1) \<Rightarrow> (Crash m, s1))"

definition Proxier_ServeRPC :: "('s, 'conn) dialer \<Rightarrow> ('s, 'conn option) cell \<Rightarrow> 's handler" where
  "Proxier_ServeRPC ops c = (\<lambda>r s.
     case rd c s of
       Some conn \<Rightarrow>
         if \<not> dl_Closed ops conn s then Proxier_forward ops conn r s
         else (case dl_connect ops r s of
                 (Ok conn', s1) \<Rightarrow> Proxier_forward ops conn' r (wr c (Some conn') s1)
               | (Err e, s1) \<Rightarrow> (send_err e, wr c None s1)
               | (Panic m, s1) \<Rightarrow> (Crash m, s1))
     | None \<Rightarrow>
         (case dl_connect ops r s of
            (Ok conn', s1) \<Rightarrow> Proxier_forward ops conn' r (wr c (Some conn') s1)
          | (Err e, s1) \<Rightarrow> (send_err e, wr c None s1)
          | (Panic m, s1) \<Rightarrow> (Crash m, s1)))"

text \<open>
  The goroutine that copies the notifications of a subscription: what its select yields is a
  notification, or that the subscription or the notifier has ended. \<open>notify\<close> is \<open>None\<close> when the client
  cannot be notified, where the first select dereferences the missing notifier. The deferred
  \<open>Unsubscribe\<close> runs however the goroutine ends; the result is \<open>None\<close> while it is running.
\<close>

datatype copy_event = CopyData json | CopySubEnded | CopyNotifierEnded

fun Proxier_copy :: "(json \<Rightarrow> 's \<Rightarrow> gerror option \<times> 's) option \<Rightarrow> ('s \<Rightarrow> 's) \<Rightarrow> copy_event list \<Rightarrow> 's \<Rightarrow> unit outcome option \<times> 's" where
  "Proxier_copy None unsubscribe events s = (Some (Panic ''nil pointer dereference''), unsubscribe s)"
| "Proxier_copy (Some notify) unsubscribe [] s = (None, s)"
| "Proxier_copy (Some notify) unsubscribe (CopyData data # events) s =
     (case notify data s of
        (None, s1) \<Rightarrow> Proxier_copy (Some notify) unsubscribe events s1
      | (Some e, s1) \<Rightarrow> (Some (Ok ()), unsubscribe s1))"
| "Proxier_copy (Some notify) unsubscribe (CopySubEnded # events) s = (Some (Ok ()), unsubscribe s)"
| "Proxier_copy (Some notify) unsubscribe (CopyNotifierEnded # events) s = (Some (Ok ()), unsubscribe s)"

definition Proxier_Close :: "('conn \<Rightarrow> 's \<Rightarrow> gerror option \<times> 's) \<Rightarrow> ('s, 'conn option) cell \<Rightarrow> 's \<Rightarrow> gerror option outcome \<times> 's" where
  "Proxier_Close close c s =
     (case rd c s of
        None \<Rightarrow> (Panic ''nil pointer dereference'', s)
      | Some conn \<Rightarrow> (case close conn s of (e, s1) \<Rightarrow> (Ok e, s1)))"

section \<open>The socket pool (hybridproxy.go)\<close>

record 'conn socketPool =
  sp_pool :: "nat \<rightharpoonup> 'conn"
  sp_size :: nat
  sp_nextId :: nat

definition newSocketPool :: "nat \<Rightarrow> 'conn socketPool" where
  "newSocketPool n = \<lparr>sp_pool = Map.empty, sp_size = n, sp_nextId = 0\<rparr>"

text \<open>One pass of the loop always returns: \<open>isClosed\<close> and \<open>dial\<close> are the websocket library.\<close>

definition socketPool_get :: "('conn \<Rightarrow> bool) \<Rightarrow> 'conn outcome \<Rightarrow> 'conn socketPool \<Rightarrow> (nat \<times> 'conn) outcome \<times> 'conn socketPool" where
  "socketPool_get isClosed dial p =
     (let i = (if sp_size p \<le> sp_nextId p then 0 else sp_nextId p);
          p0 = p\<lparr>sp_nextId := i\<rparr>;
          redial = (case dial of
              Ok conn \<Rightarrow> (Ok (i, conn), p0\<lparr>sp_pool := (sp_pool p0)(i \<mapsto> conn), sp_nextId := i + 1\<rparr>)
            | Err e \<Rightarrow> (Err e, p0)
            | Panic m \<Rightarrow> (Panic m, p0))
      in case sp_pool p i of
           Some conn \<Rightarrow> if \<not> isClosed conn then (Ok (i, conn), p0\<lparr>sp_nextId := i + 1\<rparr>) else redial
         | None \<Rightarrow> redial)"

text \<open>\<open>handleHttp\<close>: the result and the error are passed on as they are.\<close>

definition handleHttp :: "(string \<Rightarrow> raw \<Rightarrow> 's \<Rightarrow> json outcome \<times> 's) \<Rightarrow> 's handler" where
  "handleHttp conn_Do = (\<lambda>r s.
     case conn_Do (rq_Method r) (rq_Params r) s of
       (Ok j, s1) \<Rightarrow> (Sends [(ARaw j, None)], s1)
     | (Err e, s1) \<Rightarrow> (Sends [(ARaw JNull, Some e)], s1)
     | (Panic m, s1) \<Rightarrow> (Crash m, s1))"

section \<open>Lemmas\<close>

text \<open>
  While the client accepts them the notifications are copied in order, up to the first event that
  ends the subscription, and then the subscription is given up.
\<close>

fun copied :: "copy_event list \<Rightarrow> json list" where
  "copied (CopyData data # events) = data # copied events"
| "copied _ = []"

lemma proxier_copies:
  "Proxier_copy (Some (\<lambda>data s. (None, s @ [data]))) unsubscribe events s =
     (if list_all (\<lambda>e. \<exists>data. e = CopyData data) events then (None, s @ copied events)
      else (Some (Ok ()), unsubscribe (s @ copied events)))"
  by (induction events arbitrary: s rule: copied.induct) auto

text \<open>A subscription that was made for a client without notifications ends in a panic.\<close>

lemma proxier_copy_panics:
  assumes "\<not> ctx_Notifier (rq_Ctx r)" and "has_suffix (rq_Method r) ''_subscribe''"
    and "dl_Subscribe ops conn (trim_suffix (rq_Method r) ''_subscribe'') (rq_Params r) s = (Ok (), s1)"
  shows "Proxier_forward ops conn r s = (send_err (Sentinel ErrNotificationsUnsupported), s1) \<and>
     (\<exists>m. fst (Proxier_copy None unsubscribe events s1) = Some (Panic m))"
  using assms by (simp add: Proxier_forward_def Proxier_subscribe_def Let_def send_err_def)

lemma map_of_gomap_of: "map_of (gomap_of fs) k = map_of (rev fs) k"
proof -
  have "map_of (map (\<lambda>k. (k, f k)) ks) k = (if k \<in> set ks then Some (f k) else None)" for f :: "string \<Rightarrow> json" and ks
    by (induction ks) auto
  then have "map_of (gomap_of fs) k = (if k \<in> fst ` set fs then Some (the (map_of (rev fs) k)) else None)"
    by (simp add: gomap_of_def)
  moreover have "k \<in> fst ` set fs \<longleftrightarrow> map_of (rev fs) k \<noteq> None"
    by (metis dom_map_of_conv_image_fst domIff list.set_map rev_map set_rev)
  ultimately show ?thesis by auto
qed

lemma distinct_gomap_of: "distinct (map fst (gomap_of fs))" "sorted (map fst (gomap_of fs))"
  by (simp_all add: gomap_of_def comp_def)

lemma map_of_rev_distinct: "distinct (map fst m) \<Longrightarrow> map_of (rev m) = map_of m"
proof (induction m)
  case (Cons x m)
  then have "fst x \<notin> dom (map_of m)" by (simp add: dom_map_of_conv_image_fst)
  then show ?case using Cons by (cases x) (auto simp: map_add_def fun_eq_iff split: option.splits)
qed simp

lemma map_of_gomap_put:
  assumes "distinct (map fst m)"
  shows "map_of (gomap_put k v m) = (map_of m)(k \<mapsto> v)"
  using map_of_rev_distinct [OF assms] by (auto simp: gomap_put_def map_of_gomap_of fun_eq_iff)

lemma distinct_gomap_put: "distinct (map fst (gomap_put k v m))"
  by (simp only: gomap_put_def distinct_gomap_of)

text \<open>The first parameter of a forwarded call, decoded again.\<close>

definition call_fields :: "raw \<Rightarrow> string \<rightharpoonup> json" where
  "call_fields p = (case p of RawDoc (JArr (JObj fs # _)) \<Rightarrow> map_of (rev fs) | _ \<Rightarrow> Map.empty)"

lemma mirror_call_fields:
  assumes "distinct (map fst call)" and "mirror_call call = Some call'"
  shows "map_of call' ''input'' = map_of call' ''data'' \<and>
     map_of call' ''data'' = (case map_of call ''input'' of Some i \<Rightarrow> Some i | None \<Rightarrow> map_of call ''data'') \<and>
     (\<forall>k. k \<noteq> ''input'' \<and> k \<noteq> ''data'' \<longrightarrow> map_of call' k = map_of call k) \<and> distinct (map fst call')"
  using assms(2)
  by (auto simp: mirror_call_def map_of_gomap_put [OF assms(1)] distinct_gomap_put split: option.splits)

text \<open>
  The remotes of a cluster share one request in memory. Mirroring it a second time changes nothing,
  so that a remote that is tried after another one sends what it would have sent by itself.
\<close>

lemma input_data_idempotent:
  assumes "InputData_rewrite r = Ok r'"
  shows "InputData_rewrite r' = Ok r'" and "InputData_Middleware next (InputData_left r) s = InputData_Middleware next r s"
proof -
  show again: "InputData_rewrite r' = Ok r'"
  proof (cases "rq_Method r = ''eth_call''")
    case True
    then obtain params call where p: "unmarshal_raw dec_raws (rq_Params r) = Ok params" "\<not> (length params < 2 \<or> 3 < length params)"
        "dec_map (params ! 0) = Ok call"
      using assms by (auto simp: InputData_rewrite_def split: outcome.splits if_splits)
    show ?thesis
    proof (cases "mirror_call call")
      case None
      then show ?thesis using True p assms by (simp add: InputData_rewrite_def)
    next
      case (Some call')
      have "distinct (map fst call)" using p(3) by (cases "params ! 0") (auto simp: distinct_gomap_of)
      from mirror_call_fields [OF this Some] Some have "mirror_call (gomap_of call') = None"
        by (auto simp: mirror_call_def map_of_gomap_of map_of_rev_distinct split: option.splits)
      then show ?thesis using True p assms Some by (auto simp: InputData_rewrite_def)
    qed
  next
    case False
    then show ?thesis using assms by (auto simp: InputData_rewrite_def)
  qed
  then show "InputData_Middleware next (InputData_left r) s = InputData_Middleware next r s"
    using assms by (simp add: InputData_Middleware_def InputData_left_def)
qed

definition pool_inv :: "'conn socketPool \<Rightarrow> bool" where
  "pool_inv p \<longleftrightarrow> dom (sp_pool p) \<subseteq> {..<sp_size p} \<and> 0 < sp_size p"

lemma socketPool_get_inv: "pool_inv p \<Longrightarrow> pool_inv (snd (socketPool_get isClosed dial p))"
  by (auto simp: pool_inv_def socketPool_get_def Let_def split: option.splits outcome.splits)

lemma socketPool_get_result:
  "pool_inv p \<Longrightarrow> socketPool_get isClosed dial p = (Ok (i, conn), p') \<Longrightarrow>
   i < sp_size p \<and> i = (if sp_size p \<le> sp_nextId p then 0 else sp_nextId p) \<and> sp_pool p' i = Some conn \<and>
   sp_nextId p' = i + 1 \<and> (isClosed conn \<longrightarrow> dial = Ok conn)"
  by (auto simp: pool_inv_def socketPool_get_def Let_def split: option.splits outcome.splits if_splits)

section \<open>Properties\<close>

text \<open>
  An \<open>eth_call\<close> that carries its payload in only one of \<open>input\<close> and \<open>data\<close> is forwarded with
  the same payload in both and every other member of the call object unchanged; a call with both or
  with neither is forwarded as it is.
\<close>

theorem input_data_mirrors:
  assumes "rq_Method r = ''eth_call''" and "rq_Params r = RawDoc (JArr (JObj fs # block # rest))" and "length rest \<le> 1"
  shows "\<exists>p. InputData_Middleware next r s = next (r\<lparr>rq_Params := p\<rparr>) s \<and>
     call_fields p ''input'' = (case map_of (rev fs) ''input'' of Some i \<Rightarrow> Some i | None \<Rightarrow> map_of (rev fs) ''data'') \<and>
     call_fields p ''data'' = (case map_of (rev fs) ''data'' of Some d \<Rightarrow> Some d | None \<Rightarrow> map_of (rev fs) ''input'') \<and>
     (\<forall>k. k \<noteq> ''input'' \<and> k \<noteq> ''data'' \<longrightarrow> call_fields p k = map_of (rev fs) k)"
proof (cases "mirror_call (gomap_of fs)")
  case None
  then have "InputData_Middleware next r s = next r s"
    using assms by (simp add: InputData_Middleware_def InputData_rewrite_def)
  then have "InputData_Middleware next r s = next (r\<lparr>rq_Params := rq_Params r\<rparr>) s" by simp
  moreover have "call_fields (rq_Params r) = map_of (rev fs)" using assms by (simp add: call_fields_def)
  moreover have "map_of (rev fs) ''input'' = None \<longleftrightarrow> map_of (rev fs) ''data'' = None"
    using None by (auto simp: mirror_call_def map_of_gomap_of split: option.splits)
  ultimately show ?thesis by (intro exI [of _ "rq_Params r"]) (auto split: option.splits)
next
  case (Some call)
  let ?p = "RawDoc (JArr (JObj call # block # rest))"
  have "rest = [] \<or> (\<exists>x. rest = [x])" using assms(3) by (cases rest) auto
  then have "InputData_Middleware next r s = next (r\<lparr>rq_Params := ?p\<rparr>) s"
    using assms Some by (auto simp: InputData_Middleware_def InputData_rewrite_def)
  moreover have "call_fields ?p = map_of call"
    using mirror_call_fields [OF distinct_gomap_of(1) Some] by (simp add: call_fields_def map_of_rev_distinct)
  moreover have "map_of (rev fs) ''input'' = None \<or> map_of (rev fs) ''data'' = None"
    using Some by (auto simp: mirror_call_def map_of_gomap_of split: option.splits)
  moreover note mirror_call_fields [OF distinct_gomap_of(1) Some, unfolded map_of_gomap_of]
  ultimately show ?thesis by (intro exI [of _ ?p]) (auto split: option.splits)
qed

theorem input_data_mirrors_witness:
  "let r = NewRequest Background ''eth_call'' (JArr [JObj [(''data'', JStr ''0xab'')], JStr ''latest'']) in
   \<exists>p. InputData_Middleware (\<lambda>r s. (send_ok ANil, s)) r () = (send_ok ANil, ()) \<and>
       call_fields p ''input'' = Some (JStr ''0xab'') \<and> call_fields p ''data'' = Some (JStr ''0xab'')"
proof -
  let ?r = "NewRequest Background ''eth_call'' (JArr [JObj [(''data'', JStr ''0xab'')], JStr ''latest''])"
  have "rq_Method ?r = ''eth_call''"
    "rq_Params ?r = RawDoc (JArr (JObj [(''data'', JStr ''0xab'')] # JStr ''latest'' # []))"
    by (simp_all add: NewRequest_def)
  from input_data_mirrors [OF this, of "\<lambda>r s. (send_ok ANil, s)" "()"] show ?thesis
    by (auto simp: Let_def)
qed

text \<open>
  The socket pool hands out its slots in turn, never holds a connection outside its size, and
  returns a closed connection only when that is what it was just given by the dialler.
\<close>

theorem socket_pool_get_ok:
  assumes "pool_inv p" and "socketPool_get isClosed dial p = (Ok (i, conn), p')"
  shows "pool_inv p' \<and> i = (if sp_size p \<le> sp_nextId p then 0 else sp_nextId p) \<and> i < sp_size p \<and>
     sp_pool p' i = Some conn \<and> sp_nextId p' = i + 1 \<and> (isClosed conn \<longrightarrow> dial = Ok conn)"
proof -
  have "pool_inv p'" using socketPool_get_inv [OF assms(1), of isClosed dial] assms(2) by simp
  with socketPool_get_result [OF assms] show ?thesis by blast
qed

theorem socket_pool_get_ok_witness:
  "socketPool_get (\<lambda>x. x = 0) (Ok (7 :: int)) (newSocketPool 8) =
     (Ok (0, 7), (newSocketPool 8)\<lparr>sp_pool := [0 \<mapsto> 7], sp_nextId := 1\<rparr>) \<and>
   pool_inv ((newSocketPool 8)\<lparr>sp_pool := [0 \<mapsto> 7 :: int], sp_nextId := 1\<rparr>)"
proof -
  have g: "socketPool_get (\<lambda>x. x = 0) (Ok (7 :: int)) (newSocketPool 8) =
     (Ok (0, 7), (newSocketPool 8)\<lparr>sp_pool := [0 \<mapsto> 7], sp_nextId := 1\<rparr>)"
    by (simp add: socketPool_get_def newSocketPool_def Let_def)
  have "pool_inv (newSocketPool 8 :: int socketPool)" by (simp add: pool_inv_def newSocketPool_def)
  from socket_pool_get_ok [OF this g] g show ?thesis by blast
qed

end
