(* ===== verification/Venn_Headstore.thy ===== *)
theory Venn_Headstore
  imports Venn_Util
begin

text \<open>
  The head stores: the in-memory one (\<open>lib/stores/headstore/atomic.go\<close>) and the one that follows
  a Redis stream (\<open>svc/node/stores/headstores/redihead\<close>), with the contract both promise as a
  locale. A subscriber's channel has one slot, which is written only when it is empty; a closed
  channel is removed from the table.
\<close>

type_synonym subs = "string \<rightharpoonup> (nat \<rightharpoonup> u64 option)"

text \<open>The non-blocking send to every subscriber of a chain.\<close>

definition notify_subs :: "string \<Rightarrow> u64 \<Rightarrow> subs \<Rightarrow> subs" where
  "notify_subs chain head sub =
     (case sub chain of
        None \<Rightarrow> sub
      | Some va \<Rightarrow> sub(chain \<mapsto> (\<lambda>sid. case va sid of None \<Rightarrow> None | Some None \<Rightarrow> Some (Some head) | Some (Some h) \<Rightarrow> Some (Some h))))"

definition add_sub :: "string \<Rightarrow> nat \<Rightarrow> subs \<Rightarrow> subs" where
  "add_sub chain sid sub = sub(chain \<mapsto> (case sub chain of None \<Rightarrow> [sid \<mapsto> None] | Some va \<Rightarrow> va(sid \<mapsto> None)))"

definition remove_sub :: "string \<Rightarrow> nat \<Rightarrow> subs \<Rightarrow> subs" where
  "remove_sub chain sid sub =
     (case sub chain of
        None \<Rightarrow> sub
      | Some va \<Rightarrow> if va sid = None then sub else sub(chain \<mapsto> va(sid := None)))"

section \<open>Atomic\<close>

text \<open>The zero value of the struct has no \<open>heads\<close> map: reading it gives nothing.\<close>

record Atomic =
  at_heads :: "(string \<rightharpoonup> u64) option"
  at_subs :: subs
  at_next :: nat

definition NewAtomic :: Atomic where
  "NewAtomic = \<lparr>at_heads = None, at_subs = Map.empty, at_next = 0\<rparr>"

definition Atomic_Get :: "string \<Rightarrow> Atomic \<Rightarrow> u64" where
  "Atomic_Get chain t =
     (case at_heads t of
        None \<Rightarrow> 0
      | Some m \<Rightarrow> (case m chain of None \<Rightarrow> 0 | Some v \<Rightarrow> v))"

definition Atomic_Put :: "string \<Rightarrow> u64 \<Rightarrow> Atomic \<Rightarrow> u64 outcome \<times> Atomic" where
  "Atomic_Put chain head t =
     (let cur = Atomic_Get chain t in
      if head \<le> cur then (Ok cur, t)
      else
        let t1 = t\<lparr>at_subs := notify_subs chain head (at_subs t)\<rparr> in
        case at_heads t of
          None \<Rightarrow> (Panic ''assignment to entry in nil map'', t1)
        | Some m \<Rightarrow> (Ok cur, t1\<lparr>at_heads := Some (m(chain \<mapsto> head))\<rparr>))"

definition Atomic_On :: "string \<Rightarrow> Atomic \<Rightarrow> nat \<times> Atomic" where
  "Atomic_On chain t =
     (at_next t, t\<lparr>at_next := at_next t + 1, at_subs := add_sub chain (at_next t) (at_subs t)\<rparr>)"

definition Atomic_cancel :: "string \<Rightarrow> nat \<Rightarrow> Atomic \<Rightarrow> Atomic" where
  "Atomic_cancel chain sid t = t\<lparr>at_subs := remove_sub chain sid (at_subs t)\<rparr>"

section \<open>Redihead\<close>

record Head =
  hd_Value :: u64
  hd_Chain :: string

record Redihead =
  rh_head :: "string \<rightharpoonup> u64"
  rh_subs :: subs
  rh_next :: nat

definition NewRedihead :: Redihead where
  "NewRedihead = \<lparr>rh_head = Map.empty, rh_subs = Map.empty, rh_next = 0\<rparr>"

definition Redihead_Get :: "string \<Rightarrow> Redihead \<Rightarrow> u64" where
  "Redihead_Get chain t = (case rh_head t chain of None \<Rightarrow> 0 | Some v \<Rightarrow> v)"

text \<open>\<open>add\<close> is \<open>stream.Add\<close>, with \<open>'w\<close> the world outside the process.\<close>

definition Redihead_Put :: "(Head \<Rightarrow> 'w \<Rightarrow> unit outcome \<times> 'w) \<Rightarrow> string \<Rightarrow> u64 \<Rightarrow> Redihead \<times> 'w
    \<Rightarrow> u64 outcome \<times> Redihead \<times> 'w" where
  "Redihead_Put add chain head = (\<lambda>(t, w).
     let was = Redihead_Get chain t in
     case add \<lparr>hd_Value = head, hd_Chain = chain\<rparr> w of
       (Ok _, w') \<Rightarrow> (Ok was, t, w')
     | (Err e, w') \<Rightarrow> (Err e, t, w')
     | (Panic m, w') \<Rightarrow> (Panic m, t, w'))"

definition Redihead_setHead :: "string \<Rightarrow> u64 \<Rightarrow> Redihead \<Rightarrow> Redihead" where
  "Redihead_setHead chainName head t =
     (if head \<le> Redihead_Get chainName t then t
      else t\<lparr>rh_head := (rh_head t)(chainName \<mapsto> head), rh_subs := notify_subs chainName head (rh_subs t)\<rparr>)"

text \<open>
  One run of the consumer: the newest message of the stream, if it could be read, and then the
  messages the consumer delivers until its context ends; a message that could not be decoded is
  skipped.
\<close>

fun Redihead_consume :: "Head outcome list \<Rightarrow> Redihead \<Rightarrow> Redihead" where
  "Redihead_consume [] t = t"
| "Redihead_consume (Ok h # ms) t = Redihead_consume ms (Redihead_setHead (hd_Chain h) (hd_Value h) t)"
| "Redihead_consume (_ # ms) t = Redihead_consume ms t"

definition Redihead_run :: "Head list outcome \<Rightarrow> Head outcome list \<Rightarrow> Redihead \<Rightarrow> Redihead" where
  "Redihead_run revRange ms t =
     (case revRange of
        Ok [] \<Rightarrow> Redihead_consume ms t
      | Ok (m # _) \<Rightarrow> Redihead_consume ms (Redihead_setHead (hd_Chain m) (hd_Value m) t)
      | _ \<Rightarrow> t)"

text \<open>
  \<open>start\<close>: one run after the other, for as many as the list has; each is given what the stream
  answers and delivers.
\<close>

fun Redihead_start :: "(Head list outcome \<times> Head outcome list) list \<Rightarrow> Redihead \<Rightarrow> Redihead" where
  "Redihead_start [] t = t"
| "Redihead_start ((revRange, ms) # rounds) t = Redihead_start rounds (Redihead_run revRange ms t)"

definition Redihead_On :: "string \<Rightarrow> Redihead \<Rightarrow> nat \<times> Redihead" where
  "Redihead_On chain t =
     (rh_next t, t\<lparr>rh_next := rh_next t + 1, rh_subs := add_sub chain (rh_next t) (rh_subs t)\<rparr>)"

definition Redihead_cancel :: "string \<Rightarrow> nat \<Rightarrow> Redihead \<Rightarrow> Redihead" where
  "Redihead_cancel chain sid t = t\<lparr>rh_subs := remove_sub chain sid (rh_subs t)\<rparr>"

section \<open>The contract of a head store\<close>

text \<open>
  \<open>headstore.Store\<close>: \<open>Put\<close> returns the head that was known before, and no operation moves a head
  backwards.
\<close>

locale head_store =
  fixes get :: "string \<Rightarrow> 't \<Rightarrow> u64"
    and put :: "string \<Rightarrow> u64 \<Rightarrow> 't \<Rightarrow> u64 outcome \<times> 't"
  assumes put_previous: "put chain head t = (Ok prev, t') \<Longrightarrow> prev = get chain t"
    and put_monotone: "get d t \<le> get d (snd (put chain head t))"
begin

fun put_all :: "(string \<times> u64) list \<Rightarrow> 't \<Rightarrow> u64 outcome list \<times> 't" where
  "put_all [] t = ([], t)"
| "put_all ((chain, head) # hs) t =
     (case put chain head t of (x, t1) \<Rightarrow> case put_all hs t1 of (xs, t2) \<Rightarrow> (x # xs, t2))"

lemma put_all_monotone: "get d t \<le> get d (snd (put_all hs t))"
proof (induction hs arbitrary: t)
  case (Cons h hs)
  obtain chain head where h: "h = (chain, head)" by fastforce
  show ?case
    using put_monotone [of d t chain head] Cons.IH [of "snd (put chain head t)"]
    by (simp add: h split_beta)
qed simp

text \<open>The heads that \<open>Put\<close> returns for one chain ascend.\<close>

lemma previous_heads_ascend:
  "put_all (map (Pair chain) hs) t = (xs, t') \<Longrightarrow>
   sorted [v. Ok v \<leftarrow> xs] \<and> (\<forall>v \<in> set [v. Ok v \<leftarrow> xs]. get chain t \<le> v)"
proof (induction hs arbitrary: t xs)
  case Nil
  then show ?case by simp
next
  case (Cons h hs)
  obtain x t1 where x: "put chain h t = (x, t1)" by fastforce
  obtain ys where ys: "put_all (map (Pair chain) hs) t1 = (ys, t')" "xs = x # ys"
    using Cons.prems x by (auto split: prod.splits)
  have "get chain t \<le> get chain t1" using put_monotone [of chain t chain h] x by simp
  then show ?case
    using Cons.IH [OF ys(1)] put_previous [OF _, of chain h t _ t1] x ys(2)
    by (cases x) (auto intro: order_trans)
qed

end

lemma Atomic_Get_Put:
  "Atomic_Get d (snd (Atomic_Put chain head t)) =
     (if d = chain \<and> Atomic_Get chain t < head \<and> at_heads t \<noteq> None then head else Atomic_Get d t)"
  by (auto simp: Atomic_Put_def Atomic_Get_def Let_def split: option.splits)

interpretation atomic: head_store Atomic_Get Atomic_Put
proof
  show "Atomic_Put chain head t = (Ok prev, t') \<Longrightarrow> prev = Atomic_Get chain t" for chain head t prev t'
    by (auto simp: Atomic_Put_def Let_def split: if_splits option.splits)
  show "Atomic_Get d t \<le> Atomic_Get d (snd (Atomic_Put chain head t))" for d t chain head
    by (auto simp: Atomic_Get_Put)
qed

interpretation redihead: head_store "\<lambda>chain tw. Redihead_Get chain (fst tw)" "Redihead_Put add" for add
proof
  show "Redihead_Put add chain head t = (Ok prev, t') \<Longrightarrow> prev = Redihead_Get chain (fst t)" for chain head t prev t'
    by (auto simp: Redihead_Put_def Let_def split: prod.splits outcome.splits)
  show "Redihead_Get d (fst t) \<le> Redihead_Get d (fst (snd (Redihead_Put add chain head t)))" for d t chain head
    by (auto simp: Redihead_Put_def Let_def split: prod.splits outcome.splits)
qed

section \<open>Reachable states of the in-memory store\<close>

inductive atomic_reachable :: "Atomic \<Rightarrow> bool" where
  atomic_new: "atomic_reachable NewAtomic"
| atomic_put: "atomic_reachable t \<Longrightarrow> atomic_reachable (snd (Atomic_Put chain head t))"
| atomic_on: "atomic_reachable t \<Longrightarrow> atomic_reachable (snd (Atomic_On chain t))"
| atomic_cancel: "atomic_reachable t \<Longrightarrow> atomic_reachable (Atomic_cancel chain sid t)"

lemma atomic_reachable_nil: "atomic_reachable t \<Longrightarrow> at_heads t = None"
  by (induction rule: atomic_reachable.induct)
    (auto simp: NewAtomic_def Atomic_Put_def Atomic_On_def Atomic_cancel_def Let_def)

section \<open>Lemmas\<close>

lemma setHead_max:
  "Redihead_Get d (Redihead_setHead chain head t) =
     (if d = chain then max head (Redihead_Get d t) else Redihead_Get d t)"
  by (auto simp: Redihead_setHead_def Redihead_Get_def max_def split: option.splits)

lemma consume_max:
  "Redihead_Get d (Redihead_consume ms t) =
     fold max [hd_Value h. Ok h \<leftarrow> ms, hd_Chain h = d] (Redihead_Get d t)"
  by (induction ms t rule: Redihead_consume.induct) (auto simp: setHead_max)

lemma fold_max_ge: "(x :: u64) \<le> fold max xs x" "y \<in> set xs \<Longrightarrow> y \<le> fold max xs x"
  by (simp_all add: Max.set_eq_fold [symmetric])

text \<open>
  However often the stream is lost and found again, no head is forgotten, and one that was delivered
  in a run that could read the stream is not either.
\<close>

lemma redihead_run_mono: "Redihead_Get d t \<le> Redihead_Get d (Redihead_run revRange ms t)"
proof -
  have c: "Redihead_Get d u \<le> Redihead_Get d (Redihead_consume ms u)" for u by (simp add: consume_max fold_max_ge)
  have "Redihead_Get d t \<le> Redihead_Get d (Redihead_consume ms (Redihead_setHead ch h t))" for ch h
    by (rule order_trans [OF _ c]) (simp add: setHead_max)
  then show ?thesis using c by (auto simp: Redihead_run_def split: outcome.split list.split)
qed

lemma redihead_start_mono: "Redihead_Get d t \<le> Redihead_Get d (Redihead_start rounds t)"
  by (induction rounds t rule: Redihead_start.induct) (auto intro: order_trans redihead_run_mono)

lemma redihead_start_delivers:
  "(Ok rs, ms) \<in> set rounds \<Longrightarrow> Ok h \<in> set ms \<Longrightarrow> hd_Value h \<le> Redihead_Get (hd_Chain h) (Redihead_start rounds t)"
proof (induction rounds t rule: Redihead_start.induct)
  case (2 revRange ns rounds t)
  show ?case
  proof (cases "(revRange, ns) = (Ok rs, ms)")
    case True
    have "hd_Value h \<le> Redihead_Get (hd_Chain h) (Redihead_consume ms u)" for u
      using 2(3) by (auto simp: consume_max intro!: fold_max_ge(2) bexI [of _ "Ok h"])
    then have "hd_Value h \<le> Redihead_Get (hd_Chain h) (Redihead_run revRange ns t)"
      using True by (auto simp: Redihead_run_def split: list.split)
    then show ?thesis using redihead_start_mono order_trans by fastforce
  next
    case False
    then show ?thesis using 2 by auto
  qed
qed simp

text \<open>A run starts from the newest entry of the stream only: the heads of all other chains are unknown until their next block.\<close>

lemma redihead_restart_knows_one:
  "d \<noteq> hd_Chain m \<Longrightarrow> Redihead_Get d (Redihead_run (Ok (m # rest)) [] t) = Redihead_Get d t"
  by (simp add: Redihead_run_def setHead_max)

text \<open>The slot of one subscriber.\<close>

definition slot :: "subs \<Rightarrow> string \<Rightarrow> nat \<Rightarrow> u64 option" where
  "slot sub chain sid = (case sub chain of None \<Rightarrow> None | Some va \<Rightarrow> (case va sid of None \<Rightarrow> None | Some b \<Rightarrow> b))"

lemma slot_notify: "slot (notify_subs chain head sub) d sid =
   (if d = chain \<and> slot sub d sid = None \<and> (\<exists>va. sub chain = Some va \<and> va sid \<noteq> None) then Some head else slot sub d sid)"
  by (auto simp: slot_def notify_subs_def split: option.splits)

text \<open>
  A subscriber that has not read its channel keeps the oldest unread head: later heads are dropped,
  and the value it reads next may be older than the head of the store.
\<close>

lemma slot_kept: "slot (rh_subs t) chain sid = Some h \<Longrightarrow> slot (rh_subs (Redihead_consume ms t)) chain sid = Some h"
  by (induction ms t rule: Redihead_consume.induct) (auto simp: Redihead_setHead_def slot_notify)

section \<open>Properties\<close>

text \<open>
  C18: A head store that follows the Redis stream knows, for every chain, the highest head among
  what it knew and what the stream delivered, so its heads never move backwards whatever the
  order of the messages.
\<close>

theorem redihead_keeps_highest:
  "Redihead_Get chain (Redihead_consume ms t) =
     Max (insert (Redihead_Get chain t) {hd_Value h | h. Ok h \<in> set ms \<and> hd_Chain h = chain})"
proof -
  have "{hd_Value h | h. Ok h \<in> set ms \<and> hd_Chain h = chain} = set [hd_Value h. Ok h \<leftarrow> ms, hd_Chain h = chain]"
    by (auto split: outcome.splits)
  then show ?thesis by (simp add: consume_max Max.set_eq_fold [symmetric])
qed

text \<open>
  C19: The in-memory head store is never usable. In every state that its operations reach from the
  constructor it reports the head 0 for every chain, and storing any positive head panics.
\<close>

theorem atomic_never_stores:
  assumes "atomic_reachable t" and "0 < head"
  shows "Atomic_Get chain t = 0 \<and> (\<exists>m. fst (Atomic_Put chain head t) = Panic m)"
  using atomic_reachable_nil [OF assms(1)] assms(2)
  by (simp add: Atomic_Get_def Atomic_Put_def Let_def not_le)

theorem atomic_never_stores_witness:
  "Atomic_Get ''eth'' (snd (Atomic_On ''eth'' NewAtomic)) = 0 \<and>
   (\<exists>m. fst (Atomic_Put ''eth'' 7 (snd (Atomic_On ''eth'' NewAtomic))) = Panic m)"
  by (rule atomic_never_stores) (rule atomic_on [OF atomic_new], simp)

end
