(* ===== verification/Venn_Blockstore.thy ===== *)
theory Venn_Blockstore
  imports Venn_Util
begin

text \<open>
  The block stores of \<open>lib/stores/blockstore\<close>: entries and queries (\<open>interface.go\<close>), the LRU
  store (\<open>lru.go\<close>), the compound store (\<open>compound.go\<close>) and the request deduplication
  (\<open>deduper.go\<close>). The LRU cache of hashicorp is a parameter, with what is documented about it as
  the predicate \<open>lru_ok\<close>; the contract of a store is the locale \<open>sound_store\<close>.
\<close>

section \<open>Entries and queries (interface.go)\<close>

datatype EntryType = EntryBlockHeader | EntryLogs | EntryReceipts

record Entry =
  en_BlockHash :: hash
  en_BlockNumber :: u64
  en_ParentHash :: "hash option"
  en_Value :: json

datatype query = QueryRange (q_Start: u64) (q_End: u64) | QueryHash hash

definition QueryNumber :: "u64 \<Rightarrow> query" where
  "QueryNumber n = QueryRange n n"

record 's store =
  st_Get :: "Chain \<Rightarrow> EntryType \<Rightarrow> query \<Rightarrow> 's \<Rightarrow> Entry list outcome \<times> 's"
  st_Put :: "Chain \<Rightarrow> EntryType \<Rightarrow> Entry list \<Rightarrow> 's \<Rightarrow> unit outcome \<times> 's"

text \<open>
  What an answer to a query may be: entries of the blocks asked for, each block at most once and
  in ascending order. A store may leave blocks out.
\<close>

fun matches_query :: "query \<Rightarrow> Entry list \<Rightarrow> bool" where
  "matches_query (QueryHash h) es = (es = [] \<or> (\<exists>e. es = [e] \<and> en_BlockHash e = h))"
| "matches_query (QueryRange a b) es =
     (sorted_wrt (<) (map en_BlockNumber es) \<and> (\<forall>e \<in> set es. a \<le> en_BlockNumber e \<and> en_BlockNumber e \<le> b))"

section \<open>The LRU cache (parameter)\<close>

record ('l, 'k, 'v) lru =
  lru_Get :: "'k \<Rightarrow> 'l \<Rightarrow> 'v option \<times> 'l"
  lru_Add :: "'k \<Rightarrow> 'v \<Rightarrow> 'l \<Rightarrow> 'l"
  lru_Purge :: "'l \<Rightarrow> 'l"

text \<open>
  With \<open>view\<close> the contents of a cache: a lookup returns what is there and changes only the recency,
  adding a pair makes it present and may evict others, purging removes everything.
\<close>

definition lru_ok :: "('l, 'k, 'v) lru \<Rightarrow> ('l \<Rightarrow> 'k \<rightharpoonup> 'v) \<Rightarrow> bool" where
  "lru_ok ops view \<longleftrightarrow>
     (\<forall>k l. fst (lru_Get ops k l) = view l k \<and> view (snd (lru_Get ops k l)) = view l) \<and>
     (\<forall>k v l. view (lru_Add ops k v l) k = Some v \<and> view (lru_Add ops k v l) \<subseteq>\<^sub>m (view l)(k \<mapsto> v)) \<and>
     (\<forall>l. view (lru_Purge ops l) = Map.empty)"

section \<open>The LRU store (lru.go)\<close>

type_synonym lruNumberKey = "EntryType \<times> u64 \<times> string"
type_synonym lruHashKey = "EntryType \<times> hash \<times> string"

record ('h, 'n) LruStore =
  ls_byHash :: 'h
  ls_byNumber :: 'n

record ('h, 'n) lru_pair =
  lp_hash :: "('h, lruHashKey, Entry) lru"
  lp_number :: "('n, lruNumberKey, Entry) lru"

definition not_found :: gerror where
  "not_found = ErrorText ''not found''"

text \<open>The loop over \<open>n\<close> consecutive numbers.\<close>

fun lru_range :: "('n, lruNumberKey, Entry) lru \<Rightarrow> EntryType \<Rightarrow> string \<Rightarrow> u64 \<Rightarrow> nat \<Rightarrow> 'n \<Rightarrow> Entry list outcome \<times> 'n" where
  "lru_range ops ty chain i 0 l = (Ok [], l)"
| "lru_range ops ty chain i (Suc n) l =
     (case lru_Get ops (ty, i, chain) l of
        (None, l1) \<Rightarrow> (Err not_found, l1)
      | (Some e, l1) \<Rightarrow>
          (case lru_range ops ty chain (i + 1) n l1 of
             (Ok es, l2) \<Rightarrow> (Ok (e # es), l2)
           | (x, l2) \<Rightarrow> (x, l2)))"

text \<open>
  \<open>make\<close> panics when the capacity does not fit the address space (\<open>2 ^ 45\<close> pointers). The loop
  variable of \<open>i <= q.End\<close> wraps when the end is the largest number: the loop then goes on at 0
  and ends only at a number that is missing.
\<close>

definition LruStore_Get :: "('h, 'n) lru_pair \<Rightarrow> Chain \<Rightarrow> EntryType \<Rightarrow> query \<Rightarrow> ('h, 'n) LruStore
    \<Rightarrow> Entry list outcome \<times> ('h, 'n) LruStore" where
  "LruStore_Get ops chain ty q t =
     (case q of
        QueryHash h \<Rightarrow>
          (case lru_Get (lp_hash ops) (ty, h, ch_Name chain) (ls_byHash t) of
             (None, l) \<Rightarrow> (Err not_found, t\<lparr>ls_byHash := l\<rparr>)
           | (Some e, l) \<Rightarrow> (Ok [e], t\<lparr>ls_byHash := l\<rparr>))
      | QueryRange a b \<Rightarrow>
          if 2 ^ 45 < unat (b - a + 1) then (Panic ''makeslice: cap out of range'', t)
          else if b < a then (Ok [], t)
          else
            (case lru_range (lp_number ops) ty (ch_Name chain) a (unat (b - a) + 1) (ls_byNumber t) of
               (Ok es, l) \<Rightarrow>
                 if b = - 1
                 then (case lru_range (lp_number ops) ty (ch_Name chain) 0 (unat a) l of
                         (Ok _, l') \<Rightarrow> (Panic ''does not return'', t\<lparr>ls_byNumber := l'\<rparr>)
                       | (x, l') \<Rightarrow> (x, t\<lparr>ls_byNumber := l'\<rparr>))
                 else (Ok es, t\<lparr>ls_byNumber := l\<rparr>)
             | (x, l) \<Rightarrow> (x, t\<lparr>ls_byNumber := l\<rparr>)))"

text \<open>A parent that does not match empties the whole index by number, of all chains and types.\<close>

definition LruStore_put1 :: "('h, 'n) lru_pair \<Rightarrow> string \<Rightarrow> EntryType \<Rightarrow> Entry \<Rightarrow> ('h, 'n) LruStore \<Rightarrow> ('h, 'n) LruStore" where
  "LruStore_put1 ops chain ty e t =
     (let l1 = (case en_ParentHash e of
                  None \<Rightarrow> ls_byNumber t
                | Some parent \<Rightarrow>
                    (case lru_Get (lp_number ops) (ty, en_BlockNumber e - 1, chain) (ls_byNumber t) of
                       (None, l) \<Rightarrow> l
                     | (Some prev, l) \<Rightarrow> if en_BlockHash prev \<noteq> parent then lru_Purge (lp_number ops) l else l))
      in \<lparr>ls_byHash = lru_Add (lp_hash ops) (ty, en_BlockHash e, chain) e (ls_byHash t),
          ls_byNumber = lru_Add (lp_number ops) (ty, en_BlockNumber e, chain) e l1\<rparr>)"

fun LruStore_Put :: "('h, 'n) lru_pair \<Rightarrow> Chain \<Rightarrow> EntryType \<Rightarrow> Entry list \<Rightarrow> ('h, 'n) LruStore
    \<Rightarrow> unit outcome \<times> ('h, 'n) LruStore" where
  "LruStore_Put ops chain ty [] t = (Ok (), t)"
| "LruStore_Put ops chain ty (e # es) t = LruStore_Put ops chain ty es (LruStore_put1 ops (ch_Name chain) ty e t)"

text \<open>The store as a component of the process.\<close>

definition lru_store :: "('h, 'n) lru_pair \<Rightarrow> ('s, ('h, 'n) LruStore) cell \<Rightarrow> 's store" where
  "lru_store ops c =
     \<lparr>st_Get = (\<lambda>chain ty q s. case LruStore_Get ops chain ty q (rd c s) of (x, t) \<Rightarrow> (x, wr c t s)),
      st_Put = (\<lambda>chain ty es s. case LruStore_Put ops chain ty es (rd c s) of (x, t) \<Rightarrow> (x, wr c t s))\<rparr>"

section \<open>The compound store (compound.go)\<close>

record 's namedStore =
  ns_name :: string
  ns_store :: "'s store"

definition AddStore :: "string \<Rightarrow> 's store option \<Rightarrow> 's namedStore list \<Rightarrow> 's namedStore list" where
  "AddStore name st stores =
     (case st of None \<Rightarrow> stores | Some x \<Rightarrow> stores @ [\<lparr>ns_name = name, ns_store = x\<rparr>])"

text \<open>Put into every store; the errors are collected.\<close>

fun put_stores :: "'s namedStore list \<Rightarrow> Chain \<Rightarrow> EntryType \<Rightarrow> Entry list \<Rightarrow> gerror option \<Rightarrow> 's \<Rightarrow> unit outcome \<times> 's" where
  "put_stores [] chain ty es merr s = ((case merr of None \<Rightarrow> Ok () | Some e \<Rightarrow> Err e), s)"
| "put_stores (v # vs) chain ty es merr s =
     (case st_Put (ns_store v) chain ty es s of
        (Ok _, s1) \<Rightarrow> put_stores vs chain ty es merr s1
      | (Err e, s1) \<Rightarrow> put_stores vs chain ty es (multierr_Append merr e) s1
      | (Panic m, s1) \<Rightarrow> (Panic m, s1))"

definition CompoundStore_Put :: "'s namedStore list \<Rightarrow> Chain \<Rightarrow> EntryType \<Rightarrow> Entry list \<Rightarrow> 's \<Rightarrow> unit outcome \<times> 's" where
  "CompoundStore_Put stores chain ty es = put_stores stores chain ty es None"

text \<open>The first store that answers: its position and its answer.\<close>

fun get_stores :: "'s namedStore list \<Rightarrow> Chain \<Rightarrow> EntryType \<Rightarrow> query \<Rightarrow> nat \<Rightarrow> gerror option \<Rightarrow> 's
    \<Rightarrow> (nat \<times> Entry list) outcome \<times> 's" where
  "get_stores [] chain ty q i merr s =
     (Err (case merr of None \<Rightarrow> ErrorText ''compound handler could not find entries'' | Some e \<Rightarrow> e), s)"
| "get_stores (v # vs) chain ty q i merr s =
     (case st_Get (ns_store v) chain ty q s of
        (Ok es, s1) \<Rightarrow> (Ok (i, es), s1)
      | (Err e, s1) \<Rightarrow> get_stores vs chain ty q (i + 1) (multierr_Append merr e) s1
      | (Panic m, s1) \<Rightarrow> (Panic m, s1))"

definition CompoundStore_Get :: "'s namedStore list \<Rightarrow> Chain \<Rightarrow> EntryType \<Rightarrow> query \<Rightarrow> 's \<Rightarrow> Entry list outcome \<times> 's" where
  "CompoundStore_Get stores chain ty q s =
     (if (case q of QueryRange a b \<Rightarrow> b < a | QueryHash _ \<Rightarrow> False) then (Ok [], s)
      else case get_stores stores chain ty q 0 None s of
        (Ok (i, es), s1) \<Rightarrow>
          (case put_stores (take i stores) chain ty es None s1 of
             (Ok _, s2) \<Rightarrow> (Ok es, s2)
           | (Err e, s2) \<Rightarrow> (Err e, s2)
           | (Panic m, s2) \<Rightarrow> (Panic m, s2))
      | (Err e, s1) \<Rightarrow> (Err e, s1)
      | (Panic m, s1) \<Rightarrow> (Panic m, s1))"

definition CompoundStore :: "'s namedStore list \<Rightarrow> 's store" where
  "CompoundStore stores = \<lparr>st_Get = CompoundStore_Get stores, st_Put = CompoundStore_Put stores\<rparr>"

section \<open>Request deduplication (deduper.go)\<close>

definition typ_text :: "EntryType \<Rightarrow> string" where
  "typ_text ty = (case ty of EntryBlockHeader \<Rightarrow> ''0'' | EntryLogs \<Rightarrow> ''1'' | EntryReceipts \<Rightarrow> ''2'')"

definition groupQuery :: "codec \<Rightarrow> Chain \<Rightarrow> EntryType \<Rightarrow> query \<Rightarrow> string" where
  "groupQuery cdc chain ty q =
     (case q of
        QueryRange a b \<Rightarrow> ch_Name chain @ ''.'' @ typ_text ty @ ''.'' @ EncodeUint64 cdc a @ ''.'' @ EncodeUint64 cdc b
      | QueryHash h \<Rightarrow> ch_Name chain @ ''.'' @ typ_text ty @ ''.'' @ hash_Hex cdc h)"

text \<open>
  \<open>flight\<close> is \<open>group.DoChan\<close>: it runs the function it is given, or waits for a call in progress with
  the same key and returns its result. A panic of the function ends the process.
\<close>

definition SingleFlight :: "codec \<Rightarrow> (string \<Rightarrow> ('s \<Rightarrow> Entry list outcome \<times> 's) \<Rightarrow> 's \<Rightarrow> Entry list outcome \<times> 's)
    \<Rightarrow> 's store \<Rightarrow> 's store" where
  "SingleFlight cdc flight underlying =
     \<lparr>st_Get = (\<lambda>chain ty q. flight (groupQuery cdc chain ty q) (st_Get underlying chain ty q)),
      st_Put = st_Put underlying\<rparr>"

section \<open>The contract of a store\<close>

text \<open>
  \<open>ok chain ty e\<close> says that \<open>e\<close> is a genuine entry of the chain. A sound store, given genuine
  entries only, returns genuine entries only, and they are entries of the blocks asked for.
\<close>

locale sound_store =
  fixes st :: "'s store" and inv :: "'s \<Rightarrow> bool" and ok :: "string \<Rightarrow> EntryType \<Rightarrow> Entry \<Rightarrow> bool"
  assumes get_inv: "inv s \<Longrightarrow> inv (snd (st_Get st chain ty q s))"
    and get_ok: "inv s \<Longrightarrow> st_Get st chain ty q s = (Ok es, s') \<Longrightarrow>
       matches_query q es \<and> (\<forall>e \<in> set es. ok (ch_Name chain) ty e)"
    and put_inv: "inv s \<Longrightarrow> \<forall>e \<in> set es. ok (ch_Name chain) ty e \<Longrightarrow> inv (snd (st_Put st chain ty es s))"
begin

lemma get_soundD:
  "inv s \<Longrightarrow> st_Get st chain ty q s = (x, s') \<Longrightarrow>
   inv s' \<and> (\<forall>es. x = Ok es \<longrightarrow> matches_query q es \<and> (\<forall>e \<in> set es. ok (ch_Name chain) ty e))"
  using get_inv [of s chain ty q] get_ok [of s chain ty q] by auto

lemma put_soundD:
  "inv s \<Longrightarrow> \<forall>e \<in> set es. ok (ch_Name chain) ty e \<Longrightarrow> st_Put st chain ty es s = (x, s') \<Longrightarrow> inv s'"
  using put_inv [of s es chain ty] by simp

text \<open>The single entry of a block, by number or by hash.\<close>

lemma get_number:
  "inv s \<Longrightarrow> st_Get st chain ty (QueryNumber n) s = (Ok [e], s') \<Longrightarrow>
   en_BlockNumber e = n \<and> ok (ch_Name chain) ty e"
  using get_ok [of s chain ty "QueryNumber n" "[e]" s'] by (auto simp: QueryNumber_def)

lemma get_hash:
  "inv s \<Longrightarrow> st_Get st chain ty (QueryHash h) s = (Ok [e], s') \<Longrightarrow>
   en_BlockHash e = h \<and> ok (ch_Name chain) ty e"
  using get_ok [of s chain ty "QueryHash h" "[e]" s'] by auto

end

section \<open>The LRU store is sound\<close>

lemma map_le_SomeD: "m \<subseteq>\<^sub>m m' \<Longrightarrow> m k = Some v \<Longrightarrow> m' k = Some v"
  by (metis domI map_le_def)


lemma lru_okD:
  assumes "lru_ok ops view"
  shows "fst (lru_Get ops k l) = view l k" "view (snd (lru_Get ops k l)) = view l"
    "view (lru_Add ops k v l) k = Some v" "view (lru_Add ops k v l) \<subseteq>\<^sub>m (view l)(k \<mapsto> v)"
    "view (lru_Purge ops l) = Map.empty"
  using assms unfolding lru_ok_def by blast+

text \<open>Every entry of an index is genuine and filed under its own key.\<close>

definition index_ok :: "(Entry \<Rightarrow> 'k) \<Rightarrow> (string \<Rightarrow> EntryType \<Rightarrow> Entry \<Rightarrow> bool) \<Rightarrow> (EntryType \<times> 'k \<times> string \<rightharpoonup> Entry) \<Rightarrow> bool" where
  "index_ok key ok m \<longleftrightarrow> (\<forall>ty k chain e. m (ty, k, chain) = Some e \<longrightarrow> key e = k \<and> ok chain ty e)"

lemma index_ok_mono: "index_ok key ok m' \<Longrightarrow> m \<subseteq>\<^sub>m m' \<Longrightarrow> index_ok key ok m"
  unfolding index_ok_def by (metis map_le_SomeD)

lemma index_ok_update: "index_ok key ok m \<Longrightarrow> ok chain ty e \<Longrightarrow> index_ok key ok (m((ty, key e, chain) \<mapsto> e))"
  by (simp add: index_ok_def)

definition lru_inv :: "('h \<Rightarrow> lruHashKey \<rightharpoonup> Entry) \<Rightarrow> ('n \<Rightarrow> lruNumberKey \<rightharpoonup> Entry)
    \<Rightarrow> (string \<Rightarrow> EntryType \<Rightarrow> Entry \<Rightarrow> bool) \<Rightarrow> ('h, 'n) LruStore \<Rightarrow> bool" where
  "lru_inv vh vn ok t \<longleftrightarrow>
     index_ok en_BlockHash ok (vh (ls_byHash t)) \<and> index_ok en_BlockNumber ok (vn (ls_byNumber t))"

lemma lru_range_view:
  assumes "lru_ok ops view"
  shows "view (snd (lru_range ops ty chain i n l)) = view l \<and>
     (\<forall>es. fst (lru_range ops ty chain i n l) = Ok es \<longrightarrow>
        length es = n \<and> (\<forall>k < n. view l (ty, i + of_nat k, chain) = Some (es ! k)))"
proof (induction n arbitrary: i l)
  case 0
  then show ?case by simp
next
  case (Suc n)
  obtain x l1 where g: "lru_Get ops (ty, i, chain) l = (x, l1)" by fastforce
  have v: "x = view l (ty, i, chain)" "view l1 = view l"
    using assms g unfolding lru_ok_def by (metis fst_conv, metis snd_conv)
  obtain y l2 where r: "lru_range ops ty chain (i + 1) n l1 = (y, l2)" by fastforce
  note IH = Suc.IH [of "i + 1" l1, unfolded r v(2)]
  show ?case
  proof (cases x)
    case None
    then show ?thesis using g v by simp
  next
    case (Some e)
    have "length es = Suc n \<and> (\<forall>k < Suc n. view l (ty, i + of_nat k, chain) = Some (es ! k))"
      if ok: "fst (lru_range ops ty chain i (Suc n) l) = Ok es" for es
    proof -
      have "lru_range ops ty chain i (Suc n) l = (case y of Ok fs \<Rightarrow> (Ok (e # fs), l2) | _ \<Rightarrow> (y, l2))"
        using g r Some by (simp split: outcome.split)
      then obtain fs where fs: "y = Ok fs" "es = e # fs" using ok by (cases y) (auto simp del: lru_range.simps)
      then have "\<forall>k < n. view l (ty, (i + 1) + of_nat k, chain) = Some (fs ! k)" "length fs = n"
        using IH by auto
      then show ?thesis
        using fs Some v by (auto simp: less_Suc_eq_0_disj ac_simps)
    qed
    then show ?thesis using g r Some IH by (cases y) auto
  qed
qed

lemma consecutive_numbers:
  assumes le: "(a :: u64) \<le> b" and n: "length es = unat (b - a) + 1"
    and num: "\<And>k. k < length es \<Longrightarrow> en_BlockNumber (es ! k) = a + of_nat k"
  shows "matches_query (QueryRange a b) es"
proof -
  have d: "unat (b - a) = unat b - unat a" using le by (simp add: unat_sub)
  have b: "unat b < 2 ^ 64" using unsigned_less [of b, where ?'a = nat] by simp
  have un: "unat (a + of_nat k) = unat a + k" if k: "k < length es" for k
  proof -
    have "unat a + k \<le> unat b" using k n d le by (simp add: word_le_nat_alt)
    then have "unat a + k < 2 ^ 64" "k < 2 ^ 64" using b by linarith+
    then show ?thesis by (simp add: unat_word_ariths unat_of_nat)
  qed
  have "sorted_wrt (<) (map en_BlockNumber es)"
    unfolding sorted_wrt_iff_nth_less
  proof (intro allI impI)
    fix i j assume ij: "i < j" "j < length (map en_BlockNumber es)"
    then have "en_BlockNumber (es ! i) < en_BlockNumber (es ! j)"
      using num [of i] num [of j] un [of i] un [of j] by (simp add: word_less_nat_alt)
    then show "map en_BlockNumber es ! i < map en_BlockNumber es ! j" using ij by simp
  qed
  moreover have "a \<le> en_BlockNumber e \<and> en_BlockNumber e \<le> b" if "e \<in> set es" for e
  proof -
    obtain k where "k < length es" "e = es ! k" using \<open>e \<in> set es\<close> by (auto simp: in_set_conv_nth)
    then show ?thesis
      using num [of k] un [of k] n d le by (simp add: word_le_nat_alt)
  qed
  ultimately show ?thesis by simp
qed

lemma LruStore_Get_sound:
  assumes h: "lru_ok (lp_hash ops) vh" and n: "lru_ok (lp_number ops) vn" and inv: "lru_inv vh vn ok t"
    and get: "LruStore_Get ops chain ty q t = (x, t')"
  shows "lru_inv vh vn ok t' \<and> (\<forall>es. x = Ok es \<longrightarrow> matches_query q es \<and> (\<forall>e \<in> set es. ok (ch_Name chain) ty e))"
proof (cases q)
  case (QueryHash k)
  obtain y l where g: "lru_Get (lp_hash ops) (ty, k, ch_Name chain) (ls_byHash t) = (y, l)" by fastforce
  have "y = vh (ls_byHash t) (ty, k, ch_Name chain)" "vh l = vh (ls_byHash t)"
    using h g unfolding lru_ok_def by (metis fst_conv, metis snd_conv)
  then show ?thesis
    using get inv g QueryHash by (auto simp: LruStore_Get_def lru_inv_def index_ok_def split: option.splits)
next
  case (QueryRange a b)
  let ?r = "\<lambda>i n l. lru_range (lp_number ops) ty (ch_Name chain) i n l"
  have keep: "lru_inv vh vn ok (t\<lparr>ls_byNumber := l\<rparr>)" if "vn l = vn (ls_byNumber t)" for l
    using inv that by (simp add: lru_inv_def)
  obtain y l where g: "?r a (unat (b - a) + 1) (ls_byNumber t) = (y, l)" by fastforce
  note v = lru_range_view [OF n, of ty "ch_Name chain" a "unat (b - a) + 1" "ls_byNumber t", unfolded g]
  obtain z l' where g': "?r 0 (unat a) l = (z, l')" by fastforce
  note v' = lru_range_view [OF n, of ty "ch_Name chain" 0 "unat a" l, unfolded g']
  have "lru_inv vh vn ok t'"
    using get keep v v' g g' QueryRange inv
    by (auto simp: LruStore_Get_def split: if_splits outcome.splits)
  moreover have "matches_query q es \<and> (\<forall>e \<in> set es. ok (ch_Name chain) ty e)" if x: "x = Ok es" for es
  proof (cases "b < a")
    case True
    then show ?thesis using get x QueryRange by (auto simp: LruStore_Get_def split: if_splits)
  next
    case False
    then have es: "y = Ok es"
      using get x QueryRange g g' by (auto simp: LruStore_Get_def split: if_splits outcome.splits)
    have len: "length es = unat (b - a) + 1"
      and at: "\<And>k. k < length es \<Longrightarrow> vn (ls_byNumber t) (ty, a + of_nat k, ch_Name chain) = Some (es ! k)"
      using v es by simp_all
    have good: "en_BlockNumber (es ! k) = a + of_nat k \<and> ok (ch_Name chain) ty (es ! k)" if "k < length es" for k
      using inv at [OF that] by (simp add: lru_inv_def index_ok_def)
    have "matches_query (QueryRange a b) es"
      by (rule consecutive_numbers) (use False len good in auto)
    then show ?thesis using good QueryRange by (auto simp: in_set_conv_nth)
  qed
  ultimately show ?thesis by blast
qed

lemma LruStore_put1_sound:
  assumes h: "lru_ok (lp_hash ops) vh" and n: "lru_ok (lp_number ops) vn" and inv: "lru_inv vh vn ok t" and e: "ok chain ty e"
  shows "lru_inv vh vn ok (LruStore_put1 ops chain ty e t)"
proof -
  define l1 where "l1 = (case en_ParentHash e of
                  None \<Rightarrow> ls_byNumber t
                | Some parent \<Rightarrow>
                    (case lru_Get (lp_number ops) (ty, en_BlockNumber e - 1, chain) (ls_byNumber t) of
                       (None, l) \<Rightarrow> l
                     | (Some prev, l) \<Rightarrow> if en_BlockHash prev \<noteq> parent then lru_Purge (lp_number ops) l else l))"
  have view: "vn (snd (lru_Get (lp_number ops) k l)) = vn l" "vn (lru_Purge (lp_number ops) l) = Map.empty" for k l
    using lru_okD [OF n] by simp_all
  have "vn l1 \<subseteq>\<^sub>m vn (ls_byNumber t)"
    using view(1) [of "(ty, en_BlockNumber e - 1, chain)" "ls_byNumber t"]
    by (auto simp: l1_def view(2) split: option.splits prod.splits)
  moreover have "vn (lru_Add (lp_number ops) (ty, en_BlockNumber e, chain) e l1) \<subseteq>\<^sub>m (vn l1)((ty, en_BlockNumber e, chain) \<mapsto> e)"
    by (rule lru_okD(4) [OF n])
  moreover have "vh (lru_Add (lp_hash ops) (ty, en_BlockHash e, chain) e (ls_byHash t)) \<subseteq>\<^sub>m
      (vh (ls_byHash t))((ty, en_BlockHash e, chain) \<mapsto> e)"
    by (rule lru_okD(4) [OF h])
  ultimately show ?thesis
    using inv e index_ok_mono index_ok_update
    unfolding LruStore_put1_def Let_def l1_def [symmetric] lru_inv_def LruStore.simps by metis
qed

lemma LruStore_Put_sound:
  assumes "lru_ok (lp_hash ops) vh" and "lru_ok (lp_number ops) vn"
  shows "lru_inv vh vn ok t \<Longrightarrow> \<forall>e \<in> set es. ok (ch_Name chain) ty e \<Longrightarrow>
     lru_inv vh vn ok (snd (LruStore_Put ops chain ty es t))"
  by (induction es arbitrary: t) (auto intro: LruStore_put1_sound [OF assms])

text \<open>
  In the state of the process the LRU store is sound with an invariant of which its own is a part,
  if it is the only component that touches its cell.
\<close>

lemma lru_store_sound:
  assumes "lru_ok (lp_hash ops) vh" and "lru_ok (lp_number ops) vn" and c: "mem_cell c"
  shows "sound_store (lru_store ops c) (\<lambda>s. lru_inv vh vn ok (rd c s)) ok"
proof
  fix s chain ty q
  assume inv: "lru_inv vh vn ok (rd c s)"
  note get = LruStore_Get_sound [OF assms(1,2) inv]
  show "lru_inv vh vn ok (rd c (snd (st_Get (lru_store ops c) chain ty q s)))"
    using get [of chain ty q] c by (simp add: lru_store_def mem_cell.rd_wr split: prod.split)
  show "matches_query q es \<and> (\<forall>e \<in> set es. ok (ch_Name chain) ty e)"
    if "st_Get (lru_store ops c) chain ty q s = (Ok es, s')" for es s'
    using get [of chain ty q] that by (auto simp: lru_store_def split: prod.splits)
  show "lru_inv vh vn ok (rd c (snd (st_Put (lru_store ops c) chain ty es s)))"
    if "\<forall>e \<in> set es. ok (ch_Name chain) ty e" for es
    using LruStore_Put_sound [OF assms(1,2) inv that] c
    by (simp add: lru_store_def mem_cell.rd_wr split_beta)
qed

section \<open>A compound of sound stores is sound\<close>

lemma put_stores_inv:
  assumes "\<And>v. v \<in> set vs \<Longrightarrow> sound_store (ns_store v) I ok" and "\<forall>e \<in> set es. ok (ch_Name chain) ty e"
  shows "I s \<Longrightarrow> I (snd (put_stores vs chain ty es merr s))"
  using assms
proof (induction vs arbitrary: merr s)
  case (Cons v vs)
  obtain x s1 where x: "st_Put (ns_store v) chain ty es s = (x, s1)" by fastforce
  have "I s1" using sound_store.put_soundD [OF Cons.prems(2), of v s es] Cons.prems x by simp
  then show ?case using Cons by (cases x) (simp_all add: x)
qed (simp split: option.split)

lemma get_stores_sound:
  assumes "\<And>v. v \<in> set vs \<Longrightarrow> sound_store (ns_store v) I ok"
  shows "I s \<Longrightarrow> get_stores vs chain ty q i merr s = (x, s') \<Longrightarrow>
     I s' \<and> (\<forall>j es. x = Ok (j, es) \<longrightarrow> matches_query q es \<and> (\<forall>e \<in> set es. ok (ch_Name chain) ty e))"
  using assms
proof (induction vs arbitrary: i merr s)
  case (Cons v vs)
  obtain y s1 where y: "st_Get (ns_store v) chain ty q s = (y, s1)" by fastforce
  note g = sound_store.get_soundD [OF Cons.prems(3) Cons.prems(1) y]
  show ?case
  proof (cases y)
    case (Err e)
    then have "get_stores vs chain ty q (i + 1) (multierr_Append merr e) s1 = (x, s')"
      using Cons.prems(2) y by simp
    from Cons.IH [OF _ this] g Cons.prems(3) show ?thesis by simp
  qed (use Cons.prems y g in auto)
qed auto

lemma compound_sound:
  assumes "\<And>v. v \<in> set stores \<Longrightarrow> sound_store (ns_store v) I ok"
  shows "sound_store (CompoundStore stores) I ok"
proof
  fix s chain ty q
  assume I: "I s"
  obtain x s1 where g: "get_stores stores chain ty q 0 None s = (x, s1)" by fastforce
  note gs = get_stores_sound [OF assms I g]
  have put: "I (snd (put_stores (take i stores) chain ty es None s1))"
    if "x = Ok (i, es)" for i es
    by (rule put_stores_inv) (use gs that assms in \<open>auto dest: in_set_takeD\<close>)
  show "I (snd (st_Get (CompoundStore stores) chain ty q s))"
    using I gs put by (auto simp: CompoundStore_def CompoundStore_Get_def g split: query.split outcome.split prod.split)
  show "matches_query q es \<and> (\<forall>e \<in> set es. ok (ch_Name chain) ty e)"
    if get: "st_Get (CompoundStore stores) chain ty q s = (Ok es, s')" for es s'
  proof (cases "case q of QueryRange a b \<Rightarrow> b < a | QueryHash _ \<Rightarrow> False")
    case True
    then show ?thesis
      using get by (cases q) (simp_all add: CompoundStore_def CompoundStore_Get_def)
  next
    case False
    then obtain i where "x = Ok (i, es)"
      using get g by (auto simp: CompoundStore_def CompoundStore_Get_def split: outcome.splits prod.splits)
    then show ?thesis using gs by simp
  qed
  show "I (snd (st_Put (CompoundStore stores) chain ty es s))"
    if "\<forall>e \<in> set es. ok (ch_Name chain) ty e" for es
    using put_stores_inv [OF assms that I] by (simp add: CompoundStore_def CompoundStore_Put_def)
qed

section \<open>Properties\<close>

text \<open>
  Every entry a compound store returns is a genuine entry of the chain and the type asked for,
  belongs to a block of the query, and no block occurs twice, provided each of its stores has this
  property and only genuine entries were put into it; the copies it writes into the faster stores
  keep it so.
\<close>

theorem compound_store_sound:
  assumes "\<And>v. v \<in> set stores \<Longrightarrow> sound_store (ns_store v) I ok" and "I s"
    and "CompoundStore_Get stores chain ty q s = (Ok es, s')"
  shows "I s' \<and> matches_query q es \<and> (\<forall>e \<in> set es. ok (ch_Name chain) ty e)"
proof -
  have get: "st_Get (CompoundStore stores) chain ty q s = (Ok es, s')"
    using assms(3) by (simp add: CompoundStore_def)
  show ?thesis
    using sound_store.get_soundD [OF compound_sound [OF assms(1)] assms(2) get] by simp
qed

text \<open>A cache that never evicts, as a concrete LRU cache.\<close>

definition map_lru :: "('k \<rightharpoonup> 'v, 'k, 'v) lru" where
  "map_lru = \<lparr>lru_Get = (\<lambda>k m. (m k, m)), lru_Add = (\<lambda>k v m. m(k \<mapsto> v)), lru_Purge = (\<lambda>_. Map.empty)\<rparr>"

lemma map_lru_ok: "lru_ok map_lru (\<lambda>m. m)"
  by (simp add: lru_ok_def map_lru_def)

definition map_lrus :: "(lruHashKey \<rightharpoonup> Entry, lruNumberKey \<rightharpoonup> Entry) lru_pair" where
  "map_lrus = \<lparr>lp_hash = map_lru, lp_number = map_lru\<rparr>"

definition demo_chain :: Chain where
  "demo_chain = \<lparr>ch_Name = ''eth'', ch_Id = 1, ch_Aliases = [], ch_BlockTimeSeconds = 12, ch_Remotes = [],
     ch_Stalk = None, ch_ParsedStalk = False, ch_ForgeBlockReceipts = False, ch_MaxBlockLookback = 0\<rparr>"

definition demo_entry :: "u64 \<Rightarrow> Entry" where
  "demo_entry n = \<lparr>en_BlockHash = 7, en_BlockNumber = n, en_ParentHash = None, en_Value = JArr []\<rparr>"

definition demo_lru :: "(lruHashKey \<rightharpoonup> Entry, lruNumberKey \<rightharpoonup> Entry) LruStore" where
  "demo_lru = snd (LruStore_Put map_lrus demo_chain EntryLogs [demo_entry 5] \<lparr>ls_byHash = Map.empty, ls_byNumber = Map.empty\<rparr>)"

theorem compound_store_sound_witness:
  "\<exists>es s'. CompoundStore_Get (AddStore ''lru'' (Some (lru_store map_lrus own_cell)) []) demo_chain EntryLogs
     (QueryNumber 5) demo_lru = (Ok es, s') \<and> es = [demo_entry 5] \<and> matches_query (QueryNumber 5) es"
proof -
  let ?st = "AddStore ''lru'' (Some (lru_store map_lrus own_cell)) []"
  let ?I = "\<lambda>s. lru_inv (\<lambda>m. m) (\<lambda>m. m) (\<lambda>chain ty e. e = demo_entry 5) (rd own_cell s)"
  have sound: "sound_store (ns_store v) ?I (\<lambda>chain ty e. e = demo_entry 5)" if "v \<in> set ?st" for v
    using that lru_store_sound [OF _ _ own_cell_ok, of map_lrus "\<lambda>m. m" "\<lambda>m. m" "\<lambda>chain ty e. e = demo_entry 5"]
    by (simp add: AddStore_def map_lrus_def map_lru_ok)
  have init: "?I demo_lru"
    by (simp add: lru_inv_def index_ok_def demo_lru_def own_cell_def map_lrus_def map_lru_def LruStore_put1_def
        demo_entry_def)
  have get: "CompoundStore_Get ?st demo_chain EntryLogs (QueryNumber 5) demo_lru = (Ok [demo_entry 5], demo_lru)"
    by (simp add: CompoundStore_Get_def AddStore_def QueryNumber_def lru_store_def own_cell_def demo_lru_def
        LruStore_Get_def map_lrus_def map_lru_def LruStore_put1_def demo_entry_def demo_chain_def)
  show ?thesis using compound_store_sound [OF sound init get] get by simp
qed

end
