(* ===== verification/Venn_Chainblock.thy ===== *)
theory Venn_Chainblock
  imports Venn_Blockstore
begin

text \<open>
  \<open>svc/node/stores/vennstores/chainblock\<close>: the block store of last resort, which asks the
  remotes. Every operation is a call of the handler of the chain's cluster; the reply is decoded as
  far as the store needs it and filed under the hash found in it.
\<close>

definition dec_hash_field :: "codec \<Rightarrow> string \<Rightarrow> json \<Rightarrow> hash outcome" where
  "dec_hash_field cdc name v = outcome_bind (struct_fields v) (dec_field name (dec_Hash cdc) 0)"

definition dec_number_field :: "codec \<Rightarrow> string \<Rightarrow> json \<Rightarrow> u64 outcome" where
  "dec_number_field cdc name v = outcome_bind (struct_fields v) (dec_field name (dec_Uint64 cdc) 0)"

text \<open>An array of length 1: missing elements are zero, further ones are ignored.\<close>

fun first_elem :: "json \<Rightarrow> json outcome" where
  "first_elem (JArr (x # _)) = Ok x"
| "first_elem (JArr []) = Ok JNull"
| "first_elem JNull = Ok JNull"
| "first_elem _ = Err json_type_error"

text \<open>The result of a lookup of one block: \<open>None\<close> makes the whole query return nothing.\<close>

definition header_by_hash :: "codec \<Rightarrow> hash \<Rightarrow> json \<Rightarrow> Entry option outcome" where
  "header_by_hash cdc h v =
     outcome_bind (dec_hash_field cdc ''hash'' v) (\<lambda>bh.
     outcome_bind (dec_number_field cdc ''number'' v) (\<lambda>n.
     outcome_bind (dec_hash_field cdc ''parentHash'' v) (\<lambda>ph.
       Ok (if bh \<noteq> h then None
           else Some \<lparr>en_BlockHash = h, en_BlockNumber = n, en_ParentHash = Some ph, en_Value = v\<rparr>))))"

definition header_by_number :: "codec \<Rightarrow> u64 \<Rightarrow> json \<Rightarrow> Entry option outcome" where
  "header_by_number cdc i v =
     outcome_bind (dec_hash_field cdc ''hash'' v) (\<lambda>bh.
     outcome_bind (dec_hash_field cdc ''parentHash'' v) (\<lambda>ph.
       Ok (if bh = 0 then None
           else Some \<lparr>en_BlockHash = bh, en_BlockNumber = i, en_ParentHash = Some ph, en_Value = v\<rparr>)))"

definition receipts_by_number :: "codec \<Rightarrow> u64 \<Rightarrow> json \<Rightarrow> Entry option outcome" where
  "receipts_by_number cdc i v =
     outcome_bind (first_elem v) (\<lambda>x.
     outcome_bind (dec_hash_field cdc ''blockHash'' x) (\<lambda>bh.
       Ok (if bh = 0 then None
           else Some \<lparr>en_BlockHash = bh, en_BlockNumber = i, en_ParentHash = None, en_Value = v\<rparr>)))"

definition logs_by_hash :: "codec \<Rightarrow> hash \<Rightarrow> json \<Rightarrow> Entry option outcome" where
  "logs_by_hash cdc h v =
     outcome_bind (first_elem v) (\<lambda>x.
     outcome_bind (dec_hash_field cdc ''blockHash'' x) (\<lambda>bh.
     outcome_bind (dec_number_field cdc ''blockNumber'' x) (\<lambda>n.
       Ok (if bh \<noteq> h then None
           else Some \<lparr>en_BlockHash = h, en_BlockNumber = n, en_ParentHash = None, en_Value = v\<rparr>))))"

definition logs_of_block :: "codec \<Rightarrow> u64 \<Rightarrow> json \<Rightarrow> Entry option outcome" where
  "logs_of_block cdc i v =
     outcome_bind (first_elem v) (\<lambda>x.
     outcome_bind (dec_hash_field cdc ''blockHash'' x) (\<lambda>bh.
       Ok (if bh = 0 then None
           else Some \<lparr>en_BlockHash = bh, en_BlockNumber = i, en_ParentHash = None, en_Value = v\<rparr>)))"

text \<open>One call and the decoding of its result.\<close>

definition fetch :: "codec \<Rightarrow> ctx \<Rightarrow> 's handler \<Rightarrow> string \<Rightarrow> json list \<Rightarrow> (json \<Rightarrow> 'a outcome) \<Rightarrow> 's \<Rightarrow> 'a outcome \<times> 's" where
  "fetch cdc ctx remote method args dec s =
     (case Do cdc ctx remote method (JArr args) s of (x, s1) \<Rightarrow> (outcome_bind x dec, s1))"

definition fetch1 :: "(Entry option outcome \<times> 's) \<Rightarrow> Entry list outcome \<times> 's" where
  "fetch1 p = (case p of (x, s) \<Rightarrow> (outcome_bind x (\<lambda>e. Ok (case e of None \<Rightarrow> [] | Some e \<Rightarrow> [e])), s))"

text \<open>
  The loop over a range, with \<open>n\<close> slots of the result left. When the end of the range is the
  largest number the loop variable wraps and the next result has no slot.
\<close>

fun fetch_range :: "(u64 \<Rightarrow> 's \<Rightarrow> Entry option outcome \<times> 's) \<Rightarrow> bool \<Rightarrow> u64 \<Rightarrow> nat \<Rightarrow> Entry list \<Rightarrow> 's
    \<Rightarrow> Entry list outcome \<times> 's" where
  "fetch_range f wraps i 0 acc s =
     (if wraps then
        (case f i s of
           (Ok (Some e), s1) \<Rightarrow> (Panic ''index out of range'', s1)
         | (Ok None, s1) \<Rightarrow> (Ok [], s1)
         | (Err e, s1) \<Rightarrow> (Err e, s1)
         | (Panic m, s1) \<Rightarrow> (Panic m, s1))
      else (Ok acc, s))"
| "fetch_range f wraps i (Suc n) acc s =
     (case f i s of
        (Ok (Some e), s1) \<Rightarrow> fetch_range f wraps (i + 1) n (acc @ [e]) s1
      | (Ok None, s1) \<Rightarrow> (Ok [], s1)
      | (Err e, s1) \<Rightarrow> (Err e, s1)
      | (Panic m, s1) \<Rightarrow> (Panic m, s1))"

definition get_range :: "(u64 \<Rightarrow> 's \<Rightarrow> Entry option outcome \<times> 's) \<Rightarrow> u64 \<Rightarrow> u64 \<Rightarrow> 's \<Rightarrow> Entry list outcome \<times> 's" where
  "get_range f a b s =
     (if b < a then (Ok [], s)
      else if 2 ^ 45 < unat (b - a + 1) then (Panic ''makeslice: len out of range'', s)
      else fetch_range f (b = - 1) a (unat (b - a + 1)) [] s)"

definition getBlockHeaders :: "codec \<Rightarrow> ctx \<Rightarrow> 's handler \<Rightarrow> query \<Rightarrow> 's \<Rightarrow> Entry list outcome \<times> 's" where
  "getBlockHeaders cdc ctx remote q s =
     (case q of
        QueryHash h \<Rightarrow>
          fetch1 (fetch cdc ctx remote ''eth_getBlockByHash'' [JStr (hash_Hex cdc h), JBool True] (header_by_hash cdc h) s)
      | QueryRange a b \<Rightarrow>
          get_range (\<lambda>i. fetch cdc ctx remote ''eth_getBlockByNumber'' [JStr (EncodeUint64 cdc i), JBool True]
            (header_by_number cdc i)) a b s)"

definition getReceipts :: "codec \<Rightarrow> ctx \<Rightarrow> 's handler \<Rightarrow> query \<Rightarrow> 's \<Rightarrow> Entry list outcome \<times> 's" where
  "getReceipts cdc ctx remote q s =
     (case q of
        QueryHash h \<Rightarrow> (Err (ErrorText ''cannot get block receipts by hash''), s)
      | QueryRange a b \<Rightarrow>
          get_range (\<lambda>i. fetch cdc ctx remote ''eth_getBlockReceipts'' [JStr (EncodeUint64 cdc i)]
            (receipts_by_number cdc i)) a b s)"

text \<open>
  The logs of a range are sorted into the blocks they belong to. A slot holds the block hash of its
  first log and the logs so far.
\<close>

fun sort_logs :: "codec \<Rightarrow> u64 \<Rightarrow> nat \<Rightarrow> json list \<Rightarrow> (nat \<Rightarrow> Entry option) \<Rightarrow> (nat \<Rightarrow> Entry option) outcome" where
  "sort_logs cdc start len [] slots = Ok slots"
| "sort_logs cdc start len (raw # xs) slots =
     outcome_bind (dec_hash_field cdc ''blockHash'' raw) (\<lambda>bh.
     outcome_bind (dec_number_field cdc ''blockNumber'' raw) (\<lambda>n.
       let i = u64_to_i64 (n - start) in
       if i < 0 \<or> int len \<le> i then sort_logs cdc start len xs slots
       else sort_logs cdc start len xs (slots(nat i :=
         Some (case slots (nat i) of
                 None \<Rightarrow> \<lparr>en_BlockHash = bh, en_BlockNumber = n, en_ParentHash = None, en_Value = JArr [raw]\<rparr>
               | Some e \<Rightarrow> e\<lparr>en_Value := (case en_Value e of JArr ys \<Rightarrow> JArr (ys @ [raw]) | v \<Rightarrow> v)\<rparr>)))))"

definition logs_of_range :: "codec \<Rightarrow> u64 \<Rightarrow> u64 \<Rightarrow> json \<Rightarrow> Entry list outcome" where
  "logs_of_range cdc a b logs =
     (if 2 ^ 45 < unat (b - a + 1) then Panic ''makeslice: len out of range''
      else case logs of
        JArr xs \<Rightarrow>
          outcome_bind (sort_logs cdc a (unat (b - a + 1)) xs (\<lambda>_. None)) (\<lambda>slots.
            Ok (List.map_filter slots [0..<unat (b - a + 1)]))
      | _ \<Rightarrow> Err json_type_error)"

definition getLogs :: "codec \<Rightarrow> ctx \<Rightarrow> 's handler \<Rightarrow> query \<Rightarrow> 's \<Rightarrow> Entry list outcome \<times> 's" where
  "getLogs cdc ctx remote q s =
     (case q of
        QueryHash h \<Rightarrow>
          fetch1 (fetch cdc ctx remote ''eth_getLogs''
            [enc_FilterQuery cdc \<lparr>fq_BlockHash = Some h, fq_FromBlock = None, fq_ToBlock = None,
               fq_Addresses = [], fq_Topics = []\<rparr>] (logs_by_hash cdc h) s)
      | QueryRange a b \<Rightarrow>
          if b < a then (Ok [], s)
          else
            let flt = \<lparr>fq_BlockHash = None, fq_FromBlock = Some (u64_to_i64 a), fq_ToBlock = Some (u64_to_i64 b),
                  fq_Addresses = [], fq_Topics = []\<rparr> in
            if u64_to_i64 a = u64_to_i64 b
            then fetch1 (fetch cdc ctx remote ''eth_getLogs'' [enc_FilterQuery cdc flt] (logs_of_block cdc a) s)
            else fetch cdc ctx remote ''eth_getLogs'' [enc_FilterQuery cdc flt] (logs_of_range cdc a b) s)"

definition chain_not_supported :: "Chain \<Rightarrow> 's handler" where
  "chain_not_supported chain = (\<lambda>r s. (send_err (NewInvalidRequestError (''chain not supported: '' @ ch_Name chain)), s))"

text \<open>\<open>clusters\<close> is the middleware of \<open>cluster.Clusters\<close>; \<open>ctx\<close> the context of the caller.\<close>

definition Chainblock_Get :: "codec \<Rightarrow> 's middleware \<Rightarrow> ctx \<Rightarrow> Chain \<Rightarrow> EntryType \<Rightarrow> query \<Rightarrow> 's \<Rightarrow> Entry list outcome \<times> 's" where
  "Chainblock_Get cdc clusters ctx chain ty q s =
     (let ctx' = WithChain ctx chain; remote = clusters (chain_not_supported chain) in
      case ty of
        EntryBlockHeader \<Rightarrow> getBlockHeaders cdc ctx' remote q s
      | EntryReceipts \<Rightarrow> getReceipts cdc ctx' remote q s
      | EntryLogs \<Rightarrow> getLogs cdc ctx' remote q s)"

definition Chainblock_Put :: "Chain \<Rightarrow> EntryType \<Rightarrow> Entry list \<Rightarrow> 's \<Rightarrow> unit outcome \<times> 's" where
  "Chainblock_Put chain ty es s = (Ok (), s)"

definition Chainblock :: "codec \<Rightarrow> 's middleware \<Rightarrow> ctx \<Rightarrow> 's store" where
  "Chainblock cdc clusters ctx = \<lparr>st_Get = Chainblock_Get cdc clusters ctx, st_Put = Chainblock_Put\<rparr>"

section \<open>The store is sound\<close>

text \<open>The hash under which an entry is filed is the one its value carries.\<close>

definition consistent :: "codec \<Rightarrow> string \<Rightarrow> EntryType \<Rightarrow> Entry \<Rightarrow> bool" where
  "consistent cdc chain ty e \<longleftrightarrow>
     (if ty = EntryBlockHeader then dec_hash_field cdc ''hash'' (en_Value e) = Ok (en_BlockHash e)
      else outcome_bind (first_elem (en_Value e)) (dec_hash_field cdc ''blockHash'') = Ok (en_BlockHash e))"

lemma by_hash_ok:
  "header_by_hash cdc h v = Ok (Some e) \<Longrightarrow> en_BlockHash e = h \<and> consistent cdc chain EntryBlockHeader e"
  "logs_by_hash cdc h v = Ok (Some e) \<Longrightarrow> en_BlockHash e = h \<and> consistent cdc chain EntryLogs e"
  by (auto simp: header_by_hash_def logs_by_hash_def consistent_def outcome_bind_Ok_iff split: if_splits)

lemma by_number_ok:
  "header_by_number cdc i v = Ok (Some e) \<Longrightarrow> en_BlockNumber e = i \<and> consistent cdc chain EntryBlockHeader e"
  "receipts_by_number cdc i v = Ok (Some e) \<Longrightarrow> en_BlockNumber e = i \<and> consistent cdc chain EntryReceipts e"
  "logs_of_block cdc i v = Ok (Some e) \<Longrightarrow> en_BlockNumber e = i \<and> consistent cdc chain EntryLogs e"
  by (auto simp: header_by_number_def receipts_by_number_def logs_of_block_def consistent_def outcome_bind_Ok_iff
      split: if_splits)

lemma fetch_Ok: "fetch cdc ctx remote m args dec s = (Ok x, s') \<Longrightarrow> \<exists>v. dec v = Ok x"
  by (auto simp: fetch_def outcome_bind_Ok_iff split: prod.splits)

lemma fetch1_Ok:
  "fetch1 (fetch cdc ctx remote m args dec s) = (Ok es, s') \<Longrightarrow> es = [] \<or> (\<exists>v e. es = [e] \<and> dec v = Ok (Some e))"
  by (auto simp: fetch1_def outcome_bind_Ok_iff split: prod.splits option.splits) (metis fetch_Ok)

lemma fetch1_hash:
  assumes "\<And>v e. dec v = Ok (Some e) \<Longrightarrow> en_BlockHash e = h \<and> P e"
    and "fetch1 (fetch cdc ctx remote m args dec s) = (Ok es, s')"
  shows "matches_query (QueryHash h) es \<and> (\<forall>e \<in> set es. P e)"
  using fetch1_Ok [OF assms(2)] assms(1) by auto

lemma fetch1_number:
  assumes "\<And>v e. dec v = Ok (Some e) \<Longrightarrow> en_BlockNumber e = n \<and> P e"
    and "fetch1 (fetch cdc ctx remote m args dec s) = (Ok es, s')"
  shows "matches_query (QueryRange n n) es \<and> (\<forall>e \<in> set es. P e)"
  using fetch1_Ok [OF assms(2)] assms(1) by auto

lemma fetch_range_Ok:
  assumes "\<And>j s s' e. f j s = (Ok (Some e), s') \<Longrightarrow> en_BlockNumber e = j \<and> P e"
  shows "fetch_range f wraps i n acc s = (Ok es, s') \<Longrightarrow>
     es = [] \<or> (\<exists>new. es = acc @ new \<and> length new = n \<and>
       (\<forall>k < n. en_BlockNumber (new ! k) = i + of_nat k \<and> P (new ! k)))"
proof (induction n arbitrary: i acc s)
  case 0
  then show ?case by (auto split: if_splits prod.splits outcome.splits option.splits)
next
  case (Suc n)
  obtain x s1 where f: "f i s = (x, s1)" by fastforce
  show ?case
  proof (cases "\<exists>e. x = Ok (Some e)")
    case True
    then obtain e where e: "x = Ok (Some e)" by blast
    have he: "en_BlockNumber e = i" "P e" using assms [of i s e s1] f e by auto
    have "fetch_range f wraps (i + 1) n (acc @ [e]) s1 = (Ok es, s')" using Suc.prems f e by simp
    from Suc.IH [OF this] show ?thesis
    proof
      assume "\<exists>new. es = (acc @ [e]) @ new \<and> length new = n \<and>
        (\<forall>k < n. en_BlockNumber (new ! k) = i + 1 + of_nat k \<and> P (new ! k))"
      then obtain new where n: "es = acc @ e # new" "length new = n"
          "\<And>k. k < n \<Longrightarrow> en_BlockNumber (new ! k) = i + 1 + of_nat k \<and> P (new ! k)" by auto
      have "en_BlockNumber ((e # new) ! k) = i + of_nat k \<and> P ((e # new) ! k)" if "k < Suc n" for k
        using he n(3) that by (cases k) (auto simp: ac_simps)
      then show ?thesis using n by (intro disjI2 exI [of _ "e # new"]) simp
    qed simp
  next
    case False
    then show ?thesis using Suc.prems f by (cases x) (auto split: option.splits)
  qed
qed

lemma unat_range:
  assumes "(a :: u64) \<le> b" and "k < unat (b - a + 1)"
  shows "unat (b - a + 1) = unat (b - a) + 1" and "unat (a + of_nat k) = unat a + k" and "a + of_nat k \<le> b"
proof -
  show 1: "unat (b - a + 1) = unat (b - a) + 1"
    using assms(2) by (metis Suc_eq_plus1 add.commute not_less_zero unatSuc unat_0)
  have "unat a + k \<le> unat b" using assms 1 by (simp add: unat_sub word_le_nat_alt)
  moreover have "unat b < 2 ^ 64" using unsigned_less [of b, where ?'a = nat] by simp
  ultimately have "unat a + k < 2 ^ 64" "k < 2 ^ 64" by linarith+
  then show 2: "unat (a + of_nat k) = unat a + k" by (simp add: unat_word_ariths unat_of_nat)
  then show "a + of_nat k \<le> b" using \<open>unat a + k \<le> unat b\<close> by (simp add: word_le_nat_alt)
qed

lemma get_range_Ok:
  assumes "\<And>j s s' e. f j s = (Ok (Some e), s') \<Longrightarrow> en_BlockNumber e = j \<and> P e"
    and "get_range f a b s = (Ok es, s')"
  shows "matches_query (QueryRange a b) es \<and> (\<forall>e \<in> set es. P e)"
proof (cases "es = []")
  case False
  have le: "a \<le> b" and fr: "fetch_range f (b = - 1) a (unat (b - a + 1)) [] s = (Ok es, s')"
    using assms(2) False by (auto simp: get_range_def split: if_splits)
  have es: "length es = unat (b - a + 1)"
      "\<forall>k < length es. en_BlockNumber (es ! k) = a + of_nat k \<and> P (es ! k)"
    using fetch_range_Ok [where P = P, OF assms(1) fr] False by auto
  have "0 < unat (b - a + 1)" using es(1) False by (cases es) auto
  then have "length es = unat (b - a) + 1" using es(1) unat_range(1) [OF le] by simp
  then have "matches_query (QueryRange a b) es"
    using es(2) by (intro consecutive_numbers [OF le]) auto
  then show ?thesis using es(2) by (auto simp: in_set_conv_nth)
qed simp

text \<open>Every slot holds the logs of its own block, under the hash of the first of them.\<close>

definition slots_ok :: "codec \<Rightarrow> u64 \<Rightarrow> (nat \<Rightarrow> Entry option) \<Rightarrow> bool" where
  "slots_ok cdc start slots \<longleftrightarrow> (\<forall>i e. slots i = Some e \<longrightarrow>
     en_BlockNumber e = start + of_nat i \<and>
     (\<exists>x ys. en_Value e = JArr (x # ys) \<and> dec_hash_field cdc ''blockHash'' x = Ok (en_BlockHash e)))"

lemma slots_ok_upd:
  assumes "slots_ok cdc start slots"
    and "en_BlockNumber e = start + of_nat i \<and>
      (\<exists>x ys. en_Value e = JArr (x # ys) \<and> dec_hash_field cdc ''blockHash'' x = Ok (en_BlockHash e))"
  shows "slots_ok cdc start (slots(i := Some e))"
  using assms by (simp add: slots_ok_def)

lemma u64_to_i64_nonneg: "0 \<le> u64_to_i64 w \<Longrightarrow> of_nat (nat (u64_to_i64 w)) = w"
proof -
  assume nn: "0 \<le> u64_to_i64 w"
  have w: "0 \<le> uint w" "uint w < 2 ^ 64" using unsigned_less [of w, where ?'a = int] by simp_all
  have "uint w < 2 ^ 63"
  proof (rule ccontr)
    assume "\<not> uint w < 2 ^ 63"
    then have "(uint w + 2 ^ 63 - 2 ^ 64) mod 2 ^ 64 = uint w + 2 ^ 63 - 2 ^ 64"
      using w(2) by (intro mod_pos_pos_trivial) simp_all
    moreover have "(uint w + 2 ^ 63) mod 2 ^ 64 = (uint w + 2 ^ 63 - 2 ^ 64) mod 2 ^ 64"
      by (rule minus_mod_self2 [symmetric])
    ultimately have "u64_to_i64 w = uint w - 2 ^ 64" unfolding u64_to_i64_def wrap64_def by simp
    with nn w(2) show False by linarith
  qed
  moreover have "- (2 ^ 63) \<le> uint w" by (rule order_trans [OF _ w(1)]) simp
  ultimately have "u64_to_i64 w = uint w" unfolding u64_to_i64_def by (intro wrap64_id) (simp add: in_i64_def)
  then show ?thesis by simp
qed

lemma word_of_int_wrap64: "word_of_int (u64_to_i64 w) = w"
proof -
  have "u64_to_i64 w mod 2 ^ 64 = uint w mod 2 ^ 64"
    by (simp add: u64_to_i64_def wrap64_def mod_simps)
  then have "(word_of_int (u64_to_i64 w) :: u64) = word_of_int (uint w)"
    unfolding word_of_int_eq_iff take_bit_eq_mod by simp
  then show ?thesis by simp
qed

lemma sort_logs_ok:
  "sort_logs cdc start len xs slots = Ok slots' \<Longrightarrow> slots_ok cdc start slots \<Longrightarrow> slots_ok cdc start slots'"
proof (induction xs arbitrary: slots)
  case Nil
  then show ?case by simp
next
  case (Cons raw xs)
  obtain bh n where bh: "dec_hash_field cdc ''blockHash'' raw = Ok bh"
      and n: "dec_number_field cdc ''blockNumber'' raw = Ok n"
    using Cons.prems(1) by (auto simp: outcome_bind_Ok_iff)
  let ?i = "u64_to_i64 (n - start)"
  show ?case
  proof (cases "?i < 0 \<or> int len \<le> ?i")
    case True
    then show ?thesis using Cons by (simp add: bh n)
  next
    case False
    let ?e = "case slots (nat ?i) of
                 None \<Rightarrow> \<lparr>en_BlockHash = bh, en_BlockNumber = n, en_ParentHash = None, en_Value = JArr [raw]\<rparr>
               | Some e \<Rightarrow> e\<lparr>en_Value := (case en_Value e of JArr ys \<Rightarrow> JArr (ys @ [raw]) | v \<Rightarrow> v)\<rparr>"
    have "n = start + of_nat (nat ?i)" using False u64_to_i64_nonneg [of "n - start"] by simp
    then have "en_BlockNumber ?e = start + of_nat (nat ?i) \<and>
        (\<exists>x ys. en_Value ?e = JArr (x # ys) \<and> dec_hash_field cdc ''blockHash'' x = Ok (en_BlockHash ?e))"
    proof (cases "slots (nat ?i)")
      case (Some e)
      then obtain x ys where "en_BlockNumber e = start + of_nat (nat ?i)" "en_Value e = JArr (x # ys)"
          "dec_hash_field cdc ''blockHash'' x = Ok (en_BlockHash e)"
        using Cons.prems(2) unfolding slots_ok_def by blast
      then show ?thesis using Some by simp
    qed (simp add: bh)
    then have "slots_ok cdc start (slots(nat ?i := Some ?e))"
      by (rule slots_ok_upd [OF Cons.prems(2)])
    moreover have "sort_logs cdc start len xs (slots(nat ?i := Some ?e)) = Ok slots'"
      using Cons.prems(1) False by (simp add: bh n Let_def)
    ultimately show ?thesis using Cons.IH by blast
  qed
qed

lemma map_filter_slots_sorted:
  assumes le: "a \<le> b" and ok: "slots_ok cdc a slots"
  shows "n \<le> unat (b - a + 1) \<Longrightarrow>
     sorted_wrt (<) (map en_BlockNumber (List.map_filter slots [0..<n])) \<and>
     (\<forall>e \<in> set (List.map_filter slots [0..<n]). \<exists>k < n. slots k = Some e)"
proof (induction n)
  case 0
  then show ?case by (simp add: map_filter_simps)
next
  case (Suc n)
  have split: "List.map_filter slots [0..<Suc n] = List.map_filter slots [0..<n] @ (case slots n of None \<Rightarrow> [] | Some e \<Rightarrow> [e])"
    by (auto simp: List.map_filter_def split: option.splits)
  have num: "slots k = Some e \<Longrightarrow> en_BlockNumber e = a + of_nat k" for k e
    using ok by (simp add: slots_ok_def)
  have "a + of_nat k < a + of_nat n" if "k < n" for k :: nat
    using unat_range(2) [OF le, of k] unat_range(2) [OF le, of n] that Suc.prems by (simp add: word_less_nat_alt)
  then show ?case
    using Suc.IH Suc.prems num unfolding split
    by (auto simp: sorted_wrt_append split: option.split) (metis less_Suc_eq)+
qed

lemma logs_of_range_Ok:
  assumes "a \<le> b" and "logs_of_range cdc a b v = Ok es"
  shows "matches_query (QueryRange a b) es \<and> (\<forall>e \<in> set es. consistent cdc chain EntryLogs e)"
proof -
  obtain xs slots where sl: "sort_logs cdc a (unat (b - a + 1)) xs (\<lambda>_. None) = Ok slots"
      and es: "es = List.map_filter slots [0..<unat (b - a + 1)]"
    using assms(2) by (auto simp: logs_of_range_def outcome_bind_Ok_iff split: if_splits json.splits)
  have ok: "slots_ok cdc a slots" using sort_logs_ok [OF sl] by (simp add: slots_ok_def)
  note srt = map_filter_slots_sorted [OF assms(1) ok order_refl, folded es]
  have "a \<le> en_BlockNumber e \<and> en_BlockNumber e \<le> b \<and> consistent cdc chain EntryLogs e" if "e \<in> set es" for e
  proof -
    obtain k where k: "k < unat (b - a + 1)" "slots k = Some e" using srt \<open>e \<in> set es\<close> by blast
    then obtain x ys where e: "en_BlockNumber e = a + of_nat k" "en_Value e = JArr (x # ys)"
        "dec_hash_field cdc ''blockHash'' x = Ok (en_BlockHash e)"
      using ok unfolding slots_ok_def by blast
    then have "consistent cdc chain EntryLogs e" by (simp add: consistent_def)
    then show ?thesis
      using e(1) unat_range(2,3) [OF assms(1) k(1)] by (simp add: word_le_nat_alt)
  qed
  then show ?thesis using srt by simp
qed

lemma getBlockHeaders_Ok:
  assumes "getBlockHeaders cdc ctx remote q s = (Ok es, s')"
  shows "matches_query q es \<and> (\<forall>e \<in> set es. consistent cdc chain EntryBlockHeader e)"
proof (cases q)
  case (QueryRange a b)
  let ?f = "\<lambda>i. fetch cdc ctx remote ''eth_getBlockByNumber'' [JStr (EncodeUint64 cdc i), JBool True] (header_by_number cdc i)"
  have "?f j s = (Ok (Some e), s') \<Longrightarrow> en_BlockNumber e = j \<and> consistent cdc chain EntryBlockHeader e" for j s s' e
    using by_number_ok(1) by (blast dest: fetch_Ok)
  from get_range_Ok [of ?f, OF this] show ?thesis using assms QueryRange by (simp add: getBlockHeaders_def)
next
  case (QueryHash h)
  have "fetch1 (fetch cdc ctx remote ''eth_getBlockByHash'' [JStr (hash_Hex cdc h), JBool True] (header_by_hash cdc h) s) = (Ok es, s')"
    using assms QueryHash by (simp add: getBlockHeaders_def)
  from fetch1_hash [where P = "consistent cdc chain EntryBlockHeader", OF by_hash_ok(1) this] show ?thesis
    using QueryHash by simp
qed

lemma getReceipts_Ok:
  assumes "getReceipts cdc ctx remote q s = (Ok es, s')"
  shows "matches_query q es \<and> (\<forall>e \<in> set es. consistent cdc chain EntryReceipts e)"
proof (cases q)
  case (QueryRange a b)
  let ?f = "\<lambda>i. fetch cdc ctx remote ''eth_getBlockReceipts'' [JStr (EncodeUint64 cdc i)] (receipts_by_number cdc i)"
  have "?f j s = (Ok (Some e), s') \<Longrightarrow> en_BlockNumber e = j \<and> consistent cdc chain EntryReceipts e" for j s s' e
    using by_number_ok(2) by (blast dest: fetch_Ok)
  from get_range_Ok [of ?f, OF this] show ?thesis using assms QueryRange by (simp add: getReceipts_def)
next
  case (QueryHash h)
  then show ?thesis using assms by (simp add: getReceipts_def)
qed

lemma getLogs_Ok:
  assumes "getLogs cdc ctx remote q s = (Ok es, s')"
  shows "matches_query q es \<and> (\<forall>e \<in> set es. consistent cdc chain EntryLogs e)"
proof (cases q)
  case (QueryHash h)
  let ?flt = "\<lparr>fq_BlockHash = Some h, fq_FromBlock = None, fq_ToBlock = None, fq_Addresses = [], fq_Topics = []\<rparr>"
  have "fetch1 (fetch cdc ctx remote ''eth_getLogs'' [enc_FilterQuery cdc ?flt] (logs_by_hash cdc h) s) = (Ok es, s')"
    using assms QueryHash by (simp add: getLogs_def)
  from fetch1_hash [where P = "consistent cdc chain EntryLogs", OF by_hash_ok(2) this] show ?thesis
    using QueryHash by simp
next
  case (QueryRange a b)
  have single: "u64_to_i64 a = u64_to_i64 b \<Longrightarrow> a = b"
    by (metis word_of_int_wrap64)
  consider "b < a" | "a \<le> b" "u64_to_i64 a = u64_to_i64 b" | "a \<le> b" "u64_to_i64 a \<noteq> u64_to_i64 b"
    by (metis not_less)
  then show ?thesis
  proof cases
    case 1
    then show ?thesis using assms QueryRange by (simp add: getLogs_def)
  next
    case 2
    let ?flt = "\<lparr>fq_BlockHash = None, fq_FromBlock = Some (u64_to_i64 a), fq_ToBlock = Some (u64_to_i64 b),
        fq_Addresses = [], fq_Topics = []\<rparr>"
    have "fetch1 (fetch cdc ctx remote ''eth_getLogs'' [enc_FilterQuery cdc ?flt] (logs_of_block cdc a) s) = (Ok es, s')"
      using assms QueryRange 2 not_less [of b a] unfolding getLogs_def Let_def by simp
    from fetch1_number [where P = "consistent cdc chain EntryLogs", OF by_number_ok(3) this] show ?thesis
      using QueryRange single [OF 2(2)] by simp
  next
    case 3
    then have "\<not> b < a" by (simp add: not_less)
    then obtain v where "logs_of_range cdc a b v = Ok es"
      using assms QueryRange 3(2) unfolding getLogs_def Let_def by (auto dest!: fetch_Ok)
    from logs_of_range_Ok [OF 3(1) this] show ?thesis using QueryRange by simp
  qed
qed

text \<open>The store of last resort is sound as long as calling the remotes keeps the invariant.\<close>

lemma fetch_keeps:
  "(\<And>r s. I s \<Longrightarrow> I (snd (remote r s))) \<Longrightarrow> I s \<Longrightarrow> I (snd (fetch cdc ctx remote m args dec s))"
  by (simp add: fetch_def split_beta Do_state)

lemma fetch_range_keeps:
  assumes "\<And>i s. I s \<Longrightarrow> I (snd (f i s))"
  shows "I s \<Longrightarrow> I (snd (fetch_range f wraps i n acc s))"
proof (induction n arbitrary: i acc s)
  case 0
  then show ?case using assms [of s i] by (auto split: prod.splits outcome.splits option.splits)
next
  case (Suc n)
  obtain x s1 where f: "f i s = (x, s1)" by fastforce
  have "I s1" using assms [OF Suc.prems, of i] f by simp
  then show ?case using Suc.IH f by (auto split: outcome.splits option.splits)
qed

lemma chainblock_sound:
  assumes keep: "\<And>chain r s. I s \<Longrightarrow> I (snd (clusters (chain_not_supported chain) r s))"
  shows "sound_store (Chainblock cdc clusters ctx) I (consistent cdc)"
proof
  fix s :: 'a and chain ty q
  assume I: "I s"
  let ?r = "clusters (chain_not_supported chain)"
  have f: "I s \<Longrightarrow> I (snd (fetch cdc (WithChain ctx chain) ?r m args dec s))"
    for m args s and dec :: "json \<Rightarrow> 'z outcome"
    by (rule fetch_keeps [where I = I]) (use keep in auto)
  have f1: "I s \<Longrightarrow> I (snd (fetch1 (fetch cdc (WithChain ctx chain) ?r m args dec s)))" for m args dec s
    using f by (simp add: fetch1_def split_beta)
  have fr: "I (snd (get_range (\<lambda>i. fetch cdc (WithChain ctx chain) ?r m (args i) (dec i)) a b s))" for m args dec a b
    unfolding get_range_def using fetch_range_keeps [where I = I, OF f I] I by simp
  show "I (snd (st_Get (Chainblock cdc clusters ctx) chain ty q s))"
    by (cases ty; cases q)
      (simp_all add: I f f1 fr Chainblock_def Chainblock_Get_def getBlockHeaders_def getReceipts_def getLogs_def Let_def)
  show "matches_query q es \<and> (\<forall>e \<in> set es. consistent cdc (ch_Name chain) ty e)"
    if "st_Get (Chainblock cdc clusters ctx) chain ty q s = (Ok es, s')" for es s'
    using that getBlockHeaders_Ok getReceipts_Ok getLogs_Ok
    by (cases ty) (simp_all add: Chainblock_def Chainblock_Get_def Let_def)
  show "I (snd (st_Put (Chainblock cdc clusters ctx) chain ty es s))" for es
    using I by (simp add: Chainblock_def Chainblock_Put_def)
qed

text \<open>Whatever the remotes do, the chain is a sound source of blocks.\<close>

interpretation chain_source: sound_store "Chainblock cdc clusters ctx" "\<lambda>_. True" "consistent cdc" for cdc clusters ctx
  by (rule chainblock_sound) simp

lemma remote_block_of_number:
  "st_Get (Chainblock cdc clusters ctx) chain ty (QueryNumber n) s = (Ok [e], s') \<Longrightarrow>
   en_BlockNumber e = n \<and> consistent cdc (ch_Name chain) ty e"
  by (rule chain_source.get_number) simp_all

section \<open>The stores of a node\<close>

text \<open>
  \<open>svc/node/atoms/vennstore\<close>: the LRU store, Redis when there is one, and the chain, behind the
  deduplication of requests.
\<close>

definition vennstore :: "codec \<Rightarrow> (string \<Rightarrow> ('s \<Rightarrow> Entry list outcome \<times> 's) \<Rightarrow> 's \<Rightarrow> Entry list outcome \<times> 's)
    \<Rightarrow> 's store \<Rightarrow> 's store option \<Rightarrow> 's store \<Rightarrow> 's store" where
  "vennstore cdc flight lru rediblock chainblock =
     SingleFlight cdc flight (CompoundStore
       (AddStore ''blockgetter'' (Some chainblock)
          (AddStore ''rediblock'' rediblock (AddStore ''lru'' (Some lru) []))))"

text \<open>A call that no other call with the same key overlaps.\<close>

definition no_overlap :: "string \<Rightarrow> ('s \<Rightarrow> 'a \<times> 's) \<Rightarrow> 's \<Rightarrow> 'a \<times> 's" where
  "no_overlap key f s = f s"

text \<open>
  What the library of \<open>group.DoChan\<close> promises: a call runs its function, or it joins a call of the same
  key that is in progress, which has run the same query from some other state of the stores, and
  gets the result of that call without running anything itself.
\<close>

definition shared_flight :: "('s \<Rightarrow> bool) \<Rightarrow> (string \<Rightarrow> ('s \<Rightarrow> 'a \<times> 's) \<Rightarrow> 's \<Rightarrow> 'a \<times> 's) \<Rightarrow> bool" where
  "shared_flight I flight \<longleftrightarrow> (\<forall>key f s. flight key f s = f s \<or> (\<exists>t. I t \<and> flight key f s = (fst (f t), s)))"

lemma no_overlap_shared: "shared_flight I no_overlap"
  by (simp add: shared_flight_def no_overlap_def)

lemma single_flight_sound:
  assumes "sound_store st I ok" and "shared_flight I flight"
  shows "sound_store (SingleFlight cdc flight st) I ok"
proof
  fix s chain ty q es s'
  assume I: "I s"
  let ?f = "st_Get st chain ty q" and ?k = "groupQuery cdc chain ty q"
  have run: "flight ?k ?f s = ?f s \<or> (\<exists>t. I t \<and> flight ?k ?f s = (fst (?f t), s))"
    using assms(2) by (simp add: shared_flight_def)
  then show "I (snd (st_Get (SingleFlight cdc flight st) chain ty q s))"
    using I sound_store.get_inv [OF assms(1) I] by (auto simp: SingleFlight_def)
  assume "st_Get (SingleFlight cdc flight st) chain ty q s = (Ok es, s')"
  then have "flight ?k ?f s = (Ok es, s')" by (simp add: SingleFlight_def)
  then obtain t where "I t" "fst (?f t) = Ok es" using run I by (metis fst_conv)
  then show "matches_query q es \<and> (\<forall>e \<in> set es. ok (ch_Name chain) ty e)"
    using sound_store.get_ok [OF assms(1), of t chain ty q es "snd (?f t)"] by (simp add: prod_eq_iff)
next
  fix s es ty and chain :: Chain
  assume "I s" and "\<forall>e \<in> set es. ok (ch_Name chain) ty e"
  then show "I (snd (st_Put (SingleFlight cdc flight st) chain ty es s))"
    using sound_store.put_inv [OF assms(1)] by (simp add: SingleFlight_def)
qed

lemma vennstore_sound:
  assumes "sound_store lru I ok" and "\<And>x. rediblock = Some x \<Longrightarrow> sound_store x I ok" and "sound_store chainblock I ok"
    and "shared_flight I flight"
  shows "sound_store (vennstore cdc flight lru rediblock chainblock) I ok"
proof -
  let ?stores = "AddStore ''blockgetter'' (Some chainblock)
          (AddStore ''rediblock'' rediblock (AddStore ''lru'' (Some lru) []))"
  have "sound_store (CompoundStore ?stores) I ok"
    by (rule compound_sound) (use assms(1-3) in \<open>auto simp: AddStore_def split: option.splits\<close>)
  then show ?thesis using single_flight_sound assms(4) by (simp add: vennstore_def)
qed

section \<open>Properties\<close>

text \<open>
  What a node without Redis answers from its block store, from the cache or from the remotes,
  is filed under the hash that the data itself carries, is of the block asked for, and the answer
  leaves the cache in the same order.
\<close>

theorem node_store_consistent:
  assumes "lru_ok (lp_hash ops) vh" and "lru_ok (lp_number ops) vn" and "mem_cell c"
    and "\<And>chain. keeps_cell c (clusters (chain_not_supported chain))"
    and "lru_inv vh vn (consistent cdc) (rd c s)"
    and "st_Get (vennstore cdc no_overlap (lru_store ops c) None (Chainblock cdc clusters ctx)) chain ty q s = (Ok es, s')"
  shows "matches_query q es \<and> (\<forall>e \<in> set es. consistent cdc (ch_Name chain) ty e) \<and> lru_inv vh vn (consistent cdc) (rd c s')"
proof -
  let ?I = "\<lambda>s. lru_inv vh vn (consistent cdc) (rd c s)"
  have "sound_store (lru_store ops c) ?I (consistent cdc)" by (rule lru_store_sound [OF assms(1,2,3)])
  moreover have "sound_store (Chainblock cdc clusters ctx) ?I (consistent cdc)"
    by (rule chainblock_sound) (use assms(4) in \<open>simp add: keeps_cell_def\<close>)
  ultimately have "sound_store (vennstore cdc no_overlap (lru_store ops c) None (Chainblock cdc clusters ctx)) ?I (consistent cdc)"
    by (intro vennstore_sound no_overlap_shared) auto
  from sound_store.get_soundD [OF this, of s, OF assms(5,6)] show ?thesis by blast
qed

definition demo_clusters :: "'s middleware" where
  "demo_clusters next = (\<lambda>r s. (send_ok (ARaw (JObj [(''hash'', JStr (hash_Hex eth_codec 9))])), s))"

theorem node_store_consistent_witness:
  "\<exists>e s'. st_Get (vennstore eth_codec no_overlap (lru_store map_lrus own_cell) None
       (Chainblock eth_codec demo_clusters Background)) demo_chain EntryBlockHeader (QueryNumber 5)
       \<lparr>ls_byHash = Map.empty, ls_byNumber = Map.empty\<rparr> = (Ok [e], s') \<and>
     en_BlockHash e = 9 \<and> consistent eth_codec ''eth'' EntryBlockHeader e"
proof -
  let ?s = "\<lparr>ls_byHash = Map.empty, ls_byNumber = Map.empty\<rparr> :: (lruHashKey \<rightharpoonup> Entry, lruNumberKey \<rightharpoonup> Entry) LruStore"
  let ?v = "JObj [(''hash'', JStr (hash_Hex eth_codec 9))]"
  let ?e = "\<lparr>en_BlockHash = 9, en_BlockNumber = 5, en_ParentHash = Some 0, en_Value = ?v\<rparr>"
  let ?st = "vennstore eth_codec no_overlap (lru_store map_lrus own_cell) None (Chainblock eth_codec demo_clusters Background)"
  have dec: "dec_Hash eth_codec (JStr (hash_Hex eth_codec 9)) = Ok 9"
    using eth_codec_ok by (simp add: codec_ok_def)
  have "fold_name ''hash'' \<noteq> fold_name ''parentHash''" by code_simp
  then have hdr: "header_by_number eth_codec 5 ?v = Ok (Some ?e)"
    by (simp add: header_by_number_def dec_hash_field_def dec)
  have get: "\<exists>s'. st_Get ?st demo_chain EntryBlockHeader (QueryNumber 5) ?s = (Ok [?e], s')"
    by (simp add: vennstore_def SingleFlight_def no_overlap_def CompoundStore_def CompoundStore_Get_def AddStore_def
        QueryNumber_def lru_store_def LruStore_Get_def map_lrus_def map_lru_def own_cell_def Chainblock_def Chainblock_Get_def
        getBlockHeaders_def get_range_def fetch_def Do_def serve_icept_eq demo_clusters_def send_ok_def hdr Let_def
        split_beta)
  then obtain s' where g: "st_Get ?st demo_chain EntryBlockHeader (QueryNumber 5) ?s = (Ok [?e], s')" by blast
  have "keeps_cell own_cell (demo_clusters (chain_not_supported chain))" for chain
    by (simp add: keeps_cell_def demo_clusters_def)
  from node_store_consistent [OF _ _ own_cell_ok this _ g, of "\<lambda>m. m" "\<lambda>m. m"] g show ?thesis
    by (auto simp: map_lrus_def map_lru_ok lru_inv_def index_ok_def own_cell_def demo_chain_def)
qed

end
