(* ===== verification/Venn_Rediblock.thy ===== *)
theory Venn_Rediblock
  imports Venn_Chainblock
begin

text \<open>
  \<open>svc/node/stores/vennstores/rediblock\<close>: the block store shared through Redis, with its two scripts.
  The keys are the source's key formats as constructors over the name of the chain, the type and
  the block; a key holds a value and, unless it is the head, the second at which it expires. Script
  numbers are exact, as they are for block numbers below \<open>10^14\<close>. \<open>down\<close> gives the error of a
  connection that fails, for each call by itself, \<open>now\<close> the clock of the server in seconds. A call
  that fails has no effect.
\<close>

datatype redis_call = GetCall | CheckCall | KeysCall | DelCall | AddCall

datatype rkey =
    RHead string
  | RHashValue string EntryType hash
  | RHashNumber string EntryType hash
  | RNumValue string EntryType u64
  | RNumHash string EntryType u64

datatype rval = RVal json | RNum u64 | RHash hash

type_synonym redis_db = "rkey \<rightharpoonup> rval \<times> int option"

definition rget :: "int \<Rightarrow> redis_db \<Rightarrow> rkey \<Rightarrow> rval option" where
  "rget now db k =
     (case db k of
        None \<Rightarrow> None
      | Some (v, None) \<Rightarrow> Some v
      | Some (v, Some t) \<Rightarrow> if t \<le> now then None else Some v)"

section \<open>Scripts\<close>

text \<open>\<open>checkReorgScript\<close>: the first key whose value differs from the expected one.\<close>

fun check_reorg :: "int \<Rightarrow> redis_db \<Rightarrow> (rkey \<times> hash) list \<Rightarrow> rval option" where
  "check_reorg now db [] = None"
| "check_reorg now db ((k, expected) # ks) =
     (case rget now db k of
        Some actual \<Rightarrow> if actual \<noteq> RHash expected then Some actual else check_reorg now db ks
      | None \<Rightarrow> check_reorg now db ks)"

definition expiry :: "int \<Rightarrow> u64 \<Rightarrow> u64 \<Rightarrow> int" where
  "expiry secondsPerBlock head number =
     (let behind = max 1 (uint head - uint number + 1) in min 3600 (max 1 (behind * secondsPerBlock)))"

text \<open>\<open>addEntriesScript\<close>, for the entries of one chain and type.\<close>

definition add_entry :: "int \<Rightarrow> int \<Rightarrow> string \<Rightarrow> EntryType \<Rightarrow> Entry \<Rightarrow> u64 \<times> redis_db \<Rightarrow> u64 \<times> redis_db" where
  "add_entry now secondsPerBlock chain ty e = (\<lambda>(head, db).
     let number = en_BlockNumber e;
         (head1, db1) = (if head < number then (number, db(RHead chain \<mapsto> (RNum number, None))) else (head, db));
         t = Some (now + expiry secondsPerBlock head1 number)
     in (head1, db1(RHashValue chain ty (en_BlockHash e) \<mapsto> (RVal (en_Value e), t),
                    RHashNumber chain ty (en_BlockHash e) \<mapsto> (RNum number, t),
                    RNumValue chain ty number \<mapsto> (RVal (en_Value e), t),
                    RNumHash chain ty number \<mapsto> (RHash (en_BlockHash e), t))))"

fun add_entries :: "int \<Rightarrow> int \<Rightarrow> string \<Rightarrow> EntryType \<Rightarrow> Entry list \<Rightarrow> u64 \<times> redis_db \<Rightarrow> u64 \<times> redis_db" where
  "add_entries now spb chain ty [] x = x"
| "add_entries now spb chain ty (e # es) x = add_entries now spb chain ty es (add_entry now spb chain ty e x)"

definition script_head :: "int \<Rightarrow> redis_db \<Rightarrow> string \<Rightarrow> u64" where
  "script_head now db chain = (case rget now db (RHead chain) of Some (RNum n) \<Rightarrow> n | _ \<Rightarrow> 0)"

section \<open>Get\<close>

definition redis_nil :: gerror where
  "redis_nil = Sentinel RedisNil"

text \<open>One block of a range: both keys have to be there.\<close>

definition get_number :: "int \<Rightarrow> redis_db \<Rightarrow> string \<Rightarrow> EntryType \<Rightarrow> u64 \<Rightarrow> Entry outcome" where
  "get_number now db chain ty n =
     (case (rget now db (RNumValue chain ty n), rget now db (RNumHash chain ty n)) of
        (Some (RVal v), Some (RHash h)) \<Rightarrow> Ok \<lparr>en_BlockHash = h, en_BlockNumber = n, en_ParentHash = None, en_Value = v\<rparr>
      | _ \<Rightarrow> Err redis_nil)"

text \<open>
  The loop over a range that ends at the largest number does not return. An empty pipeline is not
  sent, so that the connection does not matter to it.
\<close>

definition Rediblock_Get :: "(redis_call \<Rightarrow> 's \<Rightarrow> gerror option) \<Rightarrow> ('s \<Rightarrow> int) \<Rightarrow> ('s, redis_db) cell \<Rightarrow> Chain \<Rightarrow> EntryType \<Rightarrow> query \<Rightarrow> 's
    \<Rightarrow> Entry list outcome \<times> 's" where
  "Rediblock_Get down now c chain ty q s =
     ((case q of
         QueryHash h \<Rightarrow>
           (case down GetCall s of
              Some e \<Rightarrow> Err e
            | None \<Rightarrow>
                (case (rget (now s) (rd c s) (RHashValue (ch_Name chain) ty h), rget (now s) (rd c s) (RHashNumber (ch_Name chain) ty h)) of
                   (Some (RVal v), Some (RNum n)) \<Rightarrow> Ok [\<lparr>en_BlockHash = h, en_BlockNumber = n, en_ParentHash = None, en_Value = v\<rparr>]
                 | _ \<Rightarrow> Err redis_nil))
       | QueryRange a b \<Rightarrow>
           if 2 ^ 45 < unat ((b - a + 1) * 2) then Panic ''makeslice: cap out of range''
           else if b < a then Ok []
           else if b = - 1 then Panic ''does not return''
           else
             (case down GetCall s of
                Some e \<Rightarrow> Err e
              | None \<Rightarrow> map_outcome (get_number (now s) (rd c s) (ch_Name chain) ty) (map word_of_nat [unat a..<unat b + 1]))), s)"

section \<open>Put\<close>

definition reorg_checks :: "string \<Rightarrow> EntryType \<Rightarrow> Entry list \<Rightarrow> (rkey \<times> hash) list" where
  "reorg_checks chain ty es =
     concat (map (\<lambda>e. case en_ParentHash e of None \<Rightarrow> [] | Some p \<Rightarrow> [(RNumHash chain ty (en_BlockNumber e - 1), p)]) es)"

fun by_number_of :: "string \<Rightarrow> rkey \<Rightarrow> bool" where
  "by_number_of chain (RNumValue c ty n) = (c = chain)"
| "by_number_of chain (RNumHash c ty n) = (c = chain)"
| "by_number_of chain _ = False"

text \<open>\<open>reorg\<close>: every key by number of the chain is deleted, of all types.\<close>

definition reorg :: "string \<Rightarrow> redis_db \<Rightarrow> redis_db" where
  "reorg chain db = (\<lambda>k. if by_number_of chain k then None else db k)"

definition seconds_per_block :: "Chain \<Rightarrow> int" where
  "seconds_per_block chain = \<lfloor>max 1 (ch_BlockTimeSeconds chain)\<rfloor>"

text \<open>The calls of \<open>reorg\<close>: listing the keys and deleting them can each fail.\<close>

definition Rediblock_reorg :: "(redis_call \<Rightarrow> 's \<Rightarrow> gerror option) \<Rightarrow> ('s, redis_db) cell \<Rightarrow> Chain \<Rightarrow> 's \<Rightarrow> unit outcome \<times> 's" where
  "Rediblock_reorg down c chain s =
     (case down KeysCall s of
        Some e \<Rightarrow> (if e = redis_nil then Ok () else Err e, s)
      | None \<Rightarrow>
          (case down DelCall s of
             Some e \<Rightarrow> (Err e, s)
           | None \<Rightarrow> (Ok (), wr c (reorg (ch_Name chain) (rd c s)) s)))"

text \<open>The check for a reorganisation, made only when an entry has a parent.\<close>

definition put_check :: "(redis_call \<Rightarrow> 's \<Rightarrow> gerror option) \<Rightarrow> ('s \<Rightarrow> int) \<Rightarrow> ('s, redis_db) cell \<Rightarrow> Chain \<Rightarrow> EntryType \<Rightarrow> Entry list \<Rightarrow> 's
    \<Rightarrow> unit outcome \<times> 's" where
  "put_check down now c chain ty es s =
     (let ks = reorg_checks (ch_Name chain) ty es in
      if ks = [] then (Ok (), s)
      else
        (case down CheckCall s of
           Some e \<Rightarrow> (Err e, s)
         | None \<Rightarrow> if check_reorg (now s) (rd c s) ks \<noteq> None then Rediblock_reorg down c chain s else (Ok (), s)))"

definition put_add :: "(redis_call \<Rightarrow> 's \<Rightarrow> gerror option) \<Rightarrow> int \<Rightarrow> ('s, redis_db) cell \<Rightarrow> Chain \<Rightarrow> EntryType \<Rightarrow> Entry list \<Rightarrow> 's
    \<Rightarrow> unit outcome \<times> 's" where
  "put_add down t c chain ty es s =
     (case down AddCall s of
        Some e \<Rightarrow> (if e = redis_nil then Ok () else Err e, s)
      | None \<Rightarrow>
          (Ok (), wr c (snd (add_entries t (seconds_per_block chain) (ch_Name chain) ty es (script_head t (rd c s) (ch_Name chain), rd c s))) s))"

definition Rediblock_Put :: "(redis_call \<Rightarrow> 's \<Rightarrow> gerror option) \<Rightarrow> ('s \<Rightarrow> int) \<Rightarrow> ('s, redis_db) cell \<Rightarrow> Chain \<Rightarrow> EntryType \<Rightarrow> Entry list \<Rightarrow> 's
    \<Rightarrow> unit outcome \<times> 's" where
  "Rediblock_Put down now c chain ty es s =
     (case put_check down now c chain ty es s of
        (Ok _, s1) \<Rightarrow> put_add down (now s) c chain ty es s1
      | (Err e, s1) \<Rightarrow> (Err e, s1)
      | (Panic m, s1) \<Rightarrow> (Panic m, s1))"

definition rediblock_store :: "(redis_call \<Rightarrow> 's \<Rightarrow> gerror option) \<Rightarrow> ('s \<Rightarrow> int) \<Rightarrow> ('s, redis_db) cell \<Rightarrow> 's store" where
  "rediblock_store down now c = \<lparr>st_Get = Rediblock_Get down now c, st_Put = Rediblock_Put down now c\<rparr>"

section \<open>Lemmas\<close>

lemma expiry_bounds: "1 \<le> expiry spb head number \<and> expiry spb head number \<le> 3600"
  by (simp add: expiry_def Let_def)

text \<open>
  What is filed under a block is genuine: the two keys of a block expire together and their values
  make an entry that is \<open>ok\<close>.
\<close>

definition redis_inv :: "(string \<Rightarrow> EntryType \<Rightarrow> Entry \<Rightarrow> bool) \<Rightarrow> redis_db \<Rightarrow> bool" where
  "redis_inv ok db \<longleftrightarrow>
     (\<forall>c ty n v t h u. db (RNumValue c ty n) = Some (RVal v, t) \<longrightarrow> db (RNumHash c ty n) = Some (RHash h, u) \<longrightarrow>
        ok c ty \<lparr>en_BlockHash = h, en_BlockNumber = n, en_ParentHash = None, en_Value = v\<rparr>) \<and>
     (\<forall>c ty n v t h u. db (RHashValue c ty h) = Some (RVal v, t) \<longrightarrow> db (RHashNumber c ty h) = Some (RNum n, u) \<longrightarrow>
        ok c ty \<lparr>en_BlockHash = h, en_BlockNumber = n, en_ParentHash = None, en_Value = v\<rparr>)"

lemma rget_Some: "rget now db k = Some v \<Longrightarrow> \<exists>t. db k = Some (v, t)"
  by (auto simp: rget_def split: option.splits if_splits)

lemma add_entry_inv:
  assumes "redis_inv ok db" and "ok chain ty (e\<lparr>en_ParentHash := None\<rparr>)"
  shows "redis_inv ok (snd (add_entry now spb chain ty e (head, db)))"
proof -
  have "ok chain ty \<lparr>en_BlockHash = en_BlockHash e, en_BlockNumber = en_BlockNumber e, en_ParentHash = None, en_Value = en_Value e\<rparr>"
    using assms(2) by (cases e) simp
  then show ?thesis
    using assms(1) by (auto simp: redis_inv_def add_entry_def Let_def)
qed

lemma add_entries_inv:
  "redis_inv ok (snd x) \<Longrightarrow> \<forall>e \<in> set es. ok chain ty (e\<lparr>en_ParentHash := None\<rparr>) \<Longrightarrow> redis_inv ok (snd (add_entries now spb chain ty es x))"
proof (induction es arbitrary: x)
  case (Cons e es)
  then show ?case using add_entry_inv [of ok "snd x" chain ty e now spb "fst x"] by simp
qed simp

lemma reorg_inv: "redis_inv ok db \<Longrightarrow> redis_inv ok (reorg chain db)"
  by (auto simp: redis_inv_def reorg_def)

lemma get_number_Ok:
  assumes "redis_inv ok db" and "get_number now db chain ty n = Ok e"
  shows "en_BlockNumber e = n \<and> ok chain ty e"
proof -
  obtain v h where e: "rget now db (RNumValue chain ty n) = Some (RVal v)" "rget now db (RNumHash chain ty n) = Some (RHash h)"
      "e = \<lparr>en_BlockHash = h, en_BlockNumber = n, en_ParentHash = None, en_Value = v\<rparr>"
    using assms(2) by (auto simp: get_number_def split: option.splits rval.splits)
  then show ?thesis
    using assms(1) rget_Some [OF e(1)] rget_Some [OF e(2)] by (auto simp: redis_inv_def)
qed

lemma map_outcome_numbers:
  assumes "map_outcome f ns = Ok es" and "\<And>n e. f n = Ok e \<Longrightarrow> en_BlockNumber e = n \<and> P e"
  shows "map en_BlockNumber es = ns \<and> (\<forall>e \<in> set es. P e)"
  using assms(1)
proof (induction ns arbitrary: es)
  case (Cons n ns)
  then show ?case using assms(2) by (auto simp: outcome_bind_Ok_iff)
qed simp

lemma range_words:
  fixes a b :: u64
  shows "sorted_wrt (<) (map word_of_nat [unat a..<unat b + 1] :: u64 list) \<and> (\<forall>n \<in> set (map word_of_nat [unat a..<unat b + 1]). a \<le> n \<and> n \<le> b)"
proof -
  have lt: "unat (word_of_nat i :: u64) = i" if "i < unat b + 1" for i
  proof -
    have "unat b < 2 ^ 64" using unsigned_less [where 'a = nat and 'b = 64, of b] by simp
    then have "i < 2 ^ 64" using that by simp
    then show ?thesis by (simp add: unsigned_of_nat take_bit_nat_eq_self)
  qed
  have "sorted_wrt (\<lambda>i k. (word_of_nat i :: u64) < word_of_nat k) [unat a..<unat b + 1]"
    by (rule sorted_wrt_mono_rel [OF _ sorted_wrt_upt])
      (auto simp: word_less_nat_alt lt)
  then show ?thesis by (auto simp: sorted_wrt_map word_le_nat_alt lt)
qed

lemma Rediblock_Get_sound:
  assumes I: "redis_inv ok (rd c s)" and g: "Rediblock_Get down now c chain ty q s = (Ok es, s')"
  shows "matches_query q es \<and> (\<forall>e \<in> set es. ok (ch_Name chain) ty e)"
proof (cases q)
  case (QueryHash h)
  then obtain v n where e: "rget (now s) (rd c s) (RHashValue (ch_Name chain) ty h) = Some (RVal v)"
      "rget (now s) (rd c s) (RHashNumber (ch_Name chain) ty h) = Some (RNum n)"
      "es = [\<lparr>en_BlockHash = h, en_BlockNumber = n, en_ParentHash = None, en_Value = v\<rparr>]"
    using g by (auto simp: Rediblock_Get_def split: option.splits rval.splits)
  then show ?thesis
    using I rget_Some [OF e(1)] rget_Some [OF e(2)] QueryHash by (auto simp: redis_inv_def)
next
  case (QueryRange a b)
  show ?thesis
  proof (cases "b < a")
    case True
    then show ?thesis using g QueryRange by (auto simp: Rediblock_Get_def split: if_splits option.splits)
  next
    case False
    then have m: "map_outcome (get_number (now s) (rd c s) (ch_Name chain) ty) (map word_of_nat [unat a..<unat b + 1]) = Ok es"
      using g QueryRange by (auto simp: Rediblock_Get_def split: if_splits option.splits)
    have num: "map en_BlockNumber es = map word_of_nat [unat a..<unat b + 1] \<and> (\<forall>e \<in> set es. ok (ch_Name chain) ty e)"
      by (rule map_outcome_numbers [OF m]) (rule get_number_Ok [OF I])
    have "sorted_wrt (<) (map en_BlockNumber es) \<and> (\<forall>n \<in> set (map en_BlockNumber es). a \<le> n \<and> n \<le> b)"
      unfolding conjunct1 [OF num] by (rule range_words)
    then show ?thesis using conjunct2 [OF num] QueryRange by simp
  qed
qed

text \<open>A put leaves the database alone, clears it, and perhaps adds the entries.\<close>

lemma put_check_db:
  assumes "mem_cell c" and "put_check down now c chain ty es s = (x, s1)"
  shows "s1 = s \<or> rd c s1 = reorg (ch_Name chain) (rd c s)"
  using assms mem_cell.rd_wr [OF assms(1)]
  by (auto simp: put_check_def Rediblock_reorg_def Let_def split: if_splits option.splits)

lemma put_check_reorg:
  assumes "mem_cell c" and "put_check down now c chain ty es s = (Ok (), s1)" and "\<And>k s. down k s \<noteq> Some redis_nil"
    and "check_reorg (now s) (rd c s) (reorg_checks (ch_Name chain) ty es) \<noteq> None"
  shows "rd c s1 = reorg (ch_Name chain) (rd c s)"
proof -
  have "reorg_checks (ch_Name chain) ty es \<noteq> []" using assms(4) by auto
  then have "Rediblock_reorg down c chain s = (Ok (), s1)"
    using assms(2,4) by (auto simp: put_check_def Let_def split: option.splits)
  then show ?thesis
    using assms(3) [of KeysCall s] mem_cell.rd_wr [OF assms(1)] by (auto simp: Rediblock_reorg_def split: option.splits if_splits)
qed

lemma put_add_db:
  assumes "mem_cell c"
  shows "\<exists>n. rd c (snd (put_add down t c chain ty es s)) =
     (if down AddCall s = None then snd (add_entries t (seconds_per_block chain) (ch_Name chain) ty es (n, rd c s)) else rd c s)"
  using mem_cell.rd_wr [OF assms] by (auto simp: put_add_def split: option.split)

lemma Rediblock_Put_Ok:
  assumes "Rediblock_Put down now c chain ty es s = (Ok (), s')" and "\<And>k s. down k s \<noteq> Some redis_nil"
  obtains s1 where "put_check down now c chain ty es s = (Ok (), s1)" "s' = snd (put_add down (now s) c chain ty es s1)" "down AddCall s1 = None"
proof -
  obtain x s1 where x: "put_check down now c chain ty es s = (x, s1)" by fastforce
  then have ok: "x = Ok ()" "put_add down (now s) c chain ty es s1 = (Ok (), s')"
    using assms(1) by (auto simp: Rediblock_Put_def split: outcome.splits)
  then have "down AddCall s1 = None" using assms(2) [of AddCall s1] by (auto simp: put_add_def split: option.splits if_splits)
  then show thesis using that x ok by simp
qed

lemma Rediblock_Put_inv:
  assumes "mem_cell c" and "redis_inv ok (rd c s)" and "\<forall>e \<in> set es. ok (ch_Name chain) ty (e\<lparr>en_ParentHash := None\<rparr>)"
  shows "redis_inv ok (rd c (snd (Rediblock_Put down now c chain ty es s)))"
proof -
  obtain x s1 where x: "put_check down now c chain ty es s = (x, s1)" by fastforce
  then have inv1: "redis_inv ok (rd c s1)" using put_check_db [OF assms(1) x] assms(2) reorg_inv by metis
  obtain n where "rd c (snd (put_add down (now s) c chain ty es s1)) =
      (if down AddCall s1 = None then snd (add_entries (now s) (seconds_per_block chain) (ch_Name chain) ty es (n, rd c s1)) else rd c s1)"
    using put_add_db [OF assms(1)] by blast
  then have "redis_inv ok (rd c (snd (put_add down (now s) c chain ty es s1)))" using inv1 assms(3) by (simp add: add_entries_inv)
  then show ?thesis using inv1 x by (simp add: Rediblock_Put_def split: outcome.split)
qed

lemma rediblock_sound:
  assumes "mem_cell c" and "\<And>chain ty e. ok chain ty e \<Longrightarrow> ok chain ty (e\<lparr>en_ParentHash := None\<rparr>)"
  shows "sound_store (rediblock_store down now c) (\<lambda>s. redis_inv ok (rd c s)) ok"
proof
  fix s chain ty q es s'
  assume I: "redis_inv ok (rd c s)"
  show "redis_inv ok (rd c (snd (st_Get (rediblock_store down now c) chain ty q s)))"
    using I by (simp add: rediblock_store_def Rediblock_Get_def)
  assume "st_Get (rediblock_store down now c) chain ty q s = (Ok es, s')"
  then show "matches_query q es \<and> (\<forall>e \<in> set es. ok (ch_Name chain) ty e)"
    using Rediblock_Get_sound [where ok = ok and down = down and now = now, OF I] by (simp add: rediblock_store_def)
next
  fix s es ty and chain :: Chain
  assume I: "redis_inv ok (rd c s)" and es: "\<forall>e \<in> set es. ok (ch_Name chain) ty e"
  then show "redis_inv ok (rd c (snd (st_Put (rediblock_store down now c) chain ty es s)))"
    using Rediblock_Put_inv [OF assms(1) I, of es chain ty down now] assms(2) by (simp add: rediblock_store_def)
qed

text \<open>What the script leaves in the keys by number.\<close>

lemma add_entry_number:
  "snd (add_entry now spb chain ty e x) (RNumValue c ty' n) =
     (if c = chain \<and> ty' = ty \<and> n = en_BlockNumber e
      then Some (RVal (en_Value e), Some (now + expiry spb (fst (add_entry now spb chain ty e x)) n)) else snd x (RNumValue c ty' n))"
  "snd (add_entry now spb chain ty e x) (RNumHash c ty' n) =
     (if c = chain \<and> ty' = ty \<and> n = en_BlockNumber e
      then Some (RHash (en_BlockHash e), Some (now + expiry spb (fst (add_entry now spb chain ty e x)) n)) else snd x (RNumHash c ty' n))"
  by (auto simp: add_entry_def Let_def split: prod.splits if_splits)

lemma add_entries_other:
  "c \<noteq> chain \<or> ty' \<noteq> ty \<or> n \<notin> en_BlockNumber ` set es \<Longrightarrow>
   snd (add_entries now spb chain ty es x) (RNumValue c ty' n) = snd x (RNumValue c ty' n) \<and>
   snd (add_entries now spb chain ty es x) (RNumHash c ty' n) = snd x (RNumHash c ty' n)"
  by (induction es arbitrary: x) (auto simp: add_entry_number)

lemma add_entries_number:
  assumes "e \<in> set es" and "distinct (map en_BlockNumber es)"
  shows "\<exists>t. now < t \<and> t \<le> now + 3600 \<and>
     snd (add_entries now spb chain ty es x) (RNumValue chain ty (en_BlockNumber e)) = Some (RVal (en_Value e), Some t) \<and>
     snd (add_entries now spb chain ty es x) (RNumHash chain ty (en_BlockNumber e)) = Some (RHash (en_BlockHash e), Some t)"
  using assms
proof (induction es arbitrary: x)
  case (Cons a es)
  show ?case
  proof (cases "a = e")
    case True
    let ?x = "add_entry now spb chain ty a x"
    let ?t = "now + expiry spb (fst ?x) (en_BlockNumber e)"
    have "en_BlockNumber e \<notin> en_BlockNumber ` set es" using Cons.prems(2) True by simp
    then have
      "snd (add_entries now spb chain ty (a # es) x) (RNumValue chain ty (en_BlockNumber e)) = Some (RVal (en_Value e), Some ?t)"
      "snd (add_entries now spb chain ty (a # es) x) (RNumHash chain ty (en_BlockNumber e)) = Some (RHash (en_BlockHash e), Some ?t)"
      using True by (simp_all add: add_entry_number add_entries_other)
    then show ?thesis using expiry_bounds [of spb "fst ?x" "en_BlockNumber e"] by (intro exI [of _ ?t]) simp
  next
    case False
    then show ?thesis using Cons by simp
  qed
qed simp

section \<open>Properties\<close>

text \<open>
  C8: A block that was put into Redis is found again by its number: right after a successful put of
  entries of different blocks, each of them is returned for its number with its hash and value,
  without its parent, and it expires between one second and one hour later. A connection error is
  never the reply for a missing key.
\<close>

theorem rediblock_put_get:
  assumes "mem_cell c" and "\<And>k s. down k s \<noteq> Some redis_nil" and "Rediblock_Put down now c chain ty es s = (Ok (), s')"
    and "now s' = now s" and "down GetCall s' = None"
    and "e \<in> set es" and "distinct (map en_BlockNumber es)" and "en_BlockNumber e \<noteq> - 1"
  shows "Rediblock_Get down now c chain ty (QueryNumber (en_BlockNumber e)) s' = (Ok [e\<lparr>en_ParentHash := None\<rparr>], s') \<and>
     (\<exists>t. now s < t \<and> t \<le> now s + 3600 \<and> rd c s' (RNumValue (ch_Name chain) ty (en_BlockNumber e)) = Some (RVal (en_Value e), Some t))"
proof -
  let ?n = "en_BlockNumber e" and ?c = "ch_Name chain"
  obtain s1 where s1: "s' = snd (put_add down (now s) c chain ty es s1)" "down AddCall s1 = None"
    using Rediblock_Put_Ok [OF assms(3,2)] .
  then obtain x where x: "rd c s' = snd (add_entries (now s) (seconds_per_block chain) ?c ty es x)"
    using put_add_db [OF assms(1), of down "now s" chain ty es s1] by auto
  obtain t where t: "now s < t" "t \<le> now s + 3600" "rd c s' (RNumValue ?c ty ?n) = Some (RVal (en_Value e), Some t)"
      "rd c s' (RNumHash ?c ty ?n) = Some (RHash (en_BlockHash e), Some t)"
    using add_entries_number [OF assms(6,7), of "now s" "seconds_per_block chain" ?c ty x] x by auto
  have "get_number (now s') (rd c s') ?c ty ?n = Ok (e\<lparr>en_ParentHash := None\<rparr>)"
    using t assms(4) by (cases e) (simp add: get_number_def rget_def)
  moreover have "[unat ?n..<unat ?n + 1] = [unat ?n]" by simp
  ultimately show ?thesis using t assms(5,8) by (simp add: Rediblock_Get_def QueryNumber_def)
qed

definition no_failure :: "redis_call \<Rightarrow> 's \<Rightarrow> gerror option" where
  "no_failure k s = None"

definition demo_redis_put :: "unit outcome \<times> redis_db" where
  "demo_redis_put = Rediblock_Put no_failure (\<lambda>_. 0) own_cell demo_chain EntryLogs [demo_entry 5] Map.empty"

lemmas redis_put_defs = Rediblock_Put_def put_check_def put_add_def Rediblock_reorg_def no_failure_def Let_def

theorem rediblock_put_get_witness:
  "fst (Rediblock_Get no_failure (\<lambda>_. 0) own_cell demo_chain EntryLogs (QueryNumber 5) (snd demo_redis_put)) = Ok [demo_entry 5]"
proof -
  have "Rediblock_Put no_failure (\<lambda>_. 0) own_cell demo_chain EntryLogs [demo_entry 5] Map.empty = (Ok (), snd demo_redis_put)"
    by (simp add: demo_redis_put_def redis_put_defs)
  from rediblock_put_get [OF own_cell_ok _ this, of "demo_entry 5"] show ?thesis by (simp add: demo_entry_def no_failure_def)
qed

text \<open>
  C9: A reorganisation is noticed and forgotten blocks do not come back: when the parent of an entry
  that is put differs from the hash filed under the number before it, then after the put nothing is
  found by number on that chain, whatever its type, be it headers, logs or receipts, but the entries
  just put. What is filed by number for other chains stays.
\<close>

theorem rediblock_reorg_clears:
  assumes "mem_cell c" and "Rediblock_Put down now c chain ty es s = (Ok (), s')" and "\<And>k s. down k s \<noteq> Some redis_nil"
    and "e \<in> set es" and "en_ParentHash e = Some p"
    and "rget (now s) (rd c s) (RNumHash (ch_Name chain) ty (en_BlockNumber e - 1)) = Some v" and "v \<noteq> RHash p"
  shows "(ty' \<noteq> ty \<or> n \<notin> en_BlockNumber ` set es \<longrightarrow>
       rd c s' (RNumValue (ch_Name chain) ty' n) = None \<and> rd c s' (RNumHash (ch_Name chain) ty' n) = None) \<and>
     (other \<noteq> ch_Name chain \<longrightarrow>
       rd c s' (RNumValue other ty' n) = rd c s (RNumValue other ty' n) \<and> rd c s' (RNumHash other ty' n) = rd c s (RNumHash other ty' n))"
proof -
  let ?c = "ch_Name chain" and ?k = "(RNumHash (ch_Name chain) ty (en_BlockNumber e - 1), p)"
  have "check_reorg now1 db ks \<noteq> None" if "(k, h) \<in> set ks" "rget now1 db k = Some v" "v \<noteq> RHash h" for now1 db ks k h
    using that by (induction now1 db ks rule: check_reorg.induct) (auto split: option.splits)
  moreover have "?k \<in> set (reorg_checks ?c ty es)" using assms(4,5) by (force simp: reorg_checks_def)
  ultimately have r: "check_reorg (now s) (rd c s) (reorg_checks ?c ty es) \<noteq> None" using assms(6,7) by blast
  obtain s1 where s1: "put_check down now c chain ty es s = (Ok (), s1)" "s' = snd (put_add down (now s) c chain ty es s1)" "down AddCall s1 = None"
    using Rediblock_Put_Ok [OF assms(2,3)] .
  then obtain m where "rd c s' = snd (add_entries (now s) (seconds_per_block chain) ?c ty es (m, reorg ?c (rd c s)))"
    using put_add_db [OF assms(1), of down "now s" chain ty es s1] put_check_reorg [OF assms(1) s1(1) assms(3) r] by auto
  then show ?thesis by (simp add: add_entries_other reorg_def)
qed

definition demo_fork :: Entry where
  "demo_fork = \<lparr>en_BlockHash = 9, en_BlockNumber = 6, en_ParentHash = Some 8, en_Value = JArr []\<rparr>"

theorem rediblock_reorg_clears_witness:
  "\<exists>db. Rediblock_Put no_failure (\<lambda>_. 0) own_cell demo_chain EntryLogs [demo_fork] (snd demo_redis_put) = (Ok (), db) \<and>
     rget 0 (snd demo_redis_put) (RNumHash ''eth'' EntryLogs 5) = Some (RHash 7) \<and> db (RNumHash ''eth'' EntryLogs 5) = None"
proof -
  have "fst (Rediblock_Put no_failure (\<lambda>_. 0) own_cell demo_chain EntryLogs [demo_fork] (snd demo_redis_put)) = Ok ()"
    by (simp add: redis_put_defs)
  then obtain db where put: "Rediblock_Put no_failure (\<lambda>_. 0) own_cell demo_chain EntryLogs [demo_fork] (snd demo_redis_put) = (Ok (), db)"
    by (metis prod.collapse)
  have "expiry spb h n > 0" for spb h n using expiry_bounds [of spb h n] by simp
  then have old: "rget 0 (snd demo_redis_put) (RNumHash ''eth'' EntryLogs 5) = Some (RHash 7)"
    by (simp add: demo_redis_put_def redis_put_defs reorg_checks_def own_cell_def demo_chain_def add_entry_number rget_def
        demo_entry_def not_le)
  from rediblock_reorg_clears [OF own_cell_ok put, of demo_fork 8 "RHash 7" EntryLogs 5] old put show ?thesis
    by (simp add: own_cell_def demo_fork_def demo_chain_def no_failure_def)
qed

section \<open>CompareAndSwapIfGreater (svc/shared/services/redi)\<close>

definition CompareAndSwapIfGreater :: "string \<Rightarrow> int \<Rightarrow> (string \<rightharpoonup> int) \<Rightarrow> int \<times> (string \<rightharpoonup> int)" where
  "CompareAndSwapIfGreater key new db =
     (let old = (case db key of Some n \<Rightarrow> n | None \<Rightarrow> 0) in (old, if old < new then db(key \<mapsto> new) else db))"

text \<open>After any sequence of swaps the highest value is kept, and the values returned never go back.\<close>

lemma swaps_keep_max:
  assumes "db key = Some n" and "0 \<le> n"
  shows "foldl (\<lambda>db v. snd (CompareAndSwapIfGreater key v db)) db vs key = Some (Max (insert n (set vs)))"
  using assms
proof (induction vs arbitrary: db n)
  case (Cons v vs)
  let ?db = "snd (CompareAndSwapIfGreater key v db)"
  have "?db key = Some (max n v)" using Cons.prems(1) by (simp add: CompareAndSwapIfGreater_def Let_def max_def)
  moreover have "Max (insert (max n v) (set vs)) = Max (insert n (set (v # vs)))"
    by (cases "set vs = {}") (simp_all add: max.left_commute max.commute max.assoc)
  ultimately show ?case using Cons.IH [of ?db "max n v"] Cons.prems(2) by simp
qed simp

section \<open>The node's block store with Redis\<close>

lemma consistent_parent: "consistent cdc chain ty e \<Longrightarrow> consistent cdc chain ty (e\<lparr>en_ParentHash := None\<rparr>)"
  by (simp add: consistent_def)

text \<open>Redis by itself is a sound store of genuine entries.\<close>

interpretation redis_source: sound_store "rediblock_store down now own_cell" "redis_inv (consistent cdc)" "consistent cdc" for down now cdc
  using rediblock_sound [OF own_cell_ok, of "consistent cdc" down now, OF consistent_parent] by (simp add: own_cell_def)

lemma sound_store_conj:
  assumes "sound_store st I ok" and "\<And>chain ty q s. J s \<Longrightarrow> J (snd (st_Get st chain ty q s))"
    and "\<And>chain ty es s. J s \<Longrightarrow> J (snd (st_Put st chain ty es s))"
  shows "sound_store st (\<lambda>s. I s \<and> J s) ok" "sound_store st (\<lambda>s. J s \<and> I s) ok"
  using assms sound_store.get_inv [OF assms(1)] sound_store.get_ok [OF assms(1)] sound_store.put_inv [OF assms(1)]
  by (auto intro!: sound_store.intro)

lemma put_keeps_other:
  assumes "disjoint_cells c d"
  shows "rd c (snd (Rediblock_Put down now d chain ty es s)) = rd c s"
  using disjoint_cells.rd_wr_left [OF assms]
  by (auto simp: Rediblock_Put_def put_check_def put_add_def Rediblock_reorg_def Let_def split: option.split outcome.split)

lemma shared_store_sound:
  assumes "lru_ok (lp_hash ops) vh" and "lru_ok (lp_number ops) vn" and "disjoint_cells c d"
    and "\<And>chain. keeps_cell c (clusters (chain_not_supported chain))" and "\<And>chain. keeps_cell d (clusters (chain_not_supported chain))"
    and "shared_flight (\<lambda>s. lru_inv vh vn (consistent cdc) (rd c s) \<and> redis_inv (consistent cdc) (rd d s)) flight"
  shows "sound_store (vennstore cdc flight (lru_store ops c) (Some (rediblock_store down now d)) (Chainblock cdc clusters ctx))
     (\<lambda>s. lru_inv vh vn (consistent cdc) (rd c s) \<and> redis_inv (consistent cdc) (rd d s)) (consistent cdc)"
proof -
  let ?I = "\<lambda>s. lru_inv vh vn (consistent cdc) (rd c s)" and ?J = "\<lambda>s. redis_inv (consistent cdc) (rd d s)"
  have cells: "mem_cell c" "mem_cell d" using assms(3) by (simp_all add: disjoint_cells_def)
  have l: "sound_store (lru_store ops c) (\<lambda>s. ?I s \<and> ?J s) (consistent cdc)"
    by (rule sound_store_conj(1) [OF lru_store_sound [OF assms(1,2) cells(1)]])
      (simp_all add: lru_store_def split_beta disjoint_cells.rd_wr_right [OF assms(3)])
  have r0: "sound_store (rediblock_store down now d) ?J (consistent cdc)"
    by (rule rediblock_sound [OF cells(2)]) (rule consistent_parent)
  have r: "sound_store (rediblock_store down now d) (\<lambda>s. ?I s \<and> ?J s) (consistent cdc)"
    by (rule sound_store_conj(2) [OF r0])
      (simp_all add: rediblock_store_def Rediblock_Get_def put_keeps_other [OF assms(3)])
  have "sound_store (Chainblock cdc clusters ctx) (\<lambda>s. ?I s \<and> ?J s) (consistent cdc)"
    by (rule chainblock_sound) (use assms(4,5) in \<open>simp add: keeps_cell_def\<close>)
  with l r assms(6) show ?thesis by (intro vennstore_sound) auto
qed

text \<open>
  C7: What a node that shares its blocks through Redis answers from its block store, be it from its
  own cache, from Redis, from the remotes or from a call in progress for the same blocks, is filed
  under the hash that the data itself carries and is of the block asked for, and the answer leaves
  the cache and Redis in the same order.
\<close>

theorem shared_store_consistent:
  assumes "lru_ok (lp_hash ops) vh" and "lru_ok (lp_number ops) vn" and "disjoint_cells c d"
    and "\<And>chain. keeps_cell c (clusters (chain_not_supported chain))" and "\<And>chain. keeps_cell d (clusters (chain_not_supported chain))"
    and "shared_flight (\<lambda>s. lru_inv vh vn (consistent cdc) (rd c s) \<and> redis_inv (consistent cdc) (rd d s)) flight"
    and "lru_inv vh vn (consistent cdc) (rd c s)" and "redis_inv (consistent cdc) (rd d s)"
    and "st_Get (vennstore cdc flight (lru_store ops c) (Some (rediblock_store down now d)) (Chainblock cdc clusters ctx)) chain ty q s = (Ok es, s')"
  shows "matches_query q es \<and> (\<forall>e \<in> set es. consistent cdc (ch_Name chain) ty e) \<and>
     lru_inv vh vn (consistent cdc) (rd c s') \<and> redis_inv (consistent cdc) (rd d s')"
  using sound_store.get_soundD [OF shared_store_sound [where clusters = clusters, OF assms(1-6)] _ assms(9)] assms(7,8) by blast

definition left_cell :: "('a \<times> 'b, 'a) cell" where
  "left_cell = \<lparr>rd = fst, wr = (\<lambda>v s. (v, snd s))\<rparr>"

definition right_cell :: "('a \<times> 'b, 'b) cell" where
  "right_cell = \<lparr>rd = snd, wr = (\<lambda>v s. (fst s, v))\<rparr>"

interpretation pair_cells: disjoint_cells left_cell right_cell
  by unfold_locales (simp_all add: left_cell_def right_cell_def)

theorem shared_store_consistent_witness:
  "\<exists>e s'. st_Get (vennstore eth_codec no_overlap (lru_store map_lrus left_cell) (Some (rediblock_store no_failure (\<lambda>_. 0) right_cell))
       (Chainblock eth_codec demo_clusters Background)) demo_chain EntryBlockHeader (QueryNumber 5)
       (\<lparr>ls_byHash = Map.empty, ls_byNumber = Map.empty\<rparr>, Map.empty) = (Ok [e], s') \<and>
     en_BlockHash e = 9 \<and> redis_inv (consistent eth_codec) (rd right_cell s')"
proof -
  let ?l = "\<lparr>ls_byHash = Map.empty, ls_byNumber = Map.empty\<rparr> :: (lruHashKey \<rightharpoonup> Entry, lruNumberKey \<rightharpoonup> Entry) LruStore"
  let ?s = "(?l, Map.empty :: redis_db)"
  let ?v = "JObj [(''hash'', JStr (hash_Hex eth_codec 9))]"
  let ?e = "\<lparr>en_BlockHash = 9, en_BlockNumber = 5, en_ParentHash = Some 0, en_Value = ?v\<rparr>"
  let ?st = "vennstore eth_codec no_overlap (lru_store map_lrus left_cell) (Some (rediblock_store no_failure (\<lambda>_. 0) right_cell))
    (Chainblock eth_codec demo_clusters Background)"
  have dec: "dec_Hash eth_codec (JStr (hash_Hex eth_codec 9)) = Ok 9"
    using eth_codec_ok by (simp add: codec_ok_def)
  have "fold_name ''hash'' \<noteq> fold_name ''parentHash''" by code_simp
  then have hdr: "header_by_number eth_codec 5 ?v = Ok (Some ?e)"
    by (simp add: header_by_number_def dec_hash_field_def dec)
  have "fst (st_Get ?st demo_chain EntryBlockHeader (QueryNumber 5) ?s) = Ok [?e]"
    by (simp add: vennstore_def SingleFlight_def no_overlap_def CompoundStore_def CompoundStore_Get_def AddStore_def
        QueryNumber_def lru_store_def LruStore_Get_def map_lrus_def map_lru_def left_cell_def right_cell_def Chainblock_def Chainblock_Get_def
        getBlockHeaders_def get_range_def fetch_def Do_def serve_icept_eq demo_clusters_def send_ok_def hdr Let_def
        split_beta rediblock_store_def Rediblock_Get_def get_number_def rget_def redis_put_defs redis_nil_def)
  then obtain s' where g: "st_Get ?st demo_chain EntryBlockHeader (QueryNumber 5) ?s = (Ok [?e], s')"
    by (metis prod.collapse)
  have k: "keeps_cell left_cell (demo_clusters (chain_not_supported chain))" "keeps_cell right_cell (demo_clusters (chain_not_supported chain))" for chain
    by (simp_all add: keeps_cell_def demo_clusters_def)
  have i: "lru_inv (\<lambda>m. m) (\<lambda>m. m) (consistent eth_codec) (rd left_cell ?s)" "redis_inv (consistent eth_codec) (rd right_cell ?s)"
    by (simp_all add: lru_inv_def index_ok_def redis_inv_def left_cell_def right_cell_def)
  have m: "lru_ok (lp_hash map_lrus) (\<lambda>m. m)" "lru_ok (lp_number map_lrus) (\<lambda>m. m)"
    by (simp_all add: map_lrus_def map_lru_ok)
  from shared_store_consistent [OF m pair_cells.disjoint_cells_axioms k no_overlap_shared i g] g show ?thesis by auto
qed

end
