(* ===== verification/Venn_Cacher.thy ===== *)
theory Venn_Cacher
  imports Venn_Rediblock
begin

text \<open>
  \<open>svc/node/atoms/cacher\<close>: the middleware that answers block, receipt and log queries from the
  block store. The store is a parameter, indexed by the context of the request, which it passes
  on to the remotes.
\<close>

definition maxLogRange :: int where "maxLogRange = 10"

section \<open>Blocks without transaction details\<close>

text \<open>The values of the members named \<open>hash\<close> of a transaction.\<close>

fun transaction_hashes :: "json \<Rightarrow> json list outcome" where
  "transaction_hashes (JObj fs) = Ok (map snd (filter (\<lambda>f. fst f = ''hash'') fs))"
| "transaction_hashes _ = Err json_type_error"

fun strip_transactions :: "json \<Rightarrow> json outcome" where
  "strip_transactions (JArr ts) =
     outcome_bind (map_outcome transaction_hashes ts) (\<lambda>hs. Ok (JArr (concat hs)))"
| "strip_transactions _ = Err json_type_error"

fun removeTransactionDetails :: "json \<Rightarrow> json outcome" where
  "removeTransactionDetails (JObj fs) =
     outcome_bind (map_outcome (\<lambda>(k, v).
       if k = ''transactions'' then outcome_bind (strip_transactions v) (\<lambda>v'. Ok (k, v')) else Ok (k, v)) fs)
       (\<lambda>fs'. Ok (JObj fs'))"
| "removeTransactionDetails _ = Err json_type_error"

section \<open>Filtering logs\<close>

text \<open>
  \<open>hex.Decode\<close> into a buffer of \<open>room\<close> bytes: it stops with an error at a character that is no
  digit, and panics when a byte does not fit.
\<close>

fun hex_Decode_into :: "nat \<Rightarrow> string \<Rightarrow> nat list outcome" where
  "hex_Decode_into room [] = Ok []"
| "hex_Decode_into room [c] = Err (ErrorText ''encoding/hex: odd length hex string'')"
| "hex_Decode_into room (a # b # cs) =
     (if digit_value a < 16 \<and> digit_value b < 16
      then (if room = 0 then Panic ''index out of range''
            else outcome_bind (hex_Decode_into (room - 1) cs) (\<lambda>bs. Ok ((digit_value a * 16 + digit_value b) # bs)))
      else Err (ErrorText ''encoding/hex: invalid byte''))"

text \<open>The bytes fill the buffer from the left; an error gives the zero value.\<close>

definition rawStr_bytes :: "nat \<Rightarrow> string \<Rightarrow> nat outcome" where
  "rawStr_bytes n s =
     (let body = (if prefix ''0x'' s then drop 2 s else s) in
      case hex_Decode_into n body of
        Ok bs \<Rightarrow> Ok (foldl (\<lambda>a b. a * 256 + b) 0 (bs @ replicate (n - length bs) 0))
      | Err _ \<Rightarrow> Ok 0
      | Panic m \<Rightarrow> Panic m)"

definition rawStrToAddress :: "string \<Rightarrow> address outcome" where
  "rawStrToAddress s = outcome_bind (rawStr_bytes 20 s) (\<lambda>n. Ok (of_nat n))"

definition rawStrToHash :: "string \<Rightarrow> hash outcome" where
  "rawStrToHash s = outcome_bind (rawStr_bytes 32 s) (\<lambda>n. Ok (of_nat n))"

fun str_bytes :: "json \<Rightarrow> string outcome" where
  "str_bytes (JStr s) = Ok s"
| "str_bytes _ = Err json_type_error"

fun arr_iter :: "json \<Rightarrow> json list outcome" where
  "arr_iter (JArr xs) = Ok xs"
| "arr_iter _ = Err json_type_error"

text \<open>The address and the topics of a log; the topics of repeated members accumulate.\<close>

fun log_members :: "(string \<times> json) list \<Rightarrow> LogAddressTopics \<Rightarrow> LogAddressTopics outcome" where
  "log_members [] hdr = Ok hdr"
| "log_members ((k, v) # fs) hdr =
     (if k = ''address'' then
        outcome_bind (str_bytes v) (\<lambda>s. outcome_bind (rawStrToAddress s) (\<lambda>a.
          log_members fs (hdr\<lparr>log_Address := a\<rparr>)))
      else if k = ''topics'' then
        outcome_bind (arr_iter v) (\<lambda>ts.
        outcome_bind (map_outcome (\<lambda>t. outcome_bind (str_bytes t) rawStrToHash) ts) (\<lambda>hs.
          log_members fs (hdr\<lparr>log_Topics := log_Topics hdr @ hs\<rparr>)))
      else log_members fs hdr)"

fun log_header :: "json \<Rightarrow> LogAddressTopics outcome" where
  "log_header (JObj fs) = log_members fs \<lparr>log_Address = 0, log_Topics = []\<rparr>"
| "log_header _ = Err json_type_error"

fun filter_array :: "CompiledFilter option \<Rightarrow> json list \<Rightarrow> json list outcome" where
  "filter_array flt [] = Ok []"
| "filter_array flt (raw # xs) =
     outcome_bind (log_header raw) (\<lambda>hdr.
     outcome_bind (filter_array flt xs) (\<lambda>ys.
       Ok (if CompiledFilter_Check flt hdr then raw # ys else ys)))"

fun filter_entries :: "CompiledFilter option \<Rightarrow> Entry list \<Rightarrow> json list outcome" where
  "filter_entries flt [] = Ok []"
| "filter_entries flt (e # es) =
     outcome_bind (arr_iter (en_Value e)) (\<lambda>xs.
     outcome_bind (filter_array flt xs) (\<lambda>ys.
     outcome_bind (filter_entries flt es) (\<lambda>zs. Ok (ys @ zs))))"

definition filterLogs :: "CompiledFilter option \<Rightarrow> Entry list \<Rightarrow> json outcome" where
  "filterLogs flt es = outcome_bind (filter_entries flt es) (\<lambda>xs. Ok (JArr xs))"

section \<open>The middleware\<close>

text \<open>\<open>w.Send(raw, err)\<close>, with the error wrapped in a message.\<close>

fun send_raw :: "string \<Rightarrow> json outcome \<Rightarrow> reply" where
  "send_raw msg (Ok j) = send_ok (ARaw j)"
| "send_raw msg (Err e) = Sends [(ARaw JNull, Some (Wrapped (msg @ error_text e) e))]"
| "send_raw msg (Panic m) = Crash m"

definition expected_params :: "string \<Rightarrow> gerror" where
  "expected_params msg = NewInvalidParamsError msg"

text \<open>The one entry of a block, with or without its transactions.\<close>

definition reply_block :: "string \<Rightarrow> bool \<Rightarrow> Entry list outcome \<times> 's \<Rightarrow> reply \<times> 's" where
  "reply_block msg details p =
     (case p of
        (Err e, s) \<Rightarrow> (send_err e, s)
      | (Panic m, s) \<Rightarrow> (Crash m, s)
      | (Ok entries, s) \<Rightarrow>
          (if length entries \<noteq> 1 then Sends [(ANil, None)]
           else if \<not> details then send_raw msg (removeTransactionDetails (en_Value (hd entries)))
           else send_ok (ARaw (en_Value (hd entries))), s))"

definition dec_head_entry :: "codec \<Rightarrow> json \<Rightarrow> Entry outcome" where
  "dec_head_entry cdc block =
     outcome_bind (dec_number_field cdc ''number'' block) (\<lambda>n.
     outcome_bind (dec_hash_field cdc ''hash'' block) (\<lambda>h.
     outcome_bind (dec_hash_field cdc ''parentHash'' block) (\<lambda>p.
       Ok \<lparr>en_BlockHash = h, en_BlockNumber = n, en_ParentHash = Some p, en_Value = block\<rparr>)))"

text \<open>The branch for a block tag: ask the remote and store what it returns.\<close>

definition cache_latest :: "codec \<Rightarrow> 's store \<Rightarrow> 's handler \<Rightarrow> Chain \<Rightarrow> BlockNumber \<Rightarrow> bool \<Rightarrow> ctx \<Rightarrow> 's \<Rightarrow> reply \<times> 's" where
  "cache_latest cdc store next chain blockNumber details ctx s =
     (case Do cdc ctx next ''eth_getBlockByNumber'' (JArr [enc_BlockNumber cdc blockNumber, JBool True]) s of
        (Err e, s1) \<Rightarrow> (send_err (Wrapped (''getting block from remote: '' @ error_text e) e), s1)
      | (Panic m, s1) \<Rightarrow> (Crash m, s1)
      | (Ok block, s1) \<Rightarrow>
          (case dec_head_entry cdc block of
             Err e \<Rightarrow> (send_err e, s1)
           | Panic m \<Rightarrow> (Crash m, s1)
           | Ok entry \<Rightarrow>
               (case st_Put store chain EntryBlockHeader [entry] s1 of
                  (Err e, s2) \<Rightarrow> (send_err e, s2)
                | (Panic m, s2) \<Rightarrow> (Crash m, s2)
                | (Ok _, s2) \<Rightarrow>
                    (if \<not> details \<and> block \<noteq> JNull
                     then send_raw ''failed to remove transaction details: '' (removeTransactionDetails block)
                     else send_ok (ARaw block), s2))))"

definition cache_getBlockByNumber :: "codec \<Rightarrow> 's store \<Rightarrow> 's handler \<Rightarrow> Chain \<Rightarrow> 's handler" where
  "cache_getBlockByNumber cdc store next chain = (\<lambda>r s.
     case unmarshal_raw dec_raws (rq_Params r) of
       Err e \<Rightarrow> (send_err e, s)
     | Panic m \<Rightarrow> (Crash m, s)
     | Ok params \<Rightarrow>
         if length params \<noteq> 2 then (send_err (expected_params ''expected 2 params''), s)
         else (case outcome_bind (dec_BlockNumber (params ! 0)) (\<lambda>n. outcome_bind (dec_bool (params ! 1)) (\<lambda>d. Ok (n, d))) of
                Err e \<Rightarrow> (send_err e, s)
              | Panic m \<Rightarrow> (Crash m, s)
              | Ok (blockNumber, details) \<Rightarrow>
                  if 0 \<le> blockNumber
                  then reply_block ''failed removing transaction details: '' details
                    (st_Get store chain EntryBlockHeader (QueryNumber (i64_to_u64 blockNumber)) s)
                  else cache_latest cdc store next chain blockNumber details (rq_Ctx r) s))"

definition cache_getBlockByHash :: "codec \<Rightarrow> 's store \<Rightarrow> Chain \<Rightarrow> 's handler" where
  "cache_getBlockByHash cdc store chain = (\<lambda>r s.
     case unmarshal_raw dec_raws (rq_Params r) of
       Err e \<Rightarrow> (send_err e, s)
     | Panic m \<Rightarrow> (Crash m, s)
     | Ok params \<Rightarrow>
         if length params \<noteq> 2 then (send_err (expected_params ''expected 2 params''), s)
         else (case outcome_bind (dec_Hash cdc (params ! 0)) (\<lambda>h. outcome_bind (dec_bool (params ! 1)) (\<lambda>d. Ok (h, d))) of
                Err e \<Rightarrow> (send_err e, s)
              | Panic m \<Rightarrow> (Crash m, s)
              | Ok (blockHash, details) \<Rightarrow>
                  reply_block ''failed to remove transaction details: '' details
                    (st_Get store chain EntryBlockHeader (QueryHash blockHash) s)))"

definition cache_getBlockReceipts :: "'s store \<Rightarrow> 's handler \<Rightarrow> Chain \<Rightarrow> 's handler" where
  "cache_getBlockReceipts store next chain = (\<lambda>r s.
     case unmarshal_raw (dec_slice dec_BlockNumber) (rq_Params r) of
       Err e \<Rightarrow> (send_err e, s)
     | Panic m \<Rightarrow> (Crash m, s)
     | Ok params \<Rightarrow>
         if length params \<noteq> 1 then (send_err (expected_params ''expected 1 parameter''), s)
         else if 0 \<le> params ! 0
         then reply_block [] True (st_Get store chain EntryReceipts (QueryNumber (i64_to_u64 (params ! 0))) s)
         else next r s)"

definition cache_getLogs :: "codec \<Rightarrow> 's store \<Rightarrow> 's handler \<Rightarrow> Chain \<Rightarrow> 's handler" where
  "cache_getLogs cdc store next chain = (\<lambda>r s.
     case unmarshal_raw (dec_slice (dec_FilterQuery cdc)) (rq_Params r) of
       Err e \<Rightarrow> (send_err e, s)
     | Panic m \<Rightarrow> (Crash m, s)
     | Ok params \<Rightarrow>
         if length params \<noteq> 1 then (send_err (expected_params ''expected 1 parameter''), s)
         else
           let q = params ! 0;
               answer = (\<lambda>p. (case p of
                   (Err e, s1) \<Rightarrow> (send_err e, s1)
                 | (Panic m, s1) \<Rightarrow> (Crash m, s1)
                 | (Ok logs, s1) \<Rightarrow>
                     (send_raw ''failed to filter logs: '' (filterLogs (CompileFilter (fq_Addresses q) (fq_Topics q)) logs), s1)))
           in (case (fq_BlockHash q, fq_FromBlock q, fq_ToBlock q) of
                (Some h, _, _) \<Rightarrow> answer (st_Get store chain EntryLogs (QueryHash h) s)
              | (None, Some fb, Some tb) \<Rightarrow>
                  if maxLogRange < wrap64 (tb - fb) then next r s
                  else answer (st_Get store chain EntryLogs (QueryRange (i64_to_u64 fb) (i64_to_u64 tb)) s)
              | _ \<Rightarrow> next r s))"

definition Cacher_Middleware :: "codec \<Rightarrow> (ctx \<Rightarrow> 's store) \<Rightarrow> 's middleware" where
  "Cacher_Middleware cdc stores next = (\<lambda>r s.
     case GetChain (rq_Ctx r) of
       Err e \<Rightarrow> (send_err e, s)
     | Panic m \<Rightarrow> (Crash m, s)
     | Ok chain \<Rightarrow>
         let store = stores (rq_Ctx r) in
         if rq_Method r = ''eth_getBlockByNumber'' then cache_getBlockByNumber cdc store next chain r s
         else if rq_Method r = ''eth_getBlockByHash'' then cache_getBlockByHash cdc store chain r s
         else if rq_Method r = ''eth_getBlockReceipts'' then cache_getBlockReceipts store next chain r s
         else if rq_Method r = ''eth_getLogs'' then cache_getLogs cdc store next chain r s
         else next r s)"

section \<open>Lemmas\<close>

lemma filter_array_spec:
  "map_outcome log_header xs = Ok hdrs \<Longrightarrow>
   filter_array flt xs = Ok (map fst (filter (\<lambda>p. CompiledFilter_Check flt (snd p)) (zip xs hdrs)))"
  by (induction xs arbitrary: hdrs) (auto simp: outcome_bind_Ok_iff)

lemma map_outcome_append:
  "map_outcome f (xs @ ys) = Ok zs \<longleftrightarrow> (\<exists>us vs. map_outcome f xs = Ok us \<and> map_outcome f ys = Ok vs \<and> zs = us @ vs)"
  by (induction xs arbitrary: zs) (auto simp: outcome_bind_Ok_iff)

lemma map_outcome_length: "map_outcome f xs = Ok ys \<Longrightarrow> length ys = length xs"
  by (simp add: map_outcome_Ok_iff)

lemma filter_entries_spec:
  "map_outcome (\<lambda>e. arr_iter (en_Value e)) es = Ok xss \<Longrightarrow> map_outcome log_header (concat xss) = Ok hdrs \<Longrightarrow>
   filter_entries flt es = Ok (map fst (filter (\<lambda>p. CompiledFilter_Check flt (snd p)) (zip (concat xss) hdrs)))"
proof (induction es arbitrary: xss hdrs)
  case Nil
  then show ?case by simp
next
  case (Cons e es)
  obtain xs yss where x: "arr_iter (en_Value e) = Ok xs" "map_outcome (\<lambda>e. arr_iter (en_Value e)) es = Ok yss" "xss = xs # yss"
    using Cons.prems(1) by (auto simp: outcome_bind_Ok_iff)
  obtain us vs where u: "map_outcome log_header xs = Ok us" "map_outcome log_header (concat yss) = Ok vs" "hdrs = us @ vs"
    using Cons.prems(2) x(3) by (auto simp: map_outcome_append)
  then show ?case
    using Cons.IH [OF x(2) u(2)] filter_array_spec [OF u(1)] map_outcome_length [OF u(1)] x by simp
qed

text \<open>
  A block without transaction details, independently of how it is computed: the members stay, in
  their order, and the transactions are replaced by their hashes.
\<close>

definition member_without_details :: "string \<times> json \<Rightarrow> string \<times> json \<Rightarrow> bool" where
  "member_without_details f g \<longleftrightarrow> fst g = fst f \<and>
     (if fst f = ''transactions''
      then \<exists>txs. snd f = JArr (map JObj txs) \<and> snd g = JArr (concat (map (\<lambda>tx. map snd (filter (\<lambda>m. fst m = ''hash'') tx)) txs))
      else snd g = snd f)"

definition without_details :: "json \<Rightarrow> json \<Rightarrow> bool" where
  "without_details b b' \<longleftrightarrow> (\<exists>fs gs. b = JObj fs \<and> b' = JObj gs \<and> list_all2 member_without_details fs gs)"

lemma strip_transactions_Ok:
  assumes "strip_transactions v = Ok v'"
  shows "\<exists>txs. v = JArr (map JObj txs) \<and> v' = JArr (concat (map (\<lambda>tx. map snd (filter (\<lambda>m. fst m = ''hash'') tx)) txs))"
proof -
  obtain ts hs where t: "v = JArr ts" "map_outcome transaction_hashes ts = Ok hs" "v' = JArr (concat hs)"
    using assms by (cases v) (auto simp: outcome_bind_Ok_iff)
  have one: "transaction_hashes x = Ok h \<longleftrightarrow> (\<exists>tx. x = JObj tx \<and> h = map snd (filter (\<lambda>m. fst m = ''hash'') tx))" for x h
    by (cases x) auto
  have "\<exists>txs. ts = map JObj txs \<and> hs = map (\<lambda>tx. map snd (filter (\<lambda>m. fst m = ''hash'') tx)) txs"
    using t(2)
  proof (induction ts arbitrary: hs)
    case (Cons a ts)
    then obtain h hs' txs tx where "transaction_hashes a = Ok h" "hs = h # hs'" "ts = map JObj txs"
        "hs' = map (\<lambda>tx. map snd (filter (\<lambda>m. fst m = ''hash'') tx)) txs" "a = JObj tx" "h = map snd (filter (\<lambda>m. fst m = ''hash'') tx)"
      by (fastforce simp: outcome_bind_Ok_iff one)
    then show ?case by (intro exI [of _ "tx # txs"]) simp
  qed simp
  then show ?thesis using t(1,3) by auto
qed

lemma removeTransactionDetails_Ok:
  assumes "removeTransactionDetails b = Ok b'"
  shows "without_details b b'"
proof -
  let ?f = "\<lambda>(k, v). if k = ''transactions'' then outcome_bind (strip_transactions v) (\<lambda>v'. Ok (k, v')) else Ok (k, v)"
  obtain fs gs where b: "b = JObj fs" "b' = JObj gs" "map_outcome ?f fs = Ok gs"
    using assms by (cases b) (auto simp: outcome_bind_Ok_iff)
  have "member_without_details f g" if "?f f = Ok g" for f g
    using that strip_transactions_Ok
    by (auto simp: member_without_details_def outcome_bind_Ok_iff split: prod.splits if_splits)
  then have "list_all2 member_without_details fs gs" using b(3) by (simp add: map_outcome_Ok_iff list_all2_conv_all_nth)
  then show ?thesis using b by (simp add: without_details_def)
qed

text \<open>Leaving out the details of the transactions leaves every other field as it is, its hash among them.\<close>

lemma dec_field_without_details:
  assumes "list_all2 member_without_details fs gs" and "fold_name name \<noteq> fold_name ''transactions''"
  shows "dec_field name dec x gs = dec_field name dec x fs"
  using assms(1)
proof (induction fs gs arbitrary: x rule: list_all2_induct)
  case (Cons f fs g gs)
  then show ?case
    using assms(2) by (cases f; cases g) (auto simp: member_without_details_def simp del: fold_name.simps split: if_splits)
qed simp

lemma without_details_hash:
  assumes "without_details b b'"
  shows "dec_hash_field cdc ''hash'' b' = dec_hash_field cdc ''hash'' b"
proof -
  have "fold_name ''hash'' \<noteq> fold_name ''transactions''" by code_simp
  then show ?thesis using assms by (auto simp: without_details_def dec_hash_field_def dec_field_without_details)
qed

lemma reply_block_raw:
  assumes "reply_block msg details p = (Sends [(ARaw v, None)], s')"
  shows "\<exists>e. p = (Ok [e], s') \<and> (if details then v = en_Value e else without_details (en_Value e) v)"
proof -
  have raw: "send_raw msg x = Sends [(ARaw v, None)] \<longleftrightarrow> x = Ok v" for x
    by (cases x) (auto simp: send_ok_def)
  show ?thesis
    using assms removeTransactionDetails_Ok
    by (auto simp: reply_block_def send_err_def send_ok_def raw length_Suc_conv split: prod.splits outcome.splits if_splits)
qed

lemma cache_number_reply:
  assumes "rq_Params r = RawDoc (JArr [b, JBool details])" and "dec_BlockNumber b = Ok n" and "0 \<le> n"
  shows "cache_getBlockByNumber cdc st next chain r s =
     reply_block ''failed removing transaction details: '' details (st_Get st chain EntryBlockHeader (QueryNumber (i64_to_u64 n)) s)"
  using assms by (simp add: cache_getBlockByNumber_def)

lemma LruStore_put_get:
  assumes n: "lru_ok (lp_number ops) vn" and i: "unat (en_BlockNumber e) < 2 ^ 64 - 1"
  shows "fst (LruStore_Get ops chain ty (QueryNumber (en_BlockNumber e)) (LruStore_put1 ops (ch_Name chain) ty e t)) = Ok [e]"
proof -
  let ?t = "LruStore_put1 ops (ch_Name chain) ty e t"
  have v: "vn (ls_byNumber ?t) (ty, en_BlockNumber e, ch_Name chain) = Some e"
    by (simp add: LruStore_put1_def Let_def lru_okD [OF n])
  obtain x l where g: "lru_Get (lp_number ops) (ty, en_BlockNumber e, ch_Name chain) (ls_byNumber ?t) = (x, l)"
    by fastforce
  then have "x = Some e" using lru_okD(1) [OF n, of "(ty, en_BlockNumber e, ch_Name chain)" "ls_byNumber ?t"] v by simp
  moreover have "en_BlockNumber e \<noteq> - 1" using i by (auto simp: unsigned_minus_1_eq_mask mask_eq_exp_minus_1)
  ultimately show ?thesis using g by (simp add: LruStore_Get_def QueryNumber_def)
qed

section \<open>Properties\<close>

text \<open>
  C10: A log query that is answered from the store returns, in order, exactly those logs of the
  entries that satisfy the documented meaning of the address and topic filter.
\<close>

theorem cacher_filters_logs:
  assumes "map_outcome (\<lambda>e. arr_iter (en_Value e)) es = Ok xss" and "map_outcome log_header (concat xss) = Ok hdrs"
  shows "filterLogs (CompileFilter addresses topics) es =
     Ok (JArr (map fst (filter (\<lambda>p. filter_spec addresses topics (snd p)) (zip (concat xss) hdrs))))"
  by (simp add: filterLogs_def filter_entries_spec [OF assms] Check_CompileFilter)

definition demo_log :: "string list \<Rightarrow> json" where
  "demo_log ts = JObj [(''topics'', JArr (map JStr ts))]"

theorem cacher_filters_logs_witness:
  "filterLogs (CompileFilter [] [[0]]) [(demo_entry 5)\<lparr>en_Value := JArr [demo_log [], demo_log [''0xzz'']]\<rparr>] =
     Ok (JArr [demo_log [''0xzz'']])"
proof -
  let ?h = "\<lambda>ts. \<lparr>log_Address = 0, log_Topics = ts\<rparr>"
  have h: "map_outcome log_header (concat [[demo_log [], demo_log [''0xzz'']]]) = Ok [?h [], ?h [0]]"
    by (simp add: demo_log_def rawStrToHash_def rawStr_bytes_def digit_value_def code_def)
  have x: "map_outcome (\<lambda>e. arr_iter (en_Value e)) [(demo_entry 5)\<lparr>en_Value := JArr [demo_log [], demo_log [''0xzz'']]\<rparr>] =
      Ok [[demo_log [], demo_log [''0xzz'']]]"
    by simp
  show ?thesis
    using cacher_filters_logs [OF x h, of "[]" "[[0]]"] by (simp add: filter_spec_def)
qed


definition demo_block :: json where
  "demo_block = JObj [(''hash'', JStr (hash_Hex eth_codec 9))]"

definition demo_block_entry :: Entry where
  "demo_block_entry = \<lparr>en_BlockHash = 9, en_BlockNumber = 5, en_ParentHash = None, en_Value = demo_block\<rparr>"

definition demo_cache :: "(lruHashKey \<rightharpoonup> Entry, lruNumberKey \<rightharpoonup> Entry) LruStore" where
  "demo_cache = LruStore_put1 map_lrus ''eth'' EntryBlockHeader demo_block_entry \<lparr>ls_byHash = Map.empty, ls_byNumber = Map.empty\<rparr>"

lemma demo_block_hash: "dec_hash_field eth_codec ''hash'' demo_block = Ok 9"
  using eth_codec_ok by (simp add: dec_hash_field_def demo_block_def codec_ok_def)

lemma demo_cache_inv: "lru_inv (\<lambda>m. m) (\<lambda>m. m) (consistent eth_codec) demo_cache"
  unfolding demo_cache_def
  by (rule LruStore_put1_sound)
    (simp_all add: map_lrus_def map_lru_ok lru_inv_def index_ok_def consistent_def demo_block_entry_def demo_block_hash)


text \<open>
  A null answer to a query for the latest block is stored as block 0: a later query for block 0
  finds it in the cache and gets null instead of the first block of the chain.
\<close>

theorem null_block_cached_as_genesis:
  assumes "lru_ok (lp_number ops) vn" and "mem_cell c"
    and "Do cdc ctx next ''eth_getBlockByNumber'' (JArr [enc_BlockNumber cdc (- 1), JBool True]) s = (Ok JNull, s1)"
  shows "\<exists>s2 e. cache_latest cdc (lru_store ops c) next chain (- 1) True ctx s = (send_ok (ARaw JNull), s2) \<and>
     fst (st_Get (lru_store ops c) chain EntryBlockHeader (QueryNumber 0) s2) = Ok [e] \<and> en_Value e = JNull"
proof -
  let ?e = "\<lparr>en_BlockHash = 0, en_BlockNumber = 0, en_ParentHash = Some 0, en_Value = JNull\<rparr>"
  let ?s2 = "wr c (LruStore_put1 ops (ch_Name chain) EntryBlockHeader ?e (rd c s1)) s1"
  have "dec_head_entry cdc JNull = Ok ?e"
    by (simp add: dec_head_entry_def dec_number_field_def dec_hash_field_def)
  then have "cache_latest cdc (lru_store ops c) next chain (- 1) True ctx s = (send_ok (ARaw JNull), ?s2)"
    using assms(3) by (simp add: cache_latest_def lru_store_def)
  moreover have "fst (st_Get (lru_store ops c) chain EntryBlockHeader (QueryNumber 0) ?s2) = Ok [?e]"
    using LruStore_put_get [OF assms(1), of ?e chain EntryBlockHeader "rd c s1"] assms(2)
    by (simp add: lru_store_def mem_cell.rd_wr split_beta)
  ultimately show ?thesis by (intro exI [of _ ?s2] exI [of _ ?e]) simp
qed

theorem null_block_cached_as_genesis_witness:
  "\<exists>s2 e. cache_latest eth_codec (lru_store map_lrus own_cell) (\<lambda>r s. (send_ok (ARaw JNull), s)) demo_chain (- 1) True
       Background \<lparr>ls_byHash = Map.empty, ls_byNumber = Map.empty\<rparr> = (send_ok (ARaw JNull), s2) \<and>
     fst (st_Get (lru_store map_lrus own_cell) demo_chain EntryBlockHeader (QueryNumber 0) s2) = Ok [e] \<and> en_Value e = JNull"
proof (rule null_block_cached_as_genesis)
  show "lru_ok (lp_number map_lrus) (\<lambda>m. m)" by (simp add: map_lrus_def map_lru_ok)
  show "mem_cell (own_cell :: ((lruHashKey \<rightharpoonup> Entry, lruNumberKey \<rightharpoonup> Entry) LruStore, _) cell)" by (rule own_cell_ok)
  show "Do eth_codec Background (\<lambda>r s. (send_ok (ARaw JNull), s)) ''eth_getBlockByNumber''
      (JArr [enc_BlockNumber eth_codec (- 1), JBool True]) \<lparr>ls_byHash = Map.empty, ls_byNumber = Map.empty\<rparr> =
      (Ok JNull, \<lparr>ls_byHash = Map.empty, ls_byNumber = Map.empty\<rparr>)"
    by (simp add: Do_def serve_icept_eq send_ok_def)
qed

end
