(* ===== verification/Venn_Middlewares.thy ===== *)
theory Venn_Middlewares
  imports Venn_Cacher "HOL-Library.Multiset"
begin

text \<open>
  The middlewares of \<open>svc/node/middlewares\<close>: the replacement of the tag \<open>latest\<close> by the known head
  (\<open>headreplacer\<close>), the refusal of blocks that are too old (\<open>blockLookBack\<close>), receipts made from
  logs (\<open>forger\<close>) and the metrics of requests (\<open>promcollect\<close>). \<open>hget\<close> is the \<open>Get\<close> of the head
  store.
\<close>

type_synonym 's hget = "string \<Rightarrow> 's \<Rightarrow> u64 outcome"

section \<open>Head replacer (headreplacer.go)\<close>

text \<open>The head as a block number, or \<open>None\<close> to pass the request on.\<close>

definition toNumericBlockNumber :: "'s hget \<Rightarrow> Chain \<Rightarrow> BlockNumber \<Rightarrow> 's \<Rightarrow> BlockNumber option outcome" where
  "toNumericBlockNumber hget chain blockNumber s =
     (if blockNumber = LatestBlockNumber then
        outcome_bind (hget (ch_Name chain) s) (\<lambda>head. Ok (if head = 0 then None else Some (u64_to_i64 head)))
      else Ok None)"

definition need_parameters :: "nat \<Rightarrow> gerror" where
  "need_parameters n = NewInvalidParamsError (''need at least '' @ show_nat n @ '' parameters'')"

definition ReplaceBlockNumberInRequest :: "codec \<Rightarrow> 's hget \<Rightarrow> request \<Rightarrow> nat \<Rightarrow> 's \<Rightarrow> request outcome" where
  "ReplaceBlockNumberInRequest cdc hget r idx s =
     outcome_bind (GetChain (rq_Ctx r)) (\<lambda>chain.
       if rq_Params r = RawNil then Err (NewInvalidParamsError ''expected parameters'')
       else outcome_bind (unmarshal_raw dec_raws (rq_Params r)) (\<lambda>params.
         if length params \<le> idx then Err (need_parameters (idx + 1))
         else outcome_bind (dec_BlockNumber (params ! idx)) (\<lambda>blockNumber.
              outcome_bind (toNumericBlockNumber hget chain blockNumber s) (\<lambda>number.
                case number of
                  None \<Rightarrow> Ok r
                | Some n \<Rightarrow> Ok (r\<lparr>rq_Params := RawDoc (JArr (params[idx := enc_BlockNumber cdc n]))\<rparr>)))))"

definition replace_and_serve :: "codec \<Rightarrow> 's hget \<Rightarrow> nat \<Rightarrow> 's middleware" where
  "replace_and_serve cdc hget idx next = (\<lambda>r s.
     case ReplaceBlockNumberInRequest cdc hget r idx s of
       Ok r' \<Rightarrow> next r' s
     | Err e \<Rightarrow> (send_err e, s)
     | Panic m \<Rightarrow> (Crash m, s))"

definition replace_logs :: "codec \<Rightarrow> 's hget \<Rightarrow> Chain \<Rightarrow> 's middleware" where
  "replace_logs cdc hget chain next = (\<lambda>r s.
     case unmarshal_raw (dec_slice (dec_FilterQuery cdc)) (rq_Params r) of
       Err e \<Rightarrow> (send_err e, s)
     | Panic m \<Rightarrow> (Crash m, s)
     | Ok request \<Rightarrow>
         if length request \<noteq> 1 then (send_err (NewInvalidParamsError ''expected 1 parameter''), s)
         else let q = request ! 0 in
           if fq_BlockHash q \<noteq> None then next r s
           else
             let fromBlock = (case fq_FromBlock q of None \<Rightarrow> LatestBlockNumber | Some n \<Rightarrow> n);
                 toBlock = (case fq_ToBlock q of None \<Rightarrow> LatestBlockNumber | Some n \<Rightarrow> n)
             in (case outcome_bind (toNumericBlockNumber hget chain fromBlock s) (\<lambda>a.
                      outcome_bind (toNumericBlockNumber hget chain toBlock s) (\<lambda>b. Ok (a, b))) of
                   Err e \<Rightarrow> (send_err e, s)
                 | Panic m \<Rightarrow> (Crash m, s)
                 | Ok (Some a, Some b) \<Rightarrow>
                     next (r\<lparr>rq_Params := RawDoc (JArr [enc_FilterQuery cdc (q\<lparr>fq_FromBlock := Some a, fq_ToBlock := Some b\<rparr>)])\<rparr>) s
                 | Ok _ \<Rightarrow> next r s))"

definition HeadReplacer_Middleware :: "codec \<Rightarrow> 's hget \<Rightarrow> 's middleware" where
  "HeadReplacer_Middleware cdc hget next = (\<lambda>r s.
     case GetChain (rq_Ctx r) of
       Err e \<Rightarrow> (send_err e, s)
     | Panic m \<Rightarrow> (Crash m, s)
     | Ok chain \<Rightarrow>
         if rq_Method r = ''eth_chainId'' then (send_ok (AUint64 (i64_to_u64 (ch_Id chain))), s)
         else if rq_Method r = ''net_version'' then (send_ok (AString (Itoa (ch_Id chain))), s)
         else if rq_Method r = ''eth_blockNumber'' then (send_outcome AUint64 (hget (ch_Name chain) s), s)
         else if rq_Method r = ''eth_getBlockByNumber'' then replace_and_serve cdc hget 0 next r s
         else if rq_Method r = ''eth_getBlockReceipts'' then replace_and_serve cdc hget 0 next r s
         else if rq_Method r = ''eth_call'' then replace_and_serve cdc hget 1 next r s
         else if rq_Method r = ''eth_getLogs'' then replace_logs cdc hget chain next r s
         else next r s)"

section \<open>Block look-back (blockLookBack.go)\<close>

record BlockLookBack =
  lb_chainCfg :: Chain
  lb_remoteCfg :: "Remote option"

definition getEffectiveLookBack :: "BlockLookBack \<Rightarrow> int" where
  "getEffectiveLookBack m =
     (let chainLimit = ch_MaxBlockLookback (lb_chainCfg m) in
      case lb_remoteCfg m of
        None \<Rightarrow> chainLimit
      | Some rc \<Rightarrow>
          let remoteLimit = rem_MaxBlockLookback rc in
          if chainLimit = 0 \<and> remoteLimit = 0 then 0
          else if remoteLimit = 0 then chainLimit
          else if chainLimit = 0 then remoteLimit
          else if chainLimit < remoteLimit then chainLimit
          else remoteLimit)"

definition too_old :: "BlockNumber \<Rightarrow> int \<Rightarrow> u64 \<Rightarrow> gerror" where
  "too_old bn lookback head = ErrorText (''block number, '' @ Itoa bn @ '', is too old (max lookback: '' @ Itoa lookback @
     '' blocks from head: '' @ show_nat (unat head) @ '')'')"

definition validateBlockNumber :: "'s hget \<Rightarrow> BlockLookBack \<Rightarrow> ctx \<Rightarrow> BlockNumber \<Rightarrow> 's \<Rightarrow> unit outcome" where
  "validateBlockNumber hget m ctx bn s =
     (let lookback = getEffectiveLookBack m in
      if lookback = 0 then Ok ()
      else outcome_bind (GetChain ctx) (\<lambda>chain.
           outcome_bind (hget (ch_Name chain) s) (\<lambda>head.
             if bn = EarliestBlockNumber \<or> (0 < bn \<and> i64_to_u64 bn < head - i64_to_u64 lookback)
             then Err (too_old bn lookback head) else Ok ())))"

text \<open>\<open>check2Param\<close> and \<open>check3Param\<close>: the block parameter may be left out.\<close>

definition check_params :: "'s hget \<Rightarrow> BlockLookBack \<Rightarrow> nat \<Rightarrow> nat \<Rightarrow> request \<Rightarrow> 's \<Rightarrow> unit outcome" where
  "check_params hget m required idx r s =
     outcome_bind (unmarshal_raw dec_raws (rq_Params r)) (\<lambda>params.
       if length params < required then Ok ()
       else outcome_bind (dec_BlockNumber (params ! idx)) (\<lambda>bn. validateBlockNumber hget m (rq_Ctx r) bn s))"

definition check2Param :: "'s hget \<Rightarrow> BlockLookBack \<Rightarrow> nat \<Rightarrow> request \<Rightarrow> 's \<Rightarrow> unit outcome" where
  "check2Param hget m idx = check_params hget m 2 idx"

definition check3Param :: "'s hget \<Rightarrow> BlockLookBack \<Rightarrow> nat \<Rightarrow> request \<Rightarrow> 's \<Rightarrow> unit outcome" where
  "check3Param hget m idx = check_params hget m 3 idx"

definition check1Param :: "'s hget \<Rightarrow> BlockLookBack \<Rightarrow> request \<Rightarrow> 's \<Rightarrow> unit outcome" where
  "check1Param hget m r s =
     outcome_bind (unmarshal_raw (dec_slice dec_BlockNumber) (rq_Params r)) (\<lambda>params.
       if length params \<noteq> 1 then Err (NewInvalidParamsError ''expected 1 parameter'')
       else validateBlockNumber hget m (rq_Ctx r) (params ! 0) s)"

definition checkGetLogs :: "codec \<Rightarrow> 's hget \<Rightarrow> BlockLookBack \<Rightarrow> request \<Rightarrow> 's \<Rightarrow> unit outcome" where
  "checkGetLogs cdc hget m r s =
     outcome_bind (unmarshal_raw (dec_slice (dec_FilterQuery cdc)) (rq_Params r)) (\<lambda>params.
       if length params \<noteq> 1 then Err (NewInvalidParamsError ''expected 1 parameter'')
       else case fq_FromBlock (params ! 0) of
              Some fb \<Rightarrow> validateBlockNumber hget m (rq_Ctx r) fb s
            | None \<Rightarrow> Ok ())"

definition lookback_check :: "codec \<Rightarrow> 's hget \<Rightarrow> BlockLookBack \<Rightarrow> request \<Rightarrow> 's \<Rightarrow> unit outcome" where
  "lookback_check cdc hget m r s =
     (if rq_Method r \<in> {''eth_getBlockByNumber'', ''eth_getTransactionByBlockNumberAndIndex''} then check2Param hget m 0 r s
      else if rq_Method r \<in> {''eth_getTransactionCount'', ''eth_getBalance'', ''eth_getCode'', ''eth_call'',
        ''eth_estimateGas'', ''eth_createAccessList''} then check2Param hget m 1 r s
      else if rq_Method r = ''eth_getStorageAt'' then check3Param hget m 2 r s
      else if rq_Method r \<in> {''eth_getBlockReceipts'', ''eth_getBlockTransactionCountByNumber'',
        ''eth_getUncleCountByBlockNumber'', ''debug_getRawHeader'', ''debug_getRawBlock''} then check1Param hget m r s
      else if rq_Method r = ''eth_getLogs'' then checkGetLogs cdc hget m r s
      else Ok ())"

definition BlockLookBack_Middleware :: "codec \<Rightarrow> 's hget \<Rightarrow> BlockLookBack \<Rightarrow> 's middleware" where
  "BlockLookBack_Middleware cdc hget m next = (\<lambda>r s.
     case lookback_check cdc hget m r s of
       Err e \<Rightarrow> (send_err e, s)
     | Panic p \<Rightarrow> (Crash p, s)
     | Ok _ \<Rightarrow> next r s)"

section \<open>Forger (forger.go)\<close>

text \<open>An array of length 1 of block numbers.\<close>

fun dec_one_number :: "json \<Rightarrow> BlockNumber outcome" where
  "dec_one_number (JArr (x # _)) = dec_BlockNumber x"
| "dec_one_number (JArr []) = Ok 0"
| "dec_one_number JNull = Ok 0"
| "dec_one_number _ = Err json_type_error"

text \<open>
  The transaction hashes of the logs. The decoder stops at a hash it cannot read, which leaves the
  list shorter than the list of logs; an element that is no object counts as zero.
\<close>

fun log_details :: "codec \<Rightarrow> json list \<Rightarrow> hash list \<times> gerror option" where
  "log_details cdc [] = ([], None)"
| "log_details cdc (x # xs) =
     (case struct_fields x of
        Ok fs \<Rightarrow>
          (case dec_field ''transactionHash'' (dec_Hash cdc) 0 fs of
             Ok h \<Rightarrow> (case log_details cdc xs of (hs, e) \<Rightarrow> (h # hs, e))
           | Err e \<Rightarrow> ([0], Some e)
           | Panic m \<Rightarrow> ([0], Some (ErrorText m)))
      | _ \<Rightarrow> (case log_details cdc xs of (hs, e) \<Rightarrow> (0 # hs, Some (case e of None \<Rightarrow> json_type_error | Some e' \<Rightarrow> e'))))"

definition receipt_keys :: "string list" where
  "receipt_keys = [''blockHash'', ''transactionIndex'', ''to'', ''from'', ''type'', ''blockNumber'']"

text \<open>The members of a receipt and the hash of the transaction.\<close>

fun receipt_members :: "codec \<Rightarrow> (string \<times> json) list \<Rightarrow> hash \<Rightarrow> (hash \<times> (string \<times> json) list) outcome" where
  "receipt_members cdc [] h = Ok (h, [])"
| "receipt_members cdc ((k, v) # fs) h =
     (if k = ''hash'' then
        outcome_bind (dec_Hash cdc v) (\<lambda>h'.
        outcome_bind (receipt_members cdc fs h') (\<lambda>(h'', ms). Ok (h'', (''transactionHash'', v) # ms)))
      else if k \<in> set receipt_keys then
        outcome_bind (receipt_members cdc fs h) (\<lambda>(h'', ms). Ok (h'', (k, v) # ms))
      else receipt_members cdc fs h)"

definition forge_receipt :: "codec \<Rightarrow> json list \<Rightarrow> hash list \<Rightarrow> json \<Rightarrow> json outcome" where
  "forge_receipt cdc logs details tx =
     (case tx of
        JObj fs \<Rightarrow>
          outcome_bind (receipt_members cdc fs 0) (\<lambda>(h, ms).
            if length details < length logs then Panic ''index out of range''
            else Ok (JObj (ms @ [(''logs'', JArr (map fst (filter (\<lambda>p. snd p = h) (zip logs details))))])))
      | _ \<Rightarrow> Err json_type_error)"

definition forge_receipts :: "codec \<Rightarrow> json list \<Rightarrow> hash list \<Rightarrow> json list \<Rightarrow> json outcome" where
  "forge_receipts cdc logs details txs = outcome_bind (map_outcome (forge_receipt cdc logs details) txs) (\<lambda>rs. Ok (JArr rs))"

text \<open>
  The two calls run concurrently in the program; here the logs are asked for first, and when both
  fail the error is the one for the logs.
\<close>

definition forge :: "codec \<Rightarrow> 's handler \<Rightarrow> ctx \<Rightarrow> BlockNumber \<Rightarrow> 's \<Rightarrow> reply \<times> 's" where
  "forge cdc next ctx bn s =
     (let flt = \<lparr>fq_BlockHash = None, fq_FromBlock = Some bn, fq_ToBlock = Some bn, fq_Addresses = [], fq_Topics = []\<rparr> in
      case Do cdc ctx next ''eth_getLogs'' (JArr [enc_FilterQuery cdc flt]) s of (ol, s1) \<Rightarrow>
      case Do cdc ctx next ''eth_getBlockByNumber'' (JArr [enc_BlockNumber cdc bn, JBool True]) s1 of (ob, s2) \<Rightarrow>
      (case outcome_bind ol (\<lambda>rawLogs. outcome_bind ob (\<lambda>block.
            outcome_bind (struct_fields block) (\<lambda>fs.
            outcome_bind (dec_field ''transactions'' dec_raws [] fs) (\<lambda>txs.
            outcome_bind (dec_raws rawLogs) (\<lambda>logs. Ok (txs, logs)))))) of
         Err e \<Rightarrow> (send_err e, s2)
       | Panic m \<Rightarrow> (Crash m, s2)
       | Ok (txs, logs) \<Rightarrow>
           (case log_details cdc logs of (details, derr) \<Rightarrow>
              let pre = (case derr of None \<Rightarrow> [] | Some e \<Rightarrow> [(ANil, Some e)]) in
              (case forge_receipts cdc logs details txs of
                 Ok j \<Rightarrow> (Sends (pre @ [(ARaw j, None)]), s2)
               | Err e \<Rightarrow> (Sends (pre @ [(ANil, Some e)]), s2)
               | Panic m \<Rightarrow> (Crash m, s2)))))"

definition Forger_Middleware :: "codec \<Rightarrow> 's middleware" where
  "Forger_Middleware cdc next = (\<lambda>r s.
     if rq_Method r = ''eth_getBlockReceipts'' then
       (case GetChain (rq_Ctx r) of
          Ok chain \<Rightarrow>
            if \<not> ch_ForgeBlockReceipts chain then next r s
            else (case unmarshal_raw dec_one_number (rq_Params r) of
                    Err e \<Rightarrow> (send_err e, s)
                  | Panic m \<Rightarrow> (Crash m, s)
                  | Ok bn \<Rightarrow> forge cdc next (rq_Ctx r) bn s)
        | _ \<Rightarrow> next r s)
     else next r s)"

section \<open>Request metrics (promcollect/collector.go)\<close>

text \<open>What is observed of a request: chain, method, success and duration.\<close>

type_synonym request_metrics = "(string \<times> string \<times> bool \<times> int) list"

definition promcollect_observe :: "ctx \<Rightarrow> string \<Rightarrow> bool \<Rightarrow> int \<Rightarrow> request_metrics \<Rightarrow> request_metrics" where
  "promcollect_observe ctx method success dur ms =
     (case GetChain ctx of Ok chain \<Rightarrow> ms @ [(ch_Name chain, method, success, dur)] | _ \<Rightarrow> ms)"

definition promcollect_Middleware :: "('s \<Rightarrow> int) \<Rightarrow> ('s, request_metrics) cell \<Rightarrow> 's middleware" where
  "promcollect_Middleware clk c next = (\<lambda>r s.
     if has_suffix (rq_Method r) ''_subscribe'' then next r s
     else case serve_icept next Interceptor_zero r s of
       (Ok ic, s1) \<Rightarrow>
         (send_icept ic, upd c (promcollect_observe (rq_Ctx r) (rq_Method r) (ic_Error ic = None) (clk s1 - clk s)) s1)
     | (Err e, s1) \<Rightarrow> (send_err e, s1)
     | (Panic m, s1) \<Rightarrow> (Crash m, upd c (promcollect_observe (rq_Ctx r) (rq_Method r) True (clk s1 - clk s)) s1))"

section \<open>Lemmas\<close>

lemma dec_raws_RawDoc [simp]: "unmarshal_raw dec_raws (RawDoc (JArr ps)) = Ok ps"
  by simp

lemma latest_tag: "dec_BlockNumber (JStr ''latest'') = Ok LatestBlockNumber"
  by (simp add: dec_BlockNumber_def BlockNumber_UnmarshalJSON_def quoted_def trim_space_def is_space_def code_def)

lemma u64_below: "0 \<le> bn \<Longrightarrow> bn < 2 ^ 63 \<Longrightarrow> uint (i64_to_u64 bn) = bn"
  by (simp add: i64_to_u64_def uint_word_of_int)

lemma lookback_no_underflow:
  assumes "0 < lookback" and "lookback \<le> uint head"
  shows "uint (head - i64_to_u64 lookback) = uint head - lookback"
proof -
  have h: "uint head < 2 ^ 64" using unsigned_less [of head, where ?'a = int] by simp
  have l: "uint (i64_to_u64 lookback) = lookback"
    using assms h by (simp add: i64_to_u64_def uint_word_of_int)
  then have "i64_to_u64 lookback \<le> head" using assms(2) by (simp add: word_le_def)
  then show ?thesis by (simp add: l uint_sub_lem [THEN iffD1] word_le_def)
qed

lemma open_range_size:
  assumes "0 < n" and "n < 2 ^ 63"
  shows "unat (i64_to_u64 (- 1) - i64_to_u64 n + 1) = 2 ^ 64 - nat n"
proof -
  have "i64_to_u64 (- 1) - i64_to_u64 n + 1 = word_of_int (- n)" by (simp add: i64_to_u64_def)
  then have "uint (i64_to_u64 (- 1) - i64_to_u64 n + 1) = uint (word_of_int (- n) :: u64)" by (simp only:)
  also have "\<dots> = (- n) mod 2 ^ 64" unfolding uint_word_of_int by simp
  also have "\<dots> = 2 ^ 64 - n" using assms by (simp add: zmod_zminus1_eq_if)
  finally have "unat (i64_to_u64 (- 1) - i64_to_u64 n + 1) = nat (2 ^ 64 - n)" by (metis unat_eq_nat_uint)
  then show ?thesis using assms by (simp add: nat_diff_distrib)
qed

text \<open>What a handler that echoes its parameters sends.\<close>

definition marshal_params :: "raw \<Rightarrow> any" where
  "marshal_params p = (case p of RawDoc j \<Rightarrow> ARaw j | _ \<Rightarrow> ANil)"

section \<open>Properties of the head replacer\<close>

text \<open>
  C13: A request for the latest block, its receipts or a call at the latest block is forwarded with
  the known head in place of the tag and every other parameter unchanged; without a known head the
  request is forwarded as it is.
\<close>

theorem head_replacer_substitutes:
  assumes "GetChain (rq_Ctx r) = Ok chain" and "hget (ch_Name chain) s = Ok head"
    and "(rq_Method r, idx) \<in> {(''eth_getBlockByNumber'', 0), (''eth_getBlockReceipts'', 0), (''eth_call'', 1)}"
    and "rq_Params r = RawDoc (JArr ps)" and "idx < length ps" and "ps ! idx = JStr ''latest''"
  shows "HeadReplacer_Middleware cdc hget next r s =
     (if head = 0 then next r s
      else next (r\<lparr>rq_Params := RawDoc (JArr (ps[idx := enc_BlockNumber cdc (u64_to_i64 head)]))\<rparr>) s)"
proof -
  have "ReplaceBlockNumberInRequest cdc hget r idx s =
      Ok (if head = 0 then r else r\<lparr>rq_Params := RawDoc (JArr (ps[idx := enc_BlockNumber cdc (u64_to_i64 head)]))\<rparr>)"
    using assms by (simp add: ReplaceBlockNumberInRequest_def latest_tag toNumericBlockNumber_def)
  moreover have "HeadReplacer_Middleware cdc hget next r s = replace_and_serve cdc hget idx next r s"
    using assms(1,3) by (auto simp: HeadReplacer_Middleware_def)
  ultimately show ?thesis by (simp add: replace_and_serve_def)
qed

theorem head_replacer_substitutes_witness:
  "let ctx = WithChain Background demo_chain;
       r = NewRequest ctx ''eth_getBlockByNumber'' (JArr [JStr ''latest'', JBool True])
   in HeadReplacer_Middleware eth_codec (\<lambda>_ _. Ok 7) (\<lambda>r s. (send_ok (marshal_params (rq_Params r)), s)) r () =
      (send_ok (ARaw (JArr [enc_BlockNumber eth_codec 7, JBool True])), ())"
proof -
  let ?ctx = "WithChain Background demo_chain"
  let ?r = "NewRequest ?ctx ''eth_getBlockByNumber'' (JArr [JStr ''latest'', JBool True])"
  have "u64_to_i64 7 = 7" by (simp add: u64_to_i64_def in_i64_def)
  then show ?thesis
    using head_replacer_substitutes [of ?r demo_chain "\<lambda>_ _. Ok 7" "()" 7 0 "[JStr ''latest'', JBool True]" eth_codec
        "\<lambda>r s. (send_ok (marshal_params (rq_Params r)), s)"]
    by (simp add: NewRequest_def WithChain_def GetChain_def Let_def marshal_params_def)
qed

text \<open>
  C12: A log query from a numbered block to the latest one ends the process. The head replacer
  leaves it as it is because only one of the bounds is a tag, the cache takes the tag for the
  largest number, and the allocation for the range panics.
\<close>

theorem open_log_range_crashes:
  assumes "codec_ok cdc" and "0 < n" and "n < 2 ^ 63" and "GetChain (rq_Ctx r) = Ok chain"
    and "hget (ch_Name chain) s = Ok head" and "rq_Method r = ''eth_getLogs''" and "mem_cell c"
    and "rq_Params r = RawDoc (JArr [enc_FilterQuery cdc \<lparr>fq_BlockHash = None, fq_FromBlock = Some n, fq_ToBlock = Some (- 1),
           fq_Addresses = as, fq_Topics = ts\<rparr>])"
  shows "HeadReplacer_Middleware cdc hget
     (Cacher_Middleware cdc (\<lambda>_. vennstore cdc no_overlap (lru_store ops c) rediblock chainblock) next) r s =
     (Crash ''makeslice: cap out of range'', s)"
proof -
  let ?q = "\<lparr>fq_BlockHash = None, fq_FromBlock = Some n, fq_ToBlock = Some (- 1), fq_Addresses = as, fq_Topics = ts\<rparr>"
  let ?st = "vennstore cdc no_overlap (lru_store ops c) rediblock chainblock"
  have dec: "dec_FilterQuery cdc (enc_FilterQuery cdc ?q) = Ok ?q"
    using assms(2,3) by (intro dec_enc_FilterQuery [OF assms(1)]) (auto simp: valid_BlockNumber_def)
  have un: "unat (i64_to_u64 (- 1) - i64_to_u64 n + 1) = 2 ^ 64 - nat n"
    by (rule open_range_size [OF assms(2,3)])
  have "\<not> i64_to_u64 (- 1) < i64_to_u64 n" by (simp add: i64_to_u64_def)
  moreover have big: "2 ^ 45 < unat (i64_to_u64 (- 1) - i64_to_u64 n + 1)"
  proof -
    have "nat n < 2 ^ 63" using assms(3) by (simp add: nat_less_iff assms(2) less_imp_le)
    then show ?thesis unfolding un by simp
  qed
  ultimately have store: "st_Get ?st chain EntryLogs (QueryRange (i64_to_u64 n) (i64_to_u64 (- 1))) s =
      (Panic ''makeslice: cap out of range'', s)"
    using assms(7) big unfolding vennstore_def SingleFlight_def no_overlap_def CompoundStore_def CompoundStore_Get_def AddStore_def
      lru_store_def LruStore_Get_def
    by (simp add: mem_cell.wr_rd split: option.split)
  have "wrap64 (- 1 - n) = - 1 - n" using assms(2,3) by (intro wrap64_id) (simp add: in_i64_def)
  then have "cache_getLogs cdc ?st next chain r s = (Crash ''makeslice: cap out of range'', s)"
    using assms(2,8) store by (simp add: cache_getLogs_def dec maxLogRange_def)
  then have "Cacher_Middleware cdc (\<lambda>_. ?st) next r s = (Crash ''makeslice: cap out of range'', s)"
    using assms(4,6) by (simp add: Cacher_Middleware_def Let_def)
  moreover have "toNumericBlockNumber hget chain n s = Ok None" "\<exists>x. toNumericBlockNumber hget chain (- 1) s = Ok x"
    using assms(2,5) by (auto simp: toNumericBlockNumber_def block_tags)
  ultimately show ?thesis
    using assms(4,6,8) by (auto simp: HeadReplacer_Middleware_def replace_logs_def dec Let_def)
qed

theorem open_log_range_crashes_witness:
  "HeadReplacer_Middleware eth_codec (\<lambda>_ _. Ok 7)
     (Cacher_Middleware eth_codec (\<lambda>_. vennstore eth_codec no_overlap (lru_store map_lrus own_cell) None
        (Chainblock eth_codec demo_clusters Background)) (\<lambda>r s. (send_ok ANil, s)))
     (NewRequest (WithChain Background demo_chain) ''eth_getLogs''
        (JArr [enc_FilterQuery eth_codec \<lparr>fq_BlockHash = None, fq_FromBlock = Some 5, fq_ToBlock = Some (- 1),
           fq_Addresses = [], fq_Topics = []\<rparr>]))
     demo_lru = (Crash ''makeslice: cap out of range'', demo_lru)"
  by (rule open_log_range_crashes [OF eth_codec_ok _ _ _ _ _ own_cell_ok, of 5 _ demo_chain _ _ 7])
    (simp_all add: NewRequest_def WithChain_def GetChain_def)

section \<open>Properties of the look-back limit\<close>

text \<open>
  With a limit and a head that is at least as high as the limit, a request is refused exactly
  when it asks for the earliest block or for a numbered block that is more than the limit behind
  the head; the other tags are never refused.
\<close>

theorem lookback_decides:
  assumes "GetChain ctx = Ok chain" and "hget (ch_Name chain) s = Ok head" and "valid_BlockNumber bn"
    and "0 < getEffectiveLookBack m" and "getEffectiveLookBack m \<le> uint head"
  shows "validateBlockNumber hget m ctx bn s =
     (if bn = EarliestBlockNumber \<or> (0 < bn \<and> bn < uint head - getEffectiveLookBack m)
      then Err (too_old bn (getEffectiveLookBack m) head) else Ok ())"
proof -
  have "0 < bn \<Longrightarrow> i64_to_u64 bn < head - i64_to_u64 (getEffectiveLookBack m) \<longleftrightarrow> bn < uint head - getEffectiveLookBack m"
    using u64_below [of bn] lookback_no_underflow [OF assms(4,5)] assms(3)
    by (simp add: word_less_def valid_BlockNumber_def)
  then show ?thesis
    using assms(1,2,4) by (auto simp: validateBlockNumber_def Let_def)
qed

definition demo_lookback :: "int \<Rightarrow> BlockLookBack" where
  "demo_lookback n = \<lparr>lb_chainCfg = demo_chain\<lparr>ch_MaxBlockLookback := n\<rparr>, lb_remoteCfg = None\<rparr>"

theorem lookback_decides_witness:
  "validateBlockNumber (\<lambda>_ _. Ok 100) (demo_lookback 10) (WithChain Background demo_chain) 89 () =
     Err (too_old 89 10 100)"
  by (subst lookback_decides [of _ demo_chain _ _ 100])
    (simp_all add: WithChain_def GetChain_def demo_lookback_def getEffectiveLookBack_def valid_BlockNumber_def
      EarliestBlockNumber_def)

lemma mod_below:
  assumes "0 \<le> (u :: int)" and "u < l" and "l < 2 ^ 63"
  shows "(u - l) mod 2 ^ 64 = u - l + 2 ^ 64"
proof -
  have "(u - l + 2 ^ 64) mod 2 ^ 64 = u - l + 2 ^ 64"
    using assms by (intro mod_pos_pos_trivial) simp_all
  then show ?thesis by simp
qed

lemma below_mod: "0 \<le> (u :: int) \<Longrightarrow> b < 2 ^ 63 \<Longrightarrow> l < 2 ^ 63 \<Longrightarrow> b < u - l + 2 ^ 64"
  by simp

text \<open>
  While the head is lower than the limit, and so in particular before the first head is known,
  the subtraction wraps and every request for a numbered block is refused as too old.
\<close>

theorem lookback_wraps_below_limit:
  assumes "GetChain ctx = Ok chain" and "hget (ch_Name chain) s = Ok head" and "0 < bn" and "bn < 2 ^ 63"
    and "uint head < getEffectiveLookBack m" and "getEffectiveLookBack m < 2 ^ 63"
  shows "validateBlockNumber hget m ctx bn s = Err (too_old bn (getEffectiveLookBack m) head)"
proof -
  let ?l = "getEffectiveLookBack m"
  have h: "0 \<le> uint head" by simp
  then have l: "0 < ?l" "uint (i64_to_u64 ?l) = ?l" using assms(5,6) u64_below [of ?l] by linarith+
  have "uint (head - i64_to_u64 ?l) = (uint head - ?l) mod 2 ^ 64" by (simp add: uint_word_ariths l)
  also have "\<dots> = uint head - ?l + 2 ^ 64" by (rule mod_below [OF h assms(5,6)])
  finally have "bn < uint (head - i64_to_u64 ?l)" using below_mod [OF h assms(4,6)] by simp
  then have "i64_to_u64 bn < head - i64_to_u64 ?l"
    using u64_below [of bn] assms(3,4) by (simp add: word_less_def)
  then show ?thesis using assms(1-3) l(1) by (simp add: validateBlockNumber_def Let_def)
qed

theorem lookback_wraps_below_limit_witness:
  "validateBlockNumber (\<lambda>_ _. Ok 0) (demo_lookback 10) (WithChain Background demo_chain) 19000000 () =
     Err (too_old 19000000 10 0)"
  using lookback_wraps_below_limit [of "WithChain Background demo_chain" demo_chain "\<lambda>_ _. Ok 0" "()" 0 19000000 "demo_lookback 10"]
  by (simp add: WithChain_def GetChain_def demo_lookback_def getEffectiveLookBack_def)

section \<open>Properties of the forger\<close>

definition transaction_hash :: "codec \<Rightarrow> json \<Rightarrow> hash outcome" where
  "transaction_hash cdc tx =
     (case tx of JObj fs \<Rightarrow> outcome_bind (receipt_members cdc fs 0) (\<lambda>p. Ok (fst p)) | _ \<Rightarrow> Err json_type_error)"

definition receipt_logs :: "json \<Rightarrow> json list" where
  "receipt_logs r = (case r of JObj fs \<Rightarrow> (case snd (last fs) of JArr ls \<Rightarrow> ls | _ \<Rightarrow> []) | _ \<Rightarrow> [])"

lemma forge_receipt_logs:
  "forge_receipt cdc logs details tx = Ok r \<Longrightarrow> transaction_hash cdc tx = Ok h \<Longrightarrow>
   receipt_logs r = map fst (filter (\<lambda>p. snd p = h) (zip logs details))"
  by (cases tx) (auto simp: forge_receipt_def transaction_hash_def receipt_logs_def outcome_bind_Ok_iff split: if_splits)

lemma partition_by_key:
  "distinct hs \<Longrightarrow> mset (concat (map (\<lambda>h. map fst (filter (\<lambda>p. snd p = h) ps)) hs)) =
     mset (map fst (filter (\<lambda>p. snd p \<in> set hs) ps))"
proof (induction hs)
  case Nil
  then show ?case by simp
next
  case (Cons h hs)
  have "mset (map fst (filter (\<lambda>p. snd p = h) ps)) + mset (map fst (filter (\<lambda>p. snd p \<in> set hs) ps)) =
      mset (map fst (filter (\<lambda>p. snd p \<in> set (h # hs)) ps))"
    using Cons.prems by (induction ps) auto
  then show ?case using Cons by simp
qed

lemma receipt_logs_all:
  "map_outcome (forge_receipt cdc logs details) txs = Ok rs \<Longrightarrow> map_outcome (transaction_hash cdc) txs = Ok hs \<Longrightarrow>
   map receipt_logs rs = map (\<lambda>h. map fst (filter (\<lambda>p. snd p = h) (zip logs details))) hs"
  by (induction txs arbitrary: rs hs) (auto simp: outcome_bind_Ok_iff forge_receipt_logs)

text \<open>
  C20: The receipts made from the logs of a block contain every log of the block exactly once, and
  each in the receipt of the transaction it belongs to, when the transactions have different
  hashes and every log belongs to one of them.
\<close>

theorem forger_partitions_logs:
  assumes "forge_receipts cdc logs details txs = Ok (JArr rs)" and "map_outcome (transaction_hash cdc) txs = Ok hs"
    and "distinct hs" and "set details \<subseteq> set hs" and "length details = length logs"
  shows "mset (concat (map receipt_logs rs)) = mset logs \<and> length rs = length txs \<and>
     (\<forall>i < length rs. receipt_logs (rs ! i) = map fst (filter (\<lambda>p. snd p = hs ! i) (zip logs details)))"
proof -
  have rs: "map_outcome (forge_receipt cdc logs details) txs = Ok rs"
    using assms(1) by (auto simp: forge_receipts_def outcome_bind_Ok_iff)
  note all = receipt_logs_all [OF rs assms(2)]
  have "filter (\<lambda>p. snd p \<in> set hs) (zip logs details) = zip logs details"
    using assms(4) by (auto simp: filter_id_conv dest: set_zip_rightD)
  then have "mset (concat (map receipt_logs rs)) = mset logs"
    unfolding all partition_by_key [OF assms(3)] using assms(5) by simp
  moreover have "length rs = length hs" using all by (metis length_map)
  then have "receipt_logs (rs ! i) = map fst (filter (\<lambda>p. snd p = hs ! i) (zip logs details))" if "i < length rs" for i
    using arg_cong [OF all, of "\<lambda>xs. xs ! i"] that by simp
  ultimately show ?thesis using map_outcome_length [OF rs] by blast
qed

theorem forger_partitions_logs_witness:
  "\<exists>rs. forge_receipts eth_codec [JStr ''log''] [9] [JObj [(''hash'', JStr (hash_Hex eth_codec 9))]] = Ok (JArr rs) \<and>
     mset (concat (map receipt_logs rs)) = mset [JStr ''log'']"
proof -
  have h: "dec_Hash eth_codec (JStr (hash_Hex eth_codec 9)) = Ok 9"
    using eth_codec_ok by (simp add: codec_ok_def)
  have f: "forge_receipts eth_codec [JStr ''log''] [9] [JObj [(''hash'', JStr (hash_Hex eth_codec 9))]] =
      Ok (JArr [JObj [(''transactionHash'', JStr (hash_Hex eth_codec 9)), (''logs'', JArr [JStr ''log''])]])"
    by (simp add: forge_receipts_def forge_receipt_def h)
  have t: "map_outcome (transaction_hash eth_codec) [JObj [(''hash'', JStr (hash_Hex eth_codec 9))]] = Ok [9]"
    by (simp add: transaction_hash_def h)
  from forger_partitions_logs [OF f t] f show ?thesis by simp
qed

end
