(* ===== verification/Venn_Oracles.thy ===== *)
theory Venn_Oracles
  imports Venn_Util
begin

text \<open>
  The oracles of \<open>lib/oracles\<close>, which combine several reports of one value (the head block of a
  chain in \<open>blockoracle\<close>) into one. An oracle is a function of the context and the state of the
  process; a report is a value, an error or a panic. \<open>cmp.Ordered\<close> types are linearly ordered
  types with a zero value (the program uses \<open>int\<close>). The CEL compiler, the URL parser and the HTTP
  client are arguments of the definitions that use them.
\<close>

type_synonym ('s, 'a) Oracle = "ctx \<Rightarrow> 's \<Rightarrow> 'a outcome \<times> 's"

section \<open>Combinations of several oracles\<close>

text \<open>
  The loop that \<open>MaxTrimOracle\<close> and \<open>MedianOracle\<close> share: ask every oracle in turn, append the
  answers to \<open>responses\<close> and the errors to \<open>merr\<close>.
\<close>

fun poll :: "('s, 'a) Oracle list \<Rightarrow> ctx \<Rightarrow> 'a list \<Rightarrow> gerror option \<Rightarrow> 's \<Rightarrow> ('a list \<times> gerror option) outcome \<times> 's" where
  "poll [] c responses merr s = (Ok (responses, merr), s)"
| "poll (v # vs) c responses merr s =
     (case v c s of
        (Ok ans, s1) \<Rightarrow> poll vs c (responses @ [ans]) merr s1
      | (Err e, s1) \<Rightarrow> poll vs c responses (multierr_Append merr e) s1
      | (Panic m, s1) \<Rightarrow> (Panic m, s1))"

text \<open>\<open>return t, merr\<close> with the zero value.\<close>

definition zero_or_error :: "gerror option \<Rightarrow> 'a::zero outcome" where
  "zero_or_error merr = (case merr of None \<Rightarrow> Ok 0 | Some e \<Rightarrow> Err e)"

text \<open>The loop over the responses that keeps the best one, starting from the zero value.\<close>

fun best_of :: "'a::linorder list \<Rightarrow> 'a \<Rightarrow> 'a" where
  "best_of [] best = best"
| "best_of (v # vs) best = best_of vs (if best < v then v else best)"

text \<open>\<open>responses[1 : len(responses)-1]\<close>.\<close>

definition trim :: "'a list \<Rightarrow> 'a list" where
  "trim responses = (if 5 \<le> length responses then drop 1 (take (length responses - 1) responses) else responses)"

definition MaxTrimOracle :: "('s, 'a::{linorder,zero}) Oracle list \<Rightarrow> ('s, 'a) Oracle" where
  "MaxTrimOracle oracles c s =
     (case poll oracles c [] None s of
        (Ok (responses, merr), s1) \<Rightarrow>
          if responses = [] then (zero_or_error merr, s1)
          else (Ok (best_of (trim (sort responses)) 0), s1)
      | (Err e, s1) \<Rightarrow> (Err e, s1)
      | (Panic m, s1) \<Rightarrow> (Panic m, s1))"

fun max_loop :: "('s, 'a::linorder) Oracle list \<Rightarrow> ctx \<Rightarrow> 'a \<Rightarrow> bool \<Rightarrow> gerror option \<Rightarrow> 's
    \<Rightarrow> ('a \<times> bool \<times> gerror option) outcome \<times> 's" where
  "max_loop [] c best hit merr s = (Ok (best, hit, merr), s)"
| "max_loop (v # vs) c best hit merr s =
     (case v c s of
        (Ok ans, s1) \<Rightarrow>
          if best < ans then max_loop vs c ans True merr s1 else max_loop vs c best hit merr s1
      | (Err e, s1) \<Rightarrow> max_loop vs c best hit (multierr_Append merr e) s1
      | (Panic m, s1) \<Rightarrow> (Panic m, s1))"

definition MaxOracle :: "('s, 'a::{linorder,zero}) Oracle list \<Rightarrow> ('s, 'a) Oracle" where
  "MaxOracle oracles c s =
     (case max_loop oracles c 0 False None s of
        (Ok (best, hit, merr), s1) \<Rightarrow> if \<not> hit then (zero_or_error merr, s1) else (Ok best, s1)
      | (Err e, s1) \<Rightarrow> (Err e, s1)
      | (Panic m, s1) \<Rightarrow> (Panic m, s1))"

definition MedianOracle :: "('s, 'a::{linorder,zero}) Oracle list \<Rightarrow> ('s, 'a) Oracle" where
  "MedianOracle oracles c s =
     (case poll oracles c [] None s of
        (Ok (responses, merr), s1) \<Rightarrow>
          if responses = [] then (zero_or_error merr, s1)
          else (Ok (sort responses ! (length responses div 2)), s1)
      | (Err e, s1) \<Rightarrow> (Err e, s1)
      | (Panic m, s1) \<Rightarrow> (Panic m, s1))"

section \<open>Oracles around one other oracle\<close>

definition TimeoutOracle :: "('s \<Rightarrow> int) \<Rightarrow> ('s, 'a) Oracle \<Rightarrow> int \<Rightarrow> ('s, 'a) Oracle" where
  "TimeoutOracle now primary timeout c s = primary (WithTimeout (now s) timeout c) s"

definition FallbackOracle :: "('s, 'a) Oracle \<Rightarrow> ('s, 'a) Oracle \<Rightarrow> ('s, 'a) Oracle" where
  "FallbackOracle primary fallback c s =
     (case primary c s of
        (Ok res, s1) \<Rightarrow> (Ok res, s1)
      | (Err err1, s1) \<Rightarrow>
          (case fallback c s1 of
             (Ok res, s2) \<Rightarrow> (Ok res, s2)
           | (Err e, s2) \<Rightarrow> (Err (the (multierr_Append (Some err1) e)), s2)
           | (Panic m, s2) \<Rightarrow> (Panic m, s2))
      | (Panic m, s1) \<Rightarrow> (Panic m, s1))"

text \<open>\<open>MutexOracle\<close> with the cell of its lock: \<open>None\<close> while the lock is held. It is released after a panic too.\<close>

definition MutexOracle :: "('s, bool) cell \<Rightarrow> ('s, 'a) Oracle \<Rightarrow> ctx \<Rightarrow> 's \<Rightarrow> ('a outcome \<times> 's) option" where
  "MutexOracle mu primary c s =
     (if rd mu s then None
      else case primary c (wr mu True s) of (res, s1) \<Rightarrow> Some (res, wr mu False s1))"

text \<open>\<open>flight\<close> is \<open>singleflight.Group.Do\<close>, which runs the function or joins a run in progress.\<close>

definition SingleFlightOracle :: "(string \<Rightarrow> ('s \<Rightarrow> 'a outcome \<times> 's) \<Rightarrow> 's \<Rightarrow> 'a outcome \<times> 's) \<Rightarrow> ('s, 'a) Oracle
    \<Rightarrow> ('s, 'a) Oracle" where
  "SingleFlightOracle flight primary c s = flight [] (primary c) s"

record 'a Ttl =
  ttl_expireTime :: int
  ttl_lastValue :: 'a

definition TtlOracle_zero :: "'a::zero Ttl" where
  "TtlOracle_zero = \<lparr>ttl_expireTime = time_zero, ttl_lastValue = 0\<rparr>"

definition TtlOracle :: "('s, 'a Ttl) cell \<Rightarrow> ('s \<Rightarrow> int) \<Rightarrow> ('s, 'a) Oracle \<Rightarrow> int \<Rightarrow> ('s, 'a) Oracle" where
  "TtlOracle c now primary ttl x s =
     (if 0 < time_Sub (ttl_expireTime (rd c s)) (now s) then (Ok (ttl_lastValue (rd c s)), s)
      else
        (case primary x s of
           (Ok res, s1) \<Rightarrow> (Ok res, wr c \<lparr>ttl_expireTime = now s1 + ttl, ttl_lastValue = res\<rparr> s1)
         | (Err e, s1) \<Rightarrow> (Err e, upd c (\<lambda>t. t\<lparr>ttl_expireTime := time_zero\<rparr>) s1)
         | (Panic m, s1) \<Rightarrow> (Panic m, s1)))"

section \<open>The HTTP oracle (lib/oracles/helpers.go, lib/oracles/blockoracle)\<close>

text \<open>
  \<open>do\<close> is \<open>http.DefaultClient.Do\<close> followed by reading the body as one JSON document. A body that
  is not an object does not decode into a map.
\<close>

definition HttpJsonMap :: "(string \<Rightarrow> ctx \<Rightarrow> 's \<Rightarrow> json outcome \<times> 's) \<Rightarrow> string \<Rightarrow> ctx \<Rightarrow> 's \<Rightarrow> json outcome \<times> 's" where
  "HttpJsonMap do url c s =
     (case do url c s of
        (Ok (JObj fs), s1) \<Rightarrow> (Ok (JObj fs), s1)
      | (Ok JNull, s1) \<Rightarrow> (Ok JNull, s1)
      | (Ok _, s1) \<Rightarrow> (Err (ErrorText ''json: cannot unmarshal into Go value of type map[string]interface {}''), s1)
      | (Err e, s1) \<Rightarrow> (Err e, s1)
      | (Panic m, s1) \<Rightarrow> (Panic m, s1))"

text \<open>The variables of a CEL program: two times and, when it has been set, the body.\<close>

record cel_vars =
  cv_unix_ms :: int
  cv_unix :: int
  cv_body :: "json option"

text \<open>A CEL value: an integer, a value of integer type that does not hold an \<open>int64\<close>, or another type.\<close>

datatype cel_value = CelInt int | CelIntOdd | CelOther string

definition CompileCel :: "(string \<Rightarrow> 'p outcome) \<Rightarrow> int \<Rightarrow> string \<Rightarrow> ('p \<times> cel_vars) outcome" where
  "CompileCel compile now celExpr =
     outcome_bind (compile celExpr) (\<lambda>prg.
       Ok (prg, \<lparr>cv_unix_ms = now div Millisecond, cv_unix = now div Second, cv_body = None\<rparr>))"

definition HttpJsonOracle :: "(string \<Rightarrow> 'p outcome) \<Rightarrow> (string \<Rightarrow> string outcome) \<Rightarrow> (string \<Rightarrow> ctx \<Rightarrow> 's \<Rightarrow> json outcome \<times> 's)
    \<Rightarrow> ('p \<Rightarrow> ctx \<Rightarrow> cel_vars \<Rightarrow> cel_value outcome) \<Rightarrow> int \<Rightarrow> string \<Rightarrow> string \<Rightarrow> ('s, int) Oracle outcome" where
  "HttpJsonOracle compile parse do eval now urlString celExpr =
     outcome_bind (CompileCel compile now celExpr) (\<lambda>(prg, evalCtx).
     outcome_bind (parse urlString) (\<lambda>url.
       Ok (\<lambda>c s.
         (case HttpJsonMap do url c s of
            (Ok res, s1) \<Rightarrow>
              ((case eval prg c (evalCtx\<lparr>cv_body := Some res\<rparr>) of
                  Ok (CelInt v) \<Rightarrow> Ok v
                | Ok CelIntOdd \<Rightarrow> Err (ErrorText ''expected go type int64'')
                | Ok (CelOther ty) \<Rightarrow> Err (ErrorText (''cel return type '' @ ty @ '', want int''))
                | Err e \<Rightarrow> Err e
                | Panic m \<Rightarrow> Panic m), s1)
          | (Err e, s1) \<Rightarrow> (Err e, s1)
          | (Panic m, s1) \<Rightarrow> (Panic m, s1)))))"

section \<open>Lemmas\<close>

lemma poll_append:
  "poll vs c rs merr s =
     (case poll vs c [] merr s of
        (Ok (xs, me), s1) \<Rightarrow> (Ok (rs @ xs, me), s1)
      | (Err e, s1) \<Rightarrow> (Err e, s1)
      | (Panic m, s1) \<Rightarrow> (Panic m, s1))"
proof (induction vs arbitrary: rs merr s)
  case (Cons v vs)
  have IH: "poll vs c (rs @ [a]) merr s1 =
      (case poll vs c [a] merr s1 of (Ok (xs, me), s2) \<Rightarrow> (Ok (rs @ xs, me), s2) | (Err e, s2) \<Rightarrow> (Err e, s2) | (Panic m, s2) \<Rightarrow> (Panic m, s2))"
    for a merr s1
    using Cons.IH [of "rs @ [a]" merr s1] Cons.IH [of "[a]" merr s1] by (auto split: prod.splits outcome.splits)
  show ?case
    using Cons.IH [of rs] IH by (simp split: prod.splits outcome.splits)
qed simp

lemma poll_no_Err: "poll vs c rs merr s \<noteq> (Err e, s')"
  by (induction vs arbitrary: rs merr s) (auto split: prod.splits outcome.splits)

lemma best_of_Max: "best_of xs b = Max (insert b (set xs))"
proof -
  have "best_of xs b = fold max xs b"
    by (induction xs arbitrary: b) (auto simp: max_def not_less order.order_iff_strict)
  then show ?thesis by (simp add: Max.set_eq_fold [symmetric])
qed

lemma best_of_ge: "b \<le> best_of xs b"
  by (simp add: best_of_Max)

text \<open>
  Through the lock the answers are those of the oracle itself, one report after the other, and the
  lock is free again after each; an oracle that asks through its own lock never answers.
\<close>

lemma mutex_oracle_transparent:
  assumes "mem_cell mu" and "\<not> rd mu s" and "primary c (wr mu True s) = (res, wr mu True s1)"
  shows "MutexOracle mu primary c s = Some (res, wr mu False s1) \<and> \<not> rd mu (wr mu False s1)"
  using assms by (simp add: MutexOracle_def mem_cell.rd_wr mem_cell.wr_wr)

lemma mutex_oracle_not_reentrant: "mem_cell mu \<Longrightarrow> MutexOracle mu primary c (wr mu True s) = None"
  by (simp add: MutexOracle_def mem_cell.rd_wr)

text \<open>\<open>MaxOracle\<close> is the same poll with the loop over the responses fused into it.\<close>

lemma max_loop_poll:
  "max_loop vs c best hit merr s =
     (case poll vs c [] merr s of
        (Ok (xs, me), s1) \<Rightarrow> (Ok (best_of xs best, hit \<or> best < best_of xs best, me), s1)
      | (Err e, s1) \<Rightarrow> (Err e, s1)
      | (Panic m, s1) \<Rightarrow> (Panic m, s1))"
proof (induction vs arbitrary: best hit merr s)
  case (Cons v vs)
  show ?case
    using Cons.IH poll_append [of vs c "[_]"]
    by (auto split: prod.splits outcome.splits intro: less_le_trans [OF _ best_of_ge])
qed simp

text \<open>How many elements of a sorted list lie below or above the one at an index.\<close>

lemma sorted_below:
  assumes "sorted xs" and "k < length xs" and "xs ! k < lo"
  shows "k < length (filter (\<lambda>x. x < lo) xs)"
proof -
  have "xs ! i < lo" if "i < Suc k" for i
    using sorted_nth_mono [OF assms(1), of i k] that assms(2,3) by (simp add: less_Suc_eq_le)
  then have "\<forall>x \<in> set (take (Suc k) xs). x < lo" by (auto simp: in_set_conv_nth)
  then have "filter (\<lambda>x. x < lo) (take (Suc k) xs) = take (Suc k) xs" by simp
  moreover have "length (filter (\<lambda>x. x < lo) (take (Suc k) xs)) \<le> length (filter (\<lambda>x. x < lo) xs)"
    by (metis append_take_drop_id filter_append le_add1 length_append)
  ultimately show ?thesis using assms(2) by simp
qed

lemma sorted_above:
  assumes "sorted xs" and "k < length xs" and "hi < xs ! k"
  shows "length xs - k \<le> length (filter (\<lambda>x. hi < x) xs)"
proof -
  have "hi < x" if x: "x \<in> set (drop k xs)" for x
  proof -
    obtain i where i: "i < length xs - k" "x = xs ! (k + i)" using x assms(2) by (auto simp: in_set_conv_nth)
    then show ?thesis using assms sorted_nth_mono [OF assms(1), of k "k + i"] by (auto intro: less_le_trans)
  qed
  then have "filter (\<lambda>x. hi < x) (drop k xs) = drop k xs" by simp
  moreover have "length (filter (\<lambda>x. hi < x) (drop k xs)) \<le> length (filter (\<lambda>x. hi < x) xs)"
    by (metis append_take_drop_id filter_append le_add2 length_append)
  ultimately show ?thesis by simp
qed

lemma length_filter_sort: "length (filter P (sort xs)) = length (filter P xs)"
  by (metis filter_sort length_sort)

lemma length_filter_disjoint:
  "(\<And>x. P x \<Longrightarrow> \<not> Q x) \<Longrightarrow> length (filter P xs) + length (filter Q xs) \<le> length xs"
  by (induction xs) (auto simp: Suc_le_eq)

text \<open>The element at the middle of the sorted list lies where most of the list lies.\<close>

lemma median_in_majority:
  assumes "length xs < 2 * length (filter (\<lambda>x. lo \<le> x \<and> x \<le> hi) xs)"
  shows "lo \<le> sort xs ! (length xs div 2) \<and> sort xs ! (length xs div 2) \<le> hi"
proof -
  let ?k = "length xs div 2" and ?ys = "sort xs" and ?in = "\<lambda>x. lo \<le> x \<and> x \<le> hi"
  have k: "?k < length ?ys" using assms by (cases xs) auto
  have "length (filter ?in xs) + length (filter (\<lambda>x. x < lo) xs) \<le> length xs"
    by (rule length_filter_disjoint) auto
  then have "\<not> ?ys ! ?k < lo"
    using sorted_below [OF _ k, of lo] assms by (auto simp: length_filter_sort)
  moreover have "length (filter ?in xs) + length (filter (\<lambda>x. hi < x) xs) \<le> length xs"
    by (rule length_filter_disjoint) auto
  then have "\<not> hi < ?ys ! ?k"
    using sorted_above [OF _ k, of hi] assms by (auto simp: length_filter_sort)
  ultimately show ?thesis by (simp add: not_less)
qed

text \<open>After trimming, the largest element is the one before the last of the sorted list.\<close>

lemma trim_bound:
  assumes "5 \<le> length xs" and "length (filter (\<lambda>x. hi < x) xs) \<le> 1" and "y \<in> set (trim (sort xs))"
  shows "y \<le> hi"
proof -
  obtain i where i: "i < length xs - 2" "y = sort xs ! Suc i"
    using assms(1,3) by (auto simp: trim_def in_set_conv_nth numeral_2_eq_2)
  then have j: "Suc i < length (sort xs)" by simp
  then have "\<not> hi < sort xs ! Suc i"
    using sorted_above [OF _ j, of hi] i(1) assms(2) by (auto simp: length_filter_sort)
  then show ?thesis using i by simp
qed

section \<open>Properties\<close>

text \<open>
  C26: The median of the answers is trustworthy as long as more than half of them are: when most of
  the answers lie in an interval, \<open>MedianOracle\<close> reports a value of that interval, whatever the
  other oracles answer and whichever of them fail.
\<close>

theorem median_follows_majority:
  assumes "poll oracles c [] None s = (Ok (rs, merr), s')"
    and "length rs < 2 * length (filter (\<lambda>x. lo \<le> x \<and> x \<le> hi) rs)"
  shows "\<exists>m. MedianOracle oracles c s = (Ok m, s') \<and> lo \<le> m \<and> m \<le> hi"
  using assms median_in_majority [OF assms(2)] by (auto simp: MedianOracle_def)

definition demo_oracles :: "(unit, int) Oracle list" where
  "demo_oracles = map (\<lambda>x _ s. (x, s)) [Ok 10, Err (ErrorText ''down''), Ok 900, Ok 11]"

theorem median_follows_majority_witness:
  "\<exists>m. MedianOracle demo_oracles Background () = (Ok m, ()) \<and> 10 \<le> m \<and> m \<le> 11"
  by (rule median_follows_majority [of _ _ _ "[10, 900, 11]"]) (simp_all add: demo_oracles_def)

text \<open>
  With at least five answers \<open>MaxTrimOracle\<close> is immune to a single oracle that reports too
  much: when at most one answer exceeds a bound, the result does not exceed it.
\<close>

theorem max_trim_ignores_outlier:
  assumes "poll oracles c [] None s = (Ok (rs, merr), s')"
    and "5 \<le> length rs" and "length (filter (\<lambda>x. hi < x) rs) \<le> 1" and "0 \<le> hi"
  shows "\<exists>m. MaxTrimOracle oracles c s = (Ok m, s') \<and> m \<le> hi"
proof -
  have "rs \<noteq> []" using assms(2) by auto
  moreover have "best_of (trim (sort rs)) 0 \<le> hi"
    using trim_bound [OF assms(2,3)] assms(4) by (auto simp: best_of_Max)
  ultimately show ?thesis using assms(1) by (simp add: MaxTrimOracle_def)
qed

theorem max_trim_ignores_outlier_witness:
  "\<exists>m. MaxTrimOracle (map (\<lambda>x _ s. (Ok x, s)) [10, 12, 900, 11, (12 :: int)]) Background () = (Ok m, ()) \<and> m \<le> 12"
  by (rule max_trim_ignores_outlier [of _ _ _ "[10, 12, 900, 11, 12]"]) simp_all

end
