(* ===== verification/Venn_Stalker.thy ===== *)
theory Venn_Stalker
  imports Venn_Headstore Venn_Chainblock
begin

text \<open>
  The stalker (\<open>svc/node/atoms/stalker\<close>), which asks the remotes of a chain for the latest block,
  writes its number to the head store and decides how long to wait before it asks again, and the
  tracker of the mean propagation delay it keeps per chain. The clock, the head store and the
  cluster are arguments; durations are nanoseconds.
\<close>

section \<open>The delay tracker (delay.go)\<close>

record delayTracker =
  dt_size :: int
  dt_pos :: int
  dt_mean :: int
  dt_nums :: "int list"
  dt_min :: int
  dt_max :: int

definition newDelayTracker :: "int \<Rightarrow> int \<Rightarrow> int \<Rightarrow> delayTracker" where
  "newDelayTracker sz mn mx = \<lparr>dt_size = sz, dt_pos = 0, dt_mean = 0, dt_nums = [], dt_min = mn, dt_max = mx\<rparr>"

definition clamp :: "int \<Rightarrow> int \<Rightarrow> int \<Rightarrow> int" where
  "clamp mn mx d = (if d \<le> mn then mn else if mx \<le> d then mx else d)"

definition delayTracker_Add :: "int \<Rightarrow> delayTracker \<Rightarrow> delayTracker outcome" where
  "delayTracker_Add d0 t =
     (let d = clamp (dt_min t) (dt_max t) d0; n = int (length (dt_nums t)) in
      if n < dt_size t then
        Ok (t\<lparr>dt_mean := godiv (wrap64 (wrap64 (dt_mean t * n) + d)) (n + 1), dt_nums := dt_nums t @ [d], dt_pos := n + 1\<rparr>)
      else
        let pos1 = wrap64 (dt_pos t + 1); pos = (if dt_size t \<le> pos1 then 0 else pos1) in
        if \<not> (0 \<le> pos \<and> pos < n) then Panic ''index out of range''
        else if dt_size t = 0 then Panic ''integer divide by zero''
        else
          let old = dt_nums t ! nat pos in
          Ok (t\<lparr>dt_pos := pos, dt_nums := (dt_nums t)[nat pos := d],
                dt_mean := godiv (wrap64 (wrap64 (wrap64 (dt_mean t * dt_size t) - old) + d)) (dt_size t)\<rparr>))"

definition delayTracker_Mean :: "delayTracker \<Rightarrow> int" where
  "delayTracker_Mean t = dt_mean t"

section \<open>One tick (stalker.go)\<close>

definition stalk_blockTime :: "Chain \<Rightarrow> int" where
  "stalk_blockTime chain = max (seconds_to_duration (ch_BlockTimeSeconds chain)) (500 * Millisecond)"

text \<open>The trackers that \<open>New\<close> makes, one per configured chain.\<close>

definition stalker_trackers :: "Chain list \<Rightarrow> string \<rightharpoonup> delayTracker" where
  "stalker_trackers chs =
     map_of (rev (map (\<lambda>chain. (ch_Name chain, newDelayTracker 128 0 (seconds_to_duration (ch_BlockTimeSeconds chain)))) chs))"

text \<open>The number and the timestamp of the block, with absent fields zero.\<close>

definition dec_stalk_head :: "codec \<Rightarrow> json \<Rightarrow> (u64 \<times> u64) outcome" where
  "dec_stalk_head cdc block =
     outcome_bind (dec_number_field cdc ''number'' block) (\<lambda>n.
     outcome_bind (dec_number_field cdc ''timestamp'' block) (\<lambda>t. Ok (n, t)))"

text \<open>A new block: record the propagation delay and wait for the next one.\<close>

definition tick_new :: "int \<Rightarrow> int \<Rightarrow> int \<Rightarrow> delayTracker \<Rightarrow> (int \<times> delayTracker) outcome" where
  "tick_new blockTime nextTime now dt =
     (let propDelay = time_Sub nextTime now in
      outcome_bind (if 0 < propDelay then delayTracker_Add propDelay dt else Ok dt) (\<lambda>dt1.
        let nextWait = max (max (min (time_Sub nextTime now) blockTime) (500 * Millisecond)) (godiv blockTime 2);
            meanPropDelay = delayTracker_Mean dt1 in
        Ok (if 0 < wrap64 (meanPropDelay - 250 * Millisecond)
            then wrap64 (nextWait + godiv (wrap64 (meanPropDelay * 9)) 10) else nextWait, dt1)))"

text \<open>A block that was already known: it was asked for too early, or it is late.\<close>

definition tick_stale :: "int \<Rightarrow> int \<Rightarrow> int \<Rightarrow> int" where
  "tick_stale blockTime nextTime now =
     (if now < nextTime then min (max (time_Sub nextTime now) (500 * Millisecond)) blockTime
      else max (500 * Millisecond) (godiv blockTime 4))"

definition Stalker_tick :: "codec \<Rightarrow> ('s, string \<rightharpoonup> delayTracker) cell \<Rightarrow> ('s \<Rightarrow> int) \<Rightarrow> (string \<Rightarrow> u64 \<Rightarrow> 's \<Rightarrow> u64 outcome \<times> 's)
    \<Rightarrow> ctx \<Rightarrow> Chain \<Rightarrow> 's handler \<Rightarrow> 's \<Rightarrow> (int \<times> gerror option) outcome \<times> 's" where
  "Stalker_tick cdc dts now put ctx chain cluster s =
     (let blockTime = stalk_blockTime chain in
      case Do cdc ctx cluster ''eth_getBlockByNumber'' (JArr [JStr ''latest'', JBool False]) s of
        (Panic m, s1) \<Rightarrow> (Panic m, s1)
      | (Err e, s1) \<Rightarrow> (Ok (blockTime, Some (Wrapped (''get latest block: '' @ error_text e) e)), s1)
      | (Ok block, s1) \<Rightarrow>
          if block = JNull then (Ok (blockTime, None), s1)
          else
            (case dec_stalk_head cdc block of
               Panic m \<Rightarrow> (Panic m, s1)
             | Err e \<Rightarrow> (Ok (blockTime, Some e), s1)
             | Ok (number, timestamp) \<Rightarrow>
                 let nextTime = time_Unix timestamp + blockTime in
                 (case put (ch_Name chain) number s1 of
                    (Panic m, s2) \<Rightarrow> (Panic m, s2)
                  | (Err e, s2) \<Rightarrow> (Ok (blockTime, Some e), s2)
                  | (Ok prev, s2) \<Rightarrow>
                      if prev \<noteq> number then
                        (case rd dts s2 (ch_Name chain) of
                           None \<Rightarrow> (Panic ''nil pointer dereference'', s2)
                         | Some dt \<Rightarrow>
                             (case tick_new blockTime nextTime (now s1) dt of
                                Ok (w, dt1) \<Rightarrow> (Ok (w, None), wr dts ((rd dts s2)(ch_Name chain \<mapsto> dt1)) s2)
                              | Err e \<Rightarrow> (Ok (blockTime, Some e), s2)
                              | Panic m \<Rightarrow> (Panic m, s2)))
                      else (Ok (tick_stale blockTime nextTime (now s1), None), s2))))"

text \<open>
  The loop of one chain: tick, then wait, until the context ends. \<open>elapse w\<close> is the state after
  \<open>w\<close> nanoseconds, or \<open>None\<close> when the context ended meanwhile. The loop has no end of its own, so
  it runs on fuel and the result lists the waits.
\<close>

fun Stalker_stalk :: "nat \<Rightarrow> ('s \<Rightarrow> (int \<times> gerror option) outcome \<times> 's) \<Rightarrow> ('s \<Rightarrow> bool) \<Rightarrow> (int \<Rightarrow> 's \<Rightarrow> 's option)
    \<Rightarrow> 's \<Rightarrow> int list \<times> 's" where
  "Stalker_stalk 0 tick ended elapse s = ([], s)"
| "Stalker_stalk (Suc n) tick ended elapse s =
     (case tick s of
        (Ok (w, e), s1) \<Rightarrow>
          if e \<noteq> None \<and> ended s1 then ([w], s1)
          else
            (case elapse w s1 of
               None \<Rightarrow> ([w], s1)
             | Some s2 \<Rightarrow> (case Stalker_stalk n tick ended elapse s2 of (ws, s3) \<Rightarrow> (w # ws, s3)))
      | (_, s1) \<Rightarrow> ([], s1))"

text \<open>
  What the elected leader starts a loop for: the chains that are to be stalked and that have a
  cluster, in the order of the configuration.
\<close>

fun stalked_chains :: "Chain list \<Rightarrow> (string \<rightharpoonup> 'c) \<Rightarrow> (Chain \<times> 'c) list" where
  "stalked_chains [] remotes = []"
| "stalked_chains (chain # chs) remotes =
     (if \<not> ch_ParsedStalk chain then stalked_chains chs remotes
      else
        (case remotes (ch_Name chain) of
           None \<Rightarrow> stalked_chains chs remotes
         | Some cluster \<Rightarrow> (chain, cluster) # stalked_chains chs remotes))"

section \<open>Lemmas on the tracker\<close>

text \<open>
  The samples stay in their range, and the mean never exceeds the true mean of the samples; it
  may fall behind it by at most the largest sample. The bound on the size keeps the products in
  the range of \<open>int\<close>.
\<close>

definition delay_inv :: "delayTracker \<Rightarrow> bool" where
  "delay_inv t \<longleftrightarrow> 0 < dt_size t \<and> 0 \<le> dt_min t \<and> dt_min t \<le> dt_max t \<and> 2 * (dt_size t + 1) * (dt_max t + 1) < 2 ^ 62 \<and>
     int (length (dt_nums t)) \<le> dt_size t \<and> 0 \<le> dt_pos t \<and> dt_pos t \<le> dt_size t \<and>
     (\<forall>x \<in> set (dt_nums t). dt_min t \<le> x \<and> x \<le> dt_max t) \<and>
     dt_mean t * int (length (dt_nums t)) \<le> sum_list (dt_nums t) \<and>
     sum_list (dt_nums t) \<le> (dt_mean t + dt_max t) * int (length (dt_nums t)) \<and>
     (int (length (dt_nums t)) < dt_size t \<longrightarrow> 0 \<le> dt_mean t) \<and> (dt_nums t = [] \<longrightarrow> dt_mean t = 0)"

lemma godiv_mult_nonneg: "0 \<le> a \<Longrightarrow> 0 < b \<Longrightarrow> godiv a b * b \<le> a \<and> 0 \<le> godiv a b"
  by (simp add: godiv_pos pos_imp_zdiv_nonneg_iff minus_mod_eq_div_mult [symmetric])

lemma godiv_mult_neg: "a < 0 \<Longrightarrow> 0 < b \<Longrightarrow> a \<le> godiv a b * b \<and> godiv a b \<le> 0"
proof -
  assume a: "a < 0" and b: "0 < b"
  have "godiv a b = - godiv (- a) b" using a b by (simp add: godiv_def sgn_if)
  then show ?thesis using godiv_mult_nonneg [of "- a" b] a b by simp
qed

lemma clamp_range: "mn \<le> mx \<Longrightarrow> mn \<le> clamp mn mx d \<and> clamp mn mx d \<le> mx"
  by (simp add: clamp_def)

lemma sum_list_bounds:
  "(\<And>x. x \<in> set xs \<Longrightarrow> lo \<le> x \<and> x \<le> (hi :: int)) \<Longrightarrow> lo * int (length xs) \<le> sum_list xs \<and> sum_list xs \<le> hi * int (length xs)"
  by (induction xs) (auto simp: algebra_simps add_mono)

lemma sum_list_replace: "k < length xs \<Longrightarrow> sum_list (xs[k := x]) = sum_list xs + (x - xs ! k)" for x :: int
proof (induction xs arbitrary: k)
  case (Cons y ys)
  then show ?case by (cases k) auto
qed simp

lemma delay_mean_bounds:
  assumes "delay_inv t"
  shows "- dt_max t \<le> dt_mean t \<and> dt_mean t \<le> dt_max t"
proof (cases "dt_nums t = []")
  case True
  then show ?thesis using assms by (simp add: delay_inv_def)
next
  case False
  let ?n = "int (length (dt_nums t))"
  have n: "0 < ?n" using False by simp
  have sum: "0 * ?n \<le> sum_list (dt_nums t) \<and> sum_list (dt_nums t) \<le> dt_max t * ?n"
    by (rule sum_list_bounds) (use assms in \<open>auto simp: delay_inv_def\<close>)
  then have "dt_mean t * ?n \<le> dt_max t * ?n" "0 \<le> (dt_mean t + dt_max t) * ?n"
    using assms by (auto simp: delay_inv_def)
  then show ?thesis using n by (simp add: zero_le_mult_iff)
qed

text \<open>Replacing one sample: truncation loses part of the mean, but never more than the largest sample.\<close>

lemma mean_step:
  fixes m :: int
  assumes "0 < n" and "m * n \<le> S" and "S \<le> (m + mx) * n" and "0 \<le> S + e" and "S + e \<le> mx * n"
  shows "godiv (m * n + e) n * n \<le> S + e \<and> S + e \<le> (godiv (m * n + e) n + mx) * n"
proof (cases "0 \<le> m * n + e")
  case True
  have "godiv (m * n + e) n * n \<le> m * n + e" and q: "0 \<le> godiv (m * n + e) n"
    using godiv_mult_nonneg [OF True assms(1)] by auto
  moreover have "0 \<le> godiv (m * n + e) n * n" using q assms(1) by simp
  ultimately show ?thesis using assms(2,5) by (simp add: distrib_right)
next
  case False
  then have "m * n + e \<le> godiv (m * n + e) n * n" and q: "godiv (m * n + e) n \<le> 0"
    using godiv_mult_neg [of "m * n + e" n] assms(1) by auto
  moreover have "godiv (m * n + e) n * n \<le> 0" using q assms(1) by (simp add: mult_nonpos_nonneg)
  ultimately show ?thesis using assms(3,4) by (simp add: distrib_right)
qed

lemma small_products:
  fixes m :: int
  assumes "- mx \<le> m" and "m \<le> mx" and "0 \<le> n" and "n \<le> sz" and "0 \<le> mx" and "2 * (sz + 1) * (mx + 1) < 2 ^ 62"
  shows "\<bar>m * n\<bar> + 2 * mx < 2 ^ 62"
proof -
  have "\<bar>m * n\<bar> \<le> mx * sz" using assms by (simp add: abs_mult mult_mono abs_le_iff)
  moreover have "mx * sz + 2 * mx \<le> 2 * (sz + 1) * (mx + 1)" using assms by (simp add: algebra_simps)
  ultimately show ?thesis using assms(6) by linarith
qed

lemma no_wrap:
  assumes "\<bar>a\<bar> + 2 * mx < 2 ^ 62" and "0 \<le> x" and "x \<le> mx" and "0 \<le> y" and "y \<le> mx"
  shows "wrap64 (wrap64 a + y) = a + y" and "wrap64 (wrap64 (wrap64 a - x) + y) = a + (y - x)"
proof -
  have "in_i64 a" "in_i64 (a + y)" "in_i64 (a - x)" "in_i64 (a - x + y)"
    using assms by (auto simp: in_i64_def)
  then show "wrap64 (wrap64 a + y) = a + y" "wrap64 (wrap64 (wrap64 a - x) + y) = a + (y - x)"
    by simp_all
qed

lemma delay_add_append:
  assumes "delay_inv t" and "int (length (dt_nums t)) < dt_size t"
  shows "\<exists>t'. delayTracker_Add d t = Ok t' \<and> delay_inv t' \<and> dt_min t' = dt_min t \<and> dt_max t' = dt_max t \<and> dt_size t' = dt_size t"
proof -
  let ?n = "int (length (dt_nums t))" and ?d = "clamp (dt_min t) (dt_max t) d"
  have d: "0 \<le> ?d" "dt_min t \<le> ?d" "?d \<le> dt_max t"
    using assms(1) clamp_range [of "dt_min t" "dt_max t" d] by (auto simp: delay_inv_def)
  have mean: "0 \<le> dt_mean t" "dt_mean t \<le> dt_max t"
    using assms delay_mean_bounds [OF assms(1)] by (auto simp: delay_inv_def)
  have small: "\<bar>dt_mean t * ?n\<bar> + 2 * dt_max t < 2 ^ 62"
    using assms mean by (intro small_products [of "dt_max t" "dt_mean t" ?n "dt_size t"]) (auto simp: delay_inv_def)
  have w: "wrap64 (wrap64 (dt_mean t * ?n) + ?d) = dt_mean t * ?n + ?d"
    by (rule no_wrap(1) [OF small d(1,3) d(1,3)])
  let ?m = "godiv (dt_mean t * ?n + ?d) (?n + 1)"
  have q: "?m * (?n + 1) \<le> dt_mean t * ?n + ?d \<and> 0 \<le> ?m"
    using mean d by (intro godiv_mult_nonneg) auto
  have "0 * ?n \<le> sum_list (dt_nums t) \<and> sum_list (dt_nums t) \<le> dt_max t * ?n"
    by (rule sum_list_bounds) (use assms in \<open>auto simp: delay_inv_def\<close>)
  moreover have "0 \<le> ?m * (?n + 1)" using q by simp
  ultimately have "sum_list (dt_nums t) + ?d \<le> (?m + dt_max t) * (?n + 1)"
    using d by (simp add: algebra_simps)
  then show ?thesis
    using assms q d w by (auto simp: delayTracker_Add_def Let_def delay_inv_def algebra_simps)
qed

lemma delay_add_replace:
  assumes "delay_inv t" and "int (length (dt_nums t)) = dt_size t"
  shows "\<exists>t'. delayTracker_Add d t = Ok t' \<and> delay_inv t' \<and> dt_min t' = dt_min t \<and> dt_max t' = dt_max t \<and> dt_size t' = dt_size t"
proof -
  let ?n = "dt_size t" and ?d = "clamp (dt_min t) (dt_max t) d" and ?S = "sum_list (dt_nums t)"
  define pos where "pos = (if dt_size t \<le> dt_pos t + 1 then 0 else dt_pos t + 1)"
  let ?old = "dt_nums t ! nat pos" and ?xs = "(dt_nums t)[nat pos := ?d]"
  have small: "\<bar>dt_mean t * ?n\<bar> + 2 * dt_max t < 2 ^ 62"
    using assms delay_mean_bounds [OF assms(1)]
    by (intro small_products [of "dt_max t" "dt_mean t" ?n "dt_size t"]) (auto simp: delay_inv_def)
  have "dt_size t \<le> 2 * (dt_size t + 1) * (dt_max t + 1)"
    using assms(1) by (simp add: delay_inv_def algebra_simps)
  then have sz: "dt_size t < 2 ^ 62" using assms(1) unfolding delay_inv_def by linarith
  then have wpos: "wrap64 (dt_pos t + 1) = dt_pos t + 1"
    using assms(1) by (simp add: in_i64_def delay_inv_def)
  have pos: "0 \<le> pos" "pos < ?n" "nat pos < length (dt_nums t)"
    using assms by (auto simp: pos_def delay_inv_def)
  have "?old \<in> set (dt_nums t)" using pos(3) by simp
  then have "dt_min t \<le> ?old \<and> ?old \<le> dt_max t" and "0 \<le> dt_min t"
    using assms(1) by (auto simp: delay_inv_def)
  then have old: "0 \<le> ?old" "?old \<le> dt_max t" by simp_all
  have d: "0 \<le> ?d" "dt_min t \<le> ?d" "?d \<le> dt_max t"
    using assms(1) clamp_range [of "dt_min t" "dt_max t" d] by (auto simp: delay_inv_def)
  have w: "wrap64 (wrap64 (wrap64 (dt_mean t * ?n) - ?old) + ?d) = dt_mean t * ?n + (?d - ?old)"
    by (rule no_wrap(2) [OF small old d(1,3)])
  have mem: "\<forall>x \<in> set ?xs. dt_min t \<le> x \<and> x \<le> dt_max t"
    using assms(1) d set_update_subset_insert [of "dt_nums t" "nat pos" ?d] by (auto simp: delay_inv_def dest: subsetD)
  have S: "sum_list ?xs = ?S + (?d - ?old)" using pos(3) by (simp add: sum_list_replace)
  have "0 * int (length ?xs) \<le> sum_list ?xs \<and> sum_list ?xs \<le> dt_max t * int (length ?xs)"
    by (rule sum_list_bounds) (use assms(1) mem in \<open>auto simp: delay_inv_def\<close>)
  then have "godiv (dt_mean t * ?n + (?d - ?old)) ?n * ?n \<le> ?S + (?d - ?old) \<and>
      ?S + (?d - ?old) \<le> (godiv (dt_mean t * ?n + (?d - ?old)) ?n + dt_max t) * ?n"
    using assms S by (intro mean_step) (auto simp: delay_inv_def)
  moreover have "delayTracker_Add d t = Ok (t\<lparr>dt_pos := pos, dt_nums := ?xs, dt_mean := godiv (dt_mean t * ?n + (?d - ?old)) ?n\<rparr>)"
    using assms pos w wpos by (simp add: delayTracker_Add_def Let_def delay_inv_def pos_def)
  ultimately show ?thesis
    using assms S pos mem by (auto simp: delay_inv_def)
qed

lemma delay_add_inv:
  assumes "delay_inv t"
  shows "\<exists>t'. delayTracker_Add d t = Ok t' \<and> delay_inv t' \<and> dt_min t' = dt_min t \<and> dt_max t' = dt_max t \<and> dt_size t' = dt_size t"
  using assms delay_add_append [OF assms, of d] delay_add_replace [OF assms, of d]
  by (cases "int (length (dt_nums t)) < dt_size t") (auto simp: delay_inv_def)

lemma new_delay_inv: "0 \<le> mx \<Longrightarrow> 2 * (sz + 1) * (mx + 1) < 2 ^ 62 \<Longrightarrow> 0 < sz \<Longrightarrow> delay_inv (newDelayTracker sz 0 mx)"
  by (simp add: delay_inv_def newDelayTracker_def)

text \<open>
  The mean drifts: replacing a sample by one that is slightly larger leaves the mean as it is,
  replacing it by one that is smaller by one lowers the mean by one. A delay that alternates
  between two values one nanosecond apart thus lowers the mean without bound, below every sample.
\<close>

lemma delay_mean_ratchets:
  fixes m :: int
  assumes "2 \<le> n" and "1 \<le> m"
  shows "godiv (m * n + 1) n = m" and "godiv (m * n - 1) n = m - 1"
proof -
  have up: "(m * n + 1) div n = m" using assms by (simp add: div_add1_eq [of "m * n"])
  have "m * n - 1 = (n - 1) + (m - 1) * n" by (simp add: algebra_simps)
  also have "\<dots> div n = m - 1" using assms by (subst div_mult_self1) simp_all
  finally have down: "(m * n - 1) div n = m - 1" .
  have ge: "n \<le> m * n" using mult_right_mono [of 1 m n] assms by simp
  show "godiv (m * n + 1) n = m"
    by (subst godiv_pos) (use assms ge up in simp_all)
  show "godiv (m * n - 1) n = m - 1"
    by (subst godiv_pos) (use assms ge down in simp_all)
qed

lemma delay_mean_leaves_range:
  "outcome_bind (outcome_bind (outcome_bind (outcome_bind (Ok (newDelayTracker 2 5 10)) (delayTracker_Add 5))
     (delayTracker_Add 6)) (delayTracker_Add 6)) (delayTracker_Add 5) =
   Ok \<lparr>dt_size = 2, dt_pos = 1, dt_mean = 4, dt_nums = [6, 5], dt_min = 5, dt_max = 10\<rparr>"
  by (simp add: newDelayTracker_def delayTracker_Add_def Let_def clamp_def in_i64_def godiv_def)

lemma map_of_rev_const:
  assumes "x \<in> set xs" and "f x = k" and "\<And>y. y \<in> set xs \<Longrightarrow> f y = k \<Longrightarrow> y = x"
  shows "map_of (rev (map (\<lambda>x. (f x, g x)) xs)) k = Some (g x)"
proof -
  let ?m = "rev (map (\<lambda>x. (f x, g x)) xs)"
  have "k \<in> fst ` set ?m" using assms(1,2) by force
  then obtain v where v: "map_of ?m k = Some v" by (metis map_of_eq_None_iff not_Some_eq)
  then have "(k, v) \<in> set ?m" by (rule map_of_SomeD)
  then show ?thesis using assms(3) v by auto
qed

section \<open>Lemmas on the tick\<close>

text \<open>The tracker of a chain is in order, and its largest sample is the block time.\<close>

definition tracker_ok :: "Chain \<Rightarrow> (string \<rightharpoonup> delayTracker) \<Rightarrow> bool" where
  "tracker_ok chain m \<longleftrightarrow>
     (\<exists>dt. m (ch_Name chain) = Some dt \<and> delay_inv dt \<and> dt_max dt = seconds_to_duration (ch_BlockTimeSeconds chain))"

definition wait_ok :: "Chain \<Rightarrow> int \<Rightarrow> bool" where
  "wait_ok chain w \<longleftrightarrow> 500 * Millisecond \<le> w \<and> w \<le> 2 * stalk_blockTime chain"

lemma stalk_blockTime_ge: "500 * Millisecond \<le> stalk_blockTime chain"
  by (simp add: stalk_blockTime_def)

lemma wait_ok_blockTime: "wait_ok chain (stalk_blockTime chain)"
  using stalk_blockTime_ge [of chain] by (simp add: wait_ok_def Millisecond_def)

lemma tick_stale_ok: "wait_ok chain (tick_stale (stalk_blockTime chain) nextTime now)"
proof -
  have "0 \<le> stalk_blockTime chain" using stalk_blockTime_ge [of chain] by (simp add: Millisecond_def)
  then have "0 \<le> godiv (stalk_blockTime chain) 4 \<and> godiv (stalk_blockTime chain) 4 \<le> stalk_blockTime chain"
    using godiv_bounds [of "stalk_blockTime chain" 4] by simp
  then show ?thesis
    using stalk_blockTime_ge [of chain] by (auto simp: wait_ok_def tick_stale_def Millisecond_def)
qed

lemma tick_new_ok:
  assumes "delay_inv dt" and "dt_max dt = seconds_to_duration (ch_BlockTimeSeconds chain)" and "stalk_blockTime chain < 2 ^ 58"
  shows "\<exists>w dt1. tick_new (stalk_blockTime chain) nextTime now dt = Ok (w, dt1) \<and> wait_ok chain w \<and>
     delay_inv dt1 \<and> dt_max dt1 = dt_max dt"
proof -
  let ?b = "stalk_blockTime chain" and ?d = "time_Sub nextTime now"
  obtain dt1 where dt1: "(if 0 < ?d then delayTracker_Add ?d dt else Ok dt) = Ok dt1" "delay_inv dt1" "dt_max dt1 = dt_max dt"
    using assms(1) delay_add_inv [OF assms(1), of ?d] by (cases "0 < ?d") auto
  define nw where "nw = max (max (min ?d ?b) (500 * Millisecond)) (godiv ?b 2)"
  let ?m = "dt_mean dt1" and ?w = nw
  have b: "500 * Millisecond \<le> ?b" "0 \<le> ?b" using stalk_blockTime_ge [of chain] by (simp_all add: Millisecond_def)
  have w: "500 * Millisecond \<le> ?w" "?w \<le> ?b" using b godiv_bounds [of ?b 2] by (auto simp: nw_def)
  have m: "- ?b \<le> ?m" "?m \<le> ?b"
    using delay_mean_bounds [OF dt1(2)] dt1(3) assms(2) by (auto simp: stalk_blockTime_def)
  have "wait_ok chain (if 0 < wrap64 (?m - 250 * Millisecond) then wrap64 (?w + godiv (wrap64 (?m * 9)) 10) else ?w)"
  proof (cases "0 < ?m - 250 * Millisecond")
    case True
    have q: "0 \<le> godiv (?m * 9) 10" "godiv (?m * 9) 10 \<le> ?m"
      using True godiv_mult_nonneg [of "?m * 9" 10] by (simp_all add: Millisecond_def)
    have "in_i64 (?m - 250 * Millisecond)" "in_i64 (?m * 9)" "in_i64 (?w + godiv (?m * 9) 10)"
      using True q w m assms(3) b by (simp_all add: in_i64_def Millisecond_def)
    then show ?thesis using True q w m by (simp add: wait_ok_def)
  next
    case False
    have "in_i64 (?m - 250 * Millisecond)" using m assms(3) False by (simp add: in_i64_def Millisecond_def)
    then show ?thesis using False w b by (simp add: wait_ok_def)
  qed
  then show ?thesis using dt1 by (auto simp: tick_new_def Let_def delayTracker_Mean_def nw_def)
qed

lemma tick_ok:
  assumes "mem_cell dts" and "keeps_cell dts cluster" and "\<And>name n s. rd dts (snd (put name n s)) = rd dts s"
    and "stalk_blockTime chain < 2 ^ 58" and "tracker_ok chain (rd dts s)"
    and "Stalker_tick cdc dts now put ctx chain cluster s = (Ok (w, e), s')"
  shows "wait_ok chain w \<and> tracker_ok chain (rd dts s')"
proof -
  obtain o1 s1 where d: "Do cdc ctx cluster ''eth_getBlockByNumber'' (JArr [JStr ''latest'', JBool False]) s = (o1, s1)"
    by fastforce
  have s1: "rd dts s1 = rd dts s"
    using Do_state [of cdc ctx cluster _ _ s] assms(2) d by (metis keeps_cell_def snd_conv)
  have put: "rd dts s2 = rd dts s" if "put name n s1 = (x, s2)" for name n x s2
    using assms(3) [of name n s1] s1 that by simp
  obtain dt where dt: "rd dts s (ch_Name chain) = Some dt" "delay_inv dt"
      "dt_max dt = seconds_to_duration (ch_BlockTimeSeconds chain)"
    using assms(5) by (auto simp: tracker_ok_def)
  have new: "wait_ok chain w1 \<and> delay_inv dt1 \<and> dt_max dt1 = dt_max dt"
    if "tick_new (stalk_blockTime chain) nextTime n dt = Ok (w1, dt1)" for nextTime n w1 dt1
    using tick_new_ok [OF dt(2,3) assms(4), of nextTime n] that by auto
  show ?thesis
    using assms(5,6) d s1 put new dt wait_ok_blockTime [of chain] tick_stale_ok [of chain] mem_cell.rd_wr [OF assms(1)]
    by (auto simp: Stalker_tick_def Let_def tracker_ok_def split: outcome.splits prod.splits if_splits option.splits)
qed

lemma stalk_waits:
  assumes "\<And>s w e s'. I s \<Longrightarrow> tick s = (Ok (w, e), s') \<Longrightarrow> P w \<and> I s'"
    and "\<And>w s s'. I s \<Longrightarrow> elapse w s = Some s' \<Longrightarrow> I s'"
  shows "I s \<Longrightarrow> \<forall>w \<in> set (fst (Stalker_stalk n tick ended elapse s)). P w"
proof (induction n arbitrary: s)
  case (Suc n)
  show ?case
  proof (cases "\<exists>w e s1. tick s = (Ok (w, e), s1)")
    case True
    then obtain w e s1 where t: "tick s = (Ok (w, e), s1)" by blast
    with assms(1) [OF Suc.prems t] assms(2) [of s1 w] Suc.IH show ?thesis
      by (auto split: option.splits prod.splits)
  next
    case False
    then show ?thesis by (auto split: prod.splits outcome.splits)
  qed
qed simp

section \<open>Properties\<close>

text \<open>
  C25: However the remotes answer and whatever the clock says, the stalker never asks a chain for its
  head more often than twice per second and never waits longer than twice the block time: every
  wait of its loop lies between these bounds, for any number of rounds.
\<close>

theorem stalker_waits_bounded:
  assumes "mem_cell dts" and "keeps_cell dts cluster" and "\<And>name n s. rd dts (snd (put name n s)) = rd dts s"
    and "\<And>w s s'. elapse w s = Some s' \<Longrightarrow> rd dts s' = rd dts s"
    and "rd dts s = stalker_trackers chs" and "chain \<in> set chs" and "\<And>c. c \<in> set chs \<Longrightarrow> ch_Name c = ch_Name chain \<Longrightarrow> c = chain"
    and "0 \<le> ch_BlockTimeSeconds chain" and "stalk_blockTime chain < 2 ^ 50"
    and "w \<in> set (fst (Stalker_stalk n (Stalker_tick cdc dts now put ctx chain cluster) ended elapse s))"
  shows "500 * Millisecond \<le> w \<and> w \<le> 2 * stalk_blockTime chain"
proof -
  let ?t = "newDelayTracker 128 0 (seconds_to_duration (ch_BlockTimeSeconds chain))"
  have "stalker_trackers chs (ch_Name chain) = Some ?t"
    using assms(6,7) unfolding stalker_trackers_def by (intro map_of_rev_const) auto
  moreover have "0 \<le> seconds_to_duration (ch_BlockTimeSeconds chain)" "seconds_to_duration (ch_BlockTimeSeconds chain) < 2 ^ 50"
    using assms(8,9) by (simp_all add: seconds_to_duration_def stalk_blockTime_def)
  ultimately have "tracker_ok chain (rd dts s)"
    using assms(5) by (auto simp: tracker_ok_def newDelayTracker_def intro!: new_delay_inv [unfolded newDelayTracker_def])
  then have "\<forall>w \<in> set (fst (Stalker_stalk n (Stalker_tick cdc dts now put ctx chain cluster) ended elapse s)). wait_ok chain w"
    using assms(9) tick_ok [OF assms(1-3)] assms(4)
    by (intro stalk_waits [where I = "\<lambda>s. tracker_ok chain (rd dts s)"]) auto
  then show ?thesis using assms(10) by (simp add: wait_ok_def)
qed

definition demo_head :: json where
  "demo_head = JObj [(''number'', JStr (EncodeUint64 eth_codec 7)), (''timestamp'', JStr (EncodeUint64 eth_codec 9))]"

lemma demo_tick:
  "Stalker_tick eth_codec own_cell (\<lambda>_. 0) (\<lambda>_ n s. (Ok n, s)) Background demo_chain (\<lambda>r s. (send_ok (ARaw demo_head), s)) s =
     (Ok (tick_stale (stalk_blockTime demo_chain) (time_Unix 9 + stalk_blockTime demo_chain) 0, None), s)"
proof -
  have dec: "dec_Uint64 eth_codec (JStr (EncodeUint64 eth_codec w)) = Ok w" for w using eth_codec_ok unfolding codec_ok_def by blast
  have "fold_name ''number'' \<noteq> fold_name ''timestamp''" by code_simp
  then have "dec_stalk_head eth_codec demo_head = Ok (7, 9)"
    by (auto simp: dec_stalk_head_def dec_number_field_def demo_head_def dec)
  then show ?thesis
    by (simp add: Stalker_tick_def Do_def serve_icept_eq send_ok_def Let_def demo_head_def)
qed

theorem stalker_waits_bounded_witness:
  "length (fst (Stalker_stalk 3 (Stalker_tick eth_codec own_cell (\<lambda>_. 0) (\<lambda>_ n s. (Ok n, s)) Background demo_chain
      (\<lambda>r s. (send_ok (ARaw demo_head), s))) (\<lambda>_. False) (\<lambda>_ s. Some s) (stalker_trackers [demo_chain]))) = 3 \<and>
   list_all (\<lambda>w. 500 * Millisecond \<le> w \<and> w \<le> 2 * stalk_blockTime demo_chain)
     (fst (Stalker_stalk 3 (Stalker_tick eth_codec own_cell (\<lambda>_. 0) (\<lambda>_ n s. (Ok n, s)) Background demo_chain
      (\<lambda>r s. (send_ok (ARaw demo_head), s))) (\<lambda>_. False) (\<lambda>_ s. Some s) (stalker_trackers [demo_chain])))"
    (is "length (fst (Stalker_stalk 3 ?tick ?ended ?elapse ?s)) = 3 \<and> _")
proof
  show "length (fst (Stalker_stalk 3 ?tick ?ended ?elapse ?s)) = 3"
    by (simp add: eval_nat_numeral demo_tick)
  show "list_all (\<lambda>w. 500 * Millisecond \<le> w \<and> w \<le> 2 * stalk_blockTime demo_chain) (fst (Stalker_stalk 3 ?tick ?ended ?elapse ?s))"
    unfolding list_all_iff
  proof
    fix w
    assume w: "w \<in> set (fst (Stalker_stalk 3 ?tick ?ended ?elapse ?s))"
    show "500 * Millisecond \<le> w \<and> w \<le> 2 * stalk_blockTime demo_chain"
      by (rule stalker_waits_bounded [OF own_cell_ok _ _ _ _ _ _ _ _ w, of "[demo_chain]"])
        (simp_all add: keeps_cell_def own_cell_def demo_chain_def stalk_blockTime_def seconds_to_duration_def Millisecond_def)
  qed
qed

section \<open>The loops of the leader\<close>

lemma stalked_chains_iff:
  "(chain, cluster) \<in> set (stalked_chains chs remotes) \<longleftrightarrow>
     chain \<in> set chs \<and> ch_ParsedStalk chain \<and> remotes (ch_Name chain) = Some cluster"
  by (induction chs) (auto split: option.splits)

text \<open>Every loop finds a tracker under the name of its chain, so that a tick dereferences no nil tracker.\<close>

lemma stalked_chains_tracked:
  assumes "(chain, cluster) \<in> set (stalked_chains chs remotes)"
  shows "stalker_trackers chs (ch_Name chain) \<noteq> None"
  using assms by (auto simp: stalked_chains_iff stalker_trackers_def map_of_eq_None_iff rev_map image_image)

end
