(* ===== verification/Venn_Clusters.thy ===== *)
theory Venn_Clusters
  imports Venn_Backer Venn_Doctor Venn_Validator Venn_Remote Venn_Middlewares
begin

text \<open>
  \<open>svc/node/quarks/cluster\<close>: how a node builds one handler per remote out of the middlewares of
  the call center, adds them to the cluster of their chain, routes a request to the cluster of
  its chain, and summarises the health of a chain. The structs the handlers point to are entries
  of tables in the state of the node; the world outside the process is the last field.
\<close>

section \<open>State\<close>

text \<open>The structs of one remote that change while it serves requests.\<close>

record ('conn, 'w, 'l) remote_state =
  rs_conn :: "'conn option"
  rs_collector :: "'w Collector"
  rs_log :: "(string \<times> raw) list"
  rs_backer :: Backer
  rs_validator :: Validator
  rs_doctor :: Doctor
  rs_limiter :: 'l

record ('conn, 'w, 'l, 'x) node_state =
  nd_remotes :: "nat \<Rightarrow> ('conn, 'w, 'l) remote_state"
  nd_clusters :: "nat \<Rightarrow> Cluster"
  nd_world :: 'x

text \<open>
  What a target consists of besides its state: the address of the state and the parts that do not
  change.
\<close>

record RemoteTarget =
  rt_ptr :: nat
  rt_Config :: Remote
  rt_Filterer :: Filterer
  rt_BlockLookBack :: "BlockLookBack option"

text \<open>
  \<open>cs_targets\<close> lists the handlers in the order in which they were made, which is how a cluster
  refers to them.
\<close>

record Clusters =
  cs_Remotes :: "string \<rightharpoonup> nat"
  cs_middlewares :: "string \<rightharpoonup> (string \<rightharpoonup> RemoteTarget)"
  cs_chainLookBack :: "string \<rightharpoonup> BlockLookBack"
  cs_targets :: "RemoteTarget list"

text \<open>
  The code outside the repository: the JSON codec, the clock, the sliding windows, the RPC client,
  the rate limiter of \<open>golang.org/x/time\<close>, and the \<open>Get\<close> of the head store.
\<close>

record ('s, 'conn, 'w, 'l) env =
  ev_codec :: codec
  ev_clk :: "'s \<Rightarrow> int"
  ev_rolling :: "'w rolling"
  ev_window :: 'w
  ev_dialer :: "Remote \<Rightarrow> ('s, 'conn) dialer"
  ev_newLimiter :: "rat \<Rightarrow> int \<Rightarrow> 'l"
  ev_Allow :: "int \<Rightarrow> 'l \<Rightarrow> bool \<times> 'l"
  ev_hget :: "'s hget"

type_synonym ('conn, 'w, 'l, 'x) node_env = "(('conn, 'w, 'l, 'x) node_state, 'conn, 'w, 'l) env"

section \<open>Pointers\<close>

definition remotes_cell :: "(('conn, 'w, 'l, 'x) node_state, nat \<Rightarrow> ('conn, 'w, 'l) remote_state) cell" where
  "remotes_cell = field_cell nd_remotes nd_remotes_update own_cell"

definition clusters_cell :: "(('conn, 'w, 'l, 'x) node_state, nat \<Rightarrow> Cluster) cell" where
  "clusters_cell = field_cell nd_clusters nd_clusters_update own_cell"

definition remote_cell :: "nat \<Rightarrow> (('conn, 'w, 'l, 'x) node_state, ('conn, 'w, 'l) remote_state) cell" where
  "remote_cell p = entry_cell p remotes_cell"

definition cluster_cell :: "nat \<Rightarrow> (('conn, 'w, 'l, 'x) node_state, Cluster) cell" where
  "cluster_cell p = entry_cell p clusters_cell"

definition conn_cell :: "nat \<Rightarrow> (('conn, 'w, 'l, 'x) node_state, 'conn option) cell" where
  "conn_cell p = field_cell rs_conn rs_conn_update (remote_cell p)"

definition collector_cell :: "nat \<Rightarrow> (('conn, 'w, 'l, 'x) node_state, 'w Collector) cell" where
  "collector_cell p = field_cell rs_collector rs_collector_update (remote_cell p)"

definition log_cell :: "nat \<Rightarrow> (('conn, 'w, 'l, 'x) node_state, (string \<times> raw) list) cell" where
  "log_cell p = field_cell rs_log rs_log_update (remote_cell p)"

definition backer_cell :: "nat \<Rightarrow> (('conn, 'w, 'l, 'x) node_state, Backer) cell" where
  "backer_cell p = field_cell rs_backer rs_backer_update (remote_cell p)"

definition validator_cell :: "nat \<Rightarrow> (('conn, 'w, 'l, 'x) node_state, Validator) cell" where
  "validator_cell p = field_cell rs_validator rs_validator_update (remote_cell p)"

definition doctor_cell :: "nat \<Rightarrow> (('conn, 'w, 'l, 'x) node_state, Doctor) cell" where
  "doctor_cell p = field_cell rs_doctor rs_doctor_update (remote_cell p)"

definition limiter_cell :: "nat \<Rightarrow> (('conn, 'w, 'l, 'x) node_state, 'l) cell" where
  "limiter_cell p = field_cell rs_limiter rs_limiter_update (remote_cell p)"

interpretation remotes: mem_cell remotes_cell
  unfolding remotes_cell_def by (rule field_cell_ok [OF own_cell_ok]) simp_all

interpretation clusters: mem_cell clusters_cell
  unfolding clusters_cell_def by (rule field_cell_ok [OF own_cell_ok]) simp_all

interpretation remote: mem_cell "remote_cell p" for p
  unfolding remote_cell_def by (rule entry_cell_ok [OF remotes.mem_cell_axioms])

interpretation cluster: mem_cell "cluster_cell p" for p
  unfolding cluster_cell_def by (rule entry_cell_ok [OF clusters.mem_cell_axioms])

lemmas remote_ok = remote.mem_cell_axioms

interpretation conn: mem_cell "conn_cell p" for p
  unfolding conn_cell_def by (rule field_cell_ok [OF remote_ok]) simp_all

interpretation collector: mem_cell "collector_cell p" for p
  unfolding collector_cell_def by (rule field_cell_ok [OF remote_ok]) simp_all

interpretation log: mem_cell "log_cell p" for p
  unfolding log_cell_def by (rule field_cell_ok [OF remote_ok]) simp_all

interpretation backer: mem_cell "backer_cell p" for p
  unfolding backer_cell_def by (rule field_cell_ok [OF remote_ok]) simp_all

interpretation validator: mem_cell "validator_cell p" for p
  unfolding validator_cell_def by (rule field_cell_ok [OF remote_ok]) simp_all

interpretation doctor: mem_cell "doctor_cell p" for p
  unfolding doctor_cell_def by (rule field_cell_ok [OF remote_ok]) simp_all

interpretation limiter: mem_cell "limiter_cell p" for p
  unfolding limiter_cell_def by (rule field_cell_ok [OF remote_ok]) simp_all

section \<open>NewRemoteTarget\<close>

text \<open>\<open>maps.Copy\<close> of every filter in turn: a later filter overrides an earlier one.\<close>

definition merge_methods :: "Filter list \<Rightarrow> string \<rightharpoonup> bool" where
  "merge_methods filters = foldl (\<lambda>m f. m ++ map_of (flt_Methods f)) Map.empty filters"

definition NewRemoteTarget :: "('s, 'conn, 'w, 'l) env \<Rightarrow> nat \<Rightarrow> Remote \<Rightarrow> Chain \<Rightarrow> RemoteTarget \<times> ('conn, 'w, 'l) remote_state" where
  "NewRemoteTarget env p cfg chain =
     (\<lparr>rt_ptr = p, rt_Config = cfg, rt_Filterer = NewFilterer (merge_methods (rem_ParsedFilters cfg)),
       rt_BlockLookBack = (if 0 < rem_MaxBlockLookback cfg then Some \<lparr>lb_chainCfg = chain, lb_remoteCfg = Some cfg\<rparr> else None)\<rparr>,
      \<lparr>rs_conn = None,
       rs_collector = NewCollector (ev_window env) (ch_Name chain) (rem_Name cfg),
       rs_log = [],
       rs_backer = NewBacker (rem_RateLimitBackoff cfg) (rem_ErrorBackoffMin cfg) (rem_ErrorBackoffMax cfg),
       rs_validator = NewValidator (max (60 * Second) (seconds_to_duration (2 * ch_BlockTimeSeconds chain))),
       rs_doctor = NewDoctor (ch_Id chain) (ch_Name chain) (rem_Name cfg) (rem_HealthCheckIntervalMin cfg) (rem_HealthCheckIntervalMax cfg),
       rs_limiter = (case rem_RateLimit cfg of
          Some rl \<Rightarrow> ev_newLimiter env (rl_EventsPerSecond rl) (rl_Burst rl)
        | None \<Rightarrow> ev_newLimiter env 500 1000)\<rparr>)"

section \<open>The handler of a remote\<close>

text \<open>\<open>Allow\<close> of the limiter at its address.\<close>

definition limiter_Allow :: "('conn, 'w, 'l, 'x) node_env \<Rightarrow> nat \<Rightarrow> ('conn, 'w, 'l, 'x) node_state \<Rightarrow> bool \<times> ('conn, 'w, 'l, 'x) node_state" where
  "limiter_Allow env p s =
     (case ev_Allow env (ev_clk env s) (rd (limiter_cell p) s) of (ok, l) \<Rightarrow> (ok, wr (limiter_cell p) l s))"

text \<open>The part of the chain of middlewares that the doctor wraps, around the base proxy.\<close>

definition remote_inner :: "('conn, 'w, 'l, 'x) node_env \<Rightarrow> nat \<Rightarrow> ('conn, 'w, 'l, 'x) node_state middleware" where
  "remote_inner env p base =
     Validator_Middleware (ev_codec env) (ev_clk env) (validator_cell p)
       (Backer_Middleware (backer_cell p)
         (Logger_Middleware (log_cell p) InputData_left
           (Collector_Middleware (ev_rolling env) (ev_clk env) (collector_cell p)
             (InputData_Middleware base))))"

definition remote_stack :: "('conn, 'w, 'l, 'x) node_env \<Rightarrow> RemoteTarget \<Rightarrow> ('conn, 'w, 'l, 'x) node_state middleware" where
  "remote_stack env t base =
     (let p = rt_ptr t;
          remote = Filterer_Middleware (rt_Filterer t)
            (Ratelimiter_Middleware (limiter_Allow env p)
              (Doctor_ServeRPC (ev_codec env) (ev_clk env) (doctor_cell p)
                (remote_inner env p base)))
      in case rt_BlockLookBack t of
           None \<Rightarrow> remote
         | Some lb \<Rightarrow> BlockLookBack_Middleware (ev_codec env) (ev_hget env) lb remote)"

definition remote_handler :: "('conn, 'w, 'l, 'x) node_env \<Rightarrow> RemoteTarget \<Rightarrow> ('conn, 'w, 'l, 'x) node_state handler" where
  "remote_handler env t = remote_stack env t (Proxier_ServeRPC (ev_dialer env (rt_Config t)) (conn_cell (rt_ptr t)))"

section \<open>New\<close>

definition Clusters_zero :: Clusters where
  "Clusters_zero = \<lparr>cs_Remotes = Map.empty, cs_middlewares = Map.empty, cs_chainLookBack = Map.empty, cs_targets = []\<rparr>"

text \<open>The loop of \<open>New\<close> over the chains; the \<open>k\<close>th chain has the \<open>k\<close>th cluster.\<close>

fun add_chains :: "nat \<Rightarrow> Chain list \<Rightarrow> Clusters \<times> ('conn, 'w, 'l, 'x) node_state \<Rightarrow> Clusters \<times> ('conn, 'w, 'l, 'x) node_state" where
  "add_chains k [] x = x"
| "add_chains k (chain # cs) (t, s) =
     add_chains (k + 1) cs
       (t\<lparr>cs_Remotes := (cs_Remotes t)(ch_Name chain \<mapsto> k),
          cs_middlewares := (cs_middlewares t)(ch_Name chain \<mapsto> Map.empty),
          cs_chainLookBack := (if 0 < ch_MaxBlockLookback chain
             then (cs_chainLookBack t)(ch_Name chain \<mapsto> \<lparr>lb_chainCfg = chain, lb_remoteCfg = None\<rparr>) else cs_chainLookBack t)\<rparr>,
        wr (cluster_cell k) NewCluster s)"

text \<open>
  The \<open>OnStart\<close> hook of one remote: make the target and its middlewares, start the doctor, add the
  handler to the cluster of the chain. \<open>New\<close> has made the inner table of the chain.
\<close>

definition start_remote :: "('conn, 'w, 'l, 'x) node_env \<Rightarrow> nat \<Rightarrow> Chain \<Rightarrow> Remote \<Rightarrow> Clusters \<times> ('conn, 'w, 'l, 'x) node_state
    \<Rightarrow> Clusters \<times> ('conn, 'w, 'l, 'x) node_state" where
  "start_remote env k chain cfg = (\<lambda>(t, s).
     let p = length (cs_targets t);
         (mw, st) = NewRemoteTarget env p cfg chain;
         inner = (case cs_middlewares t (ch_Name chain) of None \<Rightarrow> Map.empty | Some m \<Rightarrow> m);
         s1 = wr (remote_cell p) st s;
         s2 = upd (doctor_cell p) (Doctor_start (ev_clk env s1)) s1
     in (t\<lparr>cs_middlewares := (cs_middlewares t)(ch_Name chain \<mapsto> inner(rem_Name cfg \<mapsto> mw)), cs_targets := cs_targets t @ [mw]\<rparr>,
         upd (cluster_cell k) (Cluster_Add (rem_Priority cfg) (NewRemoteWithConfig p cfg)) s2))"

text \<open>The hooks run in the order in which they were appended.\<close>

fun start_hooks :: "nat \<Rightarrow> Chain list \<Rightarrow> (nat \<times> Chain \<times> Remote) list" where
  "start_hooks k [] = []"
| "start_hooks k (chain # cs) = map (\<lambda>cfg. (k, chain, cfg)) (ch_Remotes chain) @ start_hooks (k + 1) cs"

definition start_node :: "('conn, 'w, 'l, 'x) node_env \<Rightarrow> Chain list \<Rightarrow> ('conn, 'w, 'l, 'x) node_state \<Rightarrow> Clusters \<times> ('conn, 'w, 'l, 'x) node_state" where
  "start_node env cs s =
     foldl (\<lambda>x (k, chain, cfg). start_remote env k chain cfg x) (add_chains 0 cs (Clusters_zero, s)) (start_hooks 0 cs)"

section \<open>Clusters.Middleware\<close>

definition serve_target :: "('conn, 'w, 'l, 'x) node_env \<Rightarrow> Clusters \<Rightarrow> handler_ref \<Rightarrow> ('conn, 'w, 'l, 'x) node_state handler" where
  "serve_target env t h = remote_handler env (cs_targets t ! h)"

definition chain_handler :: "('conn, 'w, 'l, 'x) node_env \<Rightarrow> Clusters \<Rightarrow> string \<Rightarrow> nat \<Rightarrow> ('conn, 'w, 'l, 'x) node_state handler" where
  "chain_handler env t name k =
     (let remote = Cluster_ServeRPC (serve_target env t) (cluster_cell k) in
      case cs_chainLookBack t name of
        None \<Rightarrow> remote
      | Some lookBack \<Rightarrow> BlockLookBack_Middleware (ev_codec env) (ev_hget env) lookBack remote)"

definition Clusters_Middleware :: "('conn, 'w, 'l, 'x) node_env \<Rightarrow> Clusters \<Rightarrow> ('conn, 'w, 'l, 'x) node_state handler option
    \<Rightarrow> ('conn, 'w, 'l, 'x) node_state handler" where
  "Clusters_Middleware env t next = (\<lambda>r s.
     case GetChain (rq_Ctx r) of
       Err e \<Rightarrow> (send_err e, s)
     | Panic m \<Rightarrow> (Crash m, s)
     | Ok chain \<Rightarrow>
         (case cs_Remotes t (ch_Name chain) of
            None \<Rightarrow> (case next of Some h \<Rightarrow> h r s | None \<Rightarrow> chain_not_supported chain r s)
          | Some k \<Rightarrow> chain_handler env t (ch_Name chain) k r s))"

section \<open>UpdateChainHealthMetrics\<close>

record chain_health =
  hm_healthyCount :: nat
  hm_totalCount :: nat
  hm_availabilityPercent :: rat
  hm_requestSuccessRate :: rat

text \<open>The loop over the remotes of a chain, in the order \<open>ts\<close> in which the table yields them.\<close>

fun chain_totals :: "('conn, 'w, 'l, 'x) node_env \<Rightarrow> ('conn, 'w, 'l, 'x) node_state \<Rightarrow> RemoteTarget list \<Rightarrow> nat \<times> rat \<times> rat \<Rightarrow> nat \<times> rat \<times> rat" where
  "chain_totals env s [] x = x"
| "chain_totals env s (t # ts) (healthy, requests, successes) =
     (let c = rd (collector_cell (rt_ptr t)) s; now = ev_clk env s;
          rpm = Collector_GetRequestsPerMinute (ev_rolling env) now c;
          rate = Collector_GetSuccessRate (ev_rolling env) now c
      in chain_totals env s ts
           (if Doctor_GetHealthStatus (rd (doctor_cell (rt_ptr t)) s) = HealthStatusHealthy then healthy + 1 else healthy,
            requests + rpm, successes + rpm * rate / 100))"

definition UpdateChainHealthMetrics :: "('conn, 'w, 'l, 'x) node_env \<Rightarrow> ('conn, 'w, 'l, 'x) node_state \<Rightarrow> RemoteTarget list \<Rightarrow> chain_health" where
  "UpdateChainHealthMetrics env s ts =
     (case chain_totals env s ts (0, 0, 0) of (healthy, requests, successes) \<Rightarrow>
       \<lparr>hm_healthyCount = healthy, hm_totalCount = length ts,
        hm_availabilityPercent = (if 0 < length ts then of_nat healthy / of_nat (length ts) * 100 else 0),
        hm_requestSuccessRate = (if 0 < requests then successes / requests * 100 else 100)\<rparr>)"

section \<open>Lemmas on the pointers\<close>

interpretation doctor_backer: disjoint_cells "doctor_cell p" "backer_cell p" for p
  unfolding doctor_cell_def backer_cell_def
  by (rule field_cells_disjoint [OF doctor.mem_cell_axioms [unfolded doctor_cell_def]
        backer.mem_cell_axioms [unfolded backer_cell_def] remote_ok]) simp_all

interpretation limiter_backer: disjoint_cells "limiter_cell p" "backer_cell p" for p
  unfolding limiter_cell_def backer_cell_def
  by (rule field_cells_disjoint [OF limiter.mem_cell_axioms [unfolded limiter_cell_def]
        backer.mem_cell_axioms [unfolded backer_cell_def] remote_ok]) simp_all

interpretation limiter_doctor: disjoint_cells "limiter_cell p" "doctor_cell p" for p
  unfolding limiter_cell_def doctor_cell_def
  by (rule field_cells_disjoint [OF limiter.mem_cell_axioms [unfolded limiter_cell_def]
        doctor.mem_cell_axioms [unfolded doctor_cell_def] remote_ok]) simp_all

section \<open>Lemmas on the handler of a remote\<close>

text \<open>While the backoff is active the inner part answers with an error and changes nothing.\<close>

lemma inner_refuses:
  assumes "\<not> bk_happy (rd (backer_cell p) s)"
  shows "\<exists>e. remote_inner env p base r s = (send_err e, s) \<and> remote_inner env p base' r s = (send_err e, s)"
proof -
  have b: "Backer_Middleware (backer_cell p) b q s = (send_err backoff_error, s)" for b q
    using assms by (simp add: Backer_Middleware_def)
  have "err_is (Some backoff_error) DeadlineExceeded = False"
    by (simp add: err_is_def backoff_error_def NewInternalError_def)
  then show ?thesis
    by (simp add: remote_inner_def Validator_Middleware_def Validator_getBlockByNumber_def Validator_blockNumber_def
        with_icept_eq b send_err_def Do_def serve_icept_eq send_icept_def Let_def)
qed

lemma inner_check_refused:
  assumes "\<not> bk_happy (rd (backer_cell p) s)"
  shows "\<exists>e. Doctor_check cdc clk (doctor_cell p) (remote_inner env p base) s =
      (Ok (), upd (doctor_cell p) (Doctor_fail_blockNumber (clk s) e) s) \<and>
     Doctor_check cdc clk (doctor_cell p) (remote_inner env p base') s =
      (Ok (), upd (doctor_cell p) (Doctor_fail_blockNumber (clk s) e) s)"
  using inner_refuses [OF assms, of env base "NewRequest (WithInternal (check_ctx (clk s)) True) ''eth_blockNumber'' (JArr [])" base']
  by (auto simp: Doctor_check_def Do_into_def Do_def serve_icept_eq send_err_def)

text \<open>A request to a remote whose backoff is active, or whose doctor says it is unhealthy.\<close>

lemma doctor_refuses:
  assumes "dr_health (rd (doctor_cell p) s) = HealthStatusUnhealthy \<or> \<not> bk_happy (rd (backer_cell p) s)"
  shows "\<exists>e s'. Doctor_ServeRPC cdc clk (doctor_cell p) (remote_inner env p base) r s = (send_err e, s') \<and>
     Doctor_ServeRPC cdc clk (doctor_cell p) (remote_inner env p base') r s = (send_err e, s')"
proof (cases "dr_health (rd (doctor_cell p) s)")
  case HealthStatusUnknown
  then have b: "\<not> bk_happy (rd (backer_cell p) s)" using assms by simp
  from inner_check_refused [OF b, of cdc clk env base base'] HealthStatusUnknown show ?thesis
    by (auto simp: Doctor_ServeRPC_def Doctor_serve_def doctor.rd_upd Doctor_CanUse_def Doctor_fail_blockNumber_def)
next
  case HealthStatusHealthy
  then have b: "\<not> bk_happy (rd (backer_cell p) s)" using assms by simp
  let ?s = "wr (doctor_cell p) ((rd (doctor_cell p) s)\<lparr>dr_interval := dr_minInterval (rd (doctor_cell p) s),
      dr_due := clk s + dr_minInterval (rd (doctor_cell p) s)\<rparr>) s"
  have "\<not> bk_happy (rd (backer_cell p) ?s)" using b by (simp add: doctor_backer.rd_wr_right)
  from inner_refuses [OF this, of env base r base'] HealthStatusHealthy show ?thesis
    by (auto simp: Doctor_ServeRPC_def Doctor_serve_def Doctor_CanUse_def)
next
  case HealthStatusUnhealthy
  then show ?thesis by (auto simp: Doctor_ServeRPC_def Doctor_serve_def Doctor_CanUse_def)
qed

lemma limiter_keeps:
  "rd (backer_cell p) (snd (limiter_Allow env p s)) = rd (backer_cell p) s"
  "rd (doctor_cell p) (snd (limiter_Allow env p s)) = rd (doctor_cell p) s"
  by (simp_all add: limiter_Allow_def limiter_backer.rd_wr_right limiter_doctor.rd_wr_right split: prod.split)

text \<open>The remotes of a chain that count as healthy.\<close>

lemma chain_totals_healthy:
  "fst (chain_totals env s ts (h, q, g)) =
     h + length (filter (\<lambda>t. dr_health (rd (doctor_cell (rt_ptr t)) s) = HealthStatusHealthy) ts)"
  by (induction ts arbitrary: h q g) (simp_all add: Let_def Doctor_GetHealthStatus_def)

lemma availability_range:
  "0 \<le> hm_availabilityPercent (UpdateChainHealthMetrics env s ts) \<and> hm_availabilityPercent (UpdateChainHealthMetrics env s ts) \<le> 100 \<and>
   (hm_availabilityPercent (UpdateChainHealthMetrics env s ts) = 0 \<longleftrightarrow>
     (\<forall>t \<in> set ts. dr_health (rd (doctor_cell (rt_ptr t)) s) \<noteq> HealthStatusHealthy))"
proof -
  let ?P = "\<lambda>t. dr_health (rd (doctor_cell (rt_ptr t)) s) = HealthStatusHealthy"
  have "length (filter ?P ts) \<le> length ts" by simp
  then show ?thesis
    using chain_totals_healthy [of env s ts 0 0 0]
    by (auto simp: UpdateChainHealthMetrics_def filter_empty_conv divide_le_eq split: prod.split)
qed

section \<open>Lemmas on the assembly\<close>

lemma filter_groups:
  assumes "distinct qs"
  shows "filter (\<lambda>x. f x = k) (concat (map (\<lambda>q. filter (\<lambda>x. f x = q) xs) qs)) =
    (if k \<in> set qs then filter (\<lambda>x. f x = k) xs else [])"
  using assms
proof (induction qs)
  case (Cons q qs)
  have "filter (\<lambda>x. f x = k) (filter (\<lambda>x. f x = q) xs) = (if q = k then filter (\<lambda>x. f x = k) xs else [])"
    by (induction xs) auto
  then show ?case using Cons by auto
qed simp

lemma sort_key_groups:
  "sort_key f xs = concat (map (\<lambda>q. filter (\<lambda>x. f x = q) xs) (sorted_list_of_set (f ` set xs)))" (is "_ = ?ys")
proof (rule properties_for_sort_key)
  let ?qs = "sorted_list_of_set (f ` set xs)"
  have flt: "filter (\<lambda>x. f x = f k) ?ys = filter (\<lambda>x. f x = f k) xs" for k
  proof (cases "f k \<in> f ` set xs")
    case True
    then show ?thesis by (subst filter_groups) simp_all
  next
    case False
    then have "\<forall>x \<in> set xs. f x \<noteq> f k" by (metis image_eqI)
    then have "filter (\<lambda>x. f x = f k) xs = []" by simp
    then show ?thesis using False by (subst filter_groups) simp_all
  qed
  then show "filter (\<lambda>x. f k = f x) ?ys = filter (\<lambda>x. f k = f x) xs" for k
    by (simp add: eq_commute [of "f k"])
  have "count (mset zs) k = count (mset (filter (\<lambda>x. f x = f k) zs)) k" for zs :: "'a list" and k
    by simp
  then show "mset ?ys = mset xs" using flt by (metis multiset_eqI)
  have "sorted (map f (concat (map (\<lambda>q. filter (\<lambda>x. f x = q) xs) qs)))" if "sorted qs" for qs
    using that
  proof (induction qs)
    case (Cons q qs)
    have "map f (filter (\<lambda>x. f x = q) xs) = replicate (length (filter (\<lambda>x. f x = q) xs)) q"
      by (induction xs) auto
    then show ?case using Cons by (auto simp: sorted_append)
  qed simp
  then show "sorted (map f ?ys)" by simp
qed

lemma concat_priorities:
  "map rw_Config (concat (map cp_remotes (cl_priorities (build_cluster ads)))) =
     map (\<lambda>a. rw_Config (snd a)) (sort_key fst ads)"
proof -
  let ?cl = "build_cluster ads"
  note b = cluster_of_build [of ads, unfolded cluster_of_def]
  have q: "map cp_priority (cl_priorities ?cl) = sorted_list_of_set (fst ` set ads)"
    using b sorted_list_of_set.idem_if_sorted_distinct [of "map cp_priority (cl_priorities ?cl)"]
    by (simp add: strict_sorted_iff)
  have "concat (map cp_remotes (cl_priorities ?cl)) =
      concat (map (\<lambda>q. map snd (filter (\<lambda>a. fst a = q) ads)) (map cp_priority (cl_priorities ?cl)))"
    using b by (simp add: o_def cong: map_cong)
  also have "\<dots> = map snd (sort_key fst ads)"
    by (simp add: q sort_key_groups map_concat o_def)
  finally show ?thesis by simp
qed

text \<open>What the cluster of the \<open>k\<close>th chain is given: the remotes of that chain with their addresses.\<close>

definition added_remotes :: "nat \<Rightarrow> (nat \<times> Chain \<times> Remote) list \<Rightarrow> (int \<times> RemoteWithConfig) list" where
  "added_remotes k hs =
     map (\<lambda>(i, k', chain, cfg). (rem_Priority cfg, NewRemoteWithConfig i cfg)) (filter (\<lambda>x. fst (snd x) = k) (enumerate 0 hs))"

lemma added_remotes_snoc:
  "added_remotes k (hs @ [(k', chain, cfg)]) =
     added_remotes k hs @ (if k' = k then [(rem_Priority cfg, NewRemoteWithConfig (length hs) cfg)] else [])"
  by (simp add: added_remotes_def enumerate_append_eq)

lemma build_cluster_snoc: "build_cluster (ads @ [(q, rw)]) = Cluster_Add q rw (build_cluster ads)"
  by (simp add: build_cluster_def)

interpretation remotes_clusters: disjoint_cells remotes_cell clusters_cell
  unfolding remotes_cell_def clusters_cell_def
  by (rule field_cells_disjoint [OF remotes.mem_cell_axioms [unfolded remotes_cell_def]
        clusters.mem_cell_axioms [unfolded clusters_cell_def] own_cell_ok]) simp_all

lemma cluster_keeps: "rd (cluster_cell k) (wr (remote_cell p) v s) = rd (cluster_cell k) s"
  "rd (cluster_cell k) (upd (doctor_cell p) f s) = rd (cluster_cell k) s"
  by (simp_all add: cluster_cell_def remote_cell_def doctor_cell_def entry_cell_def field_cell_def upd_def
      remotes_clusters.rd_wr_right)

lemma cluster_entry:
  "rd (cluster_cell k) (upd (cluster_cell j) f s) = (if j = k then f (rd (cluster_cell k) s) else rd (cluster_cell k) s)"
proof (cases "j = k")
  case False
  then show ?thesis
    using disjoint_cells.rd_upd_right [OF entry_cells_disjoint [OF clusters.mem_cell_axioms False]] by (simp add: cluster_cell_def)
qed (simp add: cluster.rd_upd)

text \<open>The tables after the hooks \<open>hs\<close> have run.\<close>

lemma start_hooks_inv:
  assumes "rd (cluster_cell k) (snd x) = NewCluster" and "cs_targets (fst x) = []"
  shows "rd (cluster_cell k) (snd (foldl (\<lambda>x (k, chain, cfg). start_remote env k chain cfg x) x hs)) = build_cluster (added_remotes k hs) \<and>
     map rt_Config (cs_targets (fst (foldl (\<lambda>x (k, chain, cfg). start_remote env k chain cfg x) x hs))) = map (snd \<circ> snd) hs \<and>
     cs_Remotes (fst (foldl (\<lambda>x (k, chain, cfg). start_remote env k chain cfg x) x hs)) = cs_Remotes (fst x)"
proof (induction hs rule: rev_induct)
  case Nil
  show ?case using assms by (simp add: added_remotes_def build_cluster_def)
next
  case (snoc h hs)
  obtain j chain cfg where h: "h = (j, chain, cfg)" by (metis prod_cases3)
  let ?y = "foldl (\<lambda>x (k, chain, cfg). start_remote env k chain cfg x) x hs"
  obtain t s where y: "?y = (t, s)" by fastforce
  have l: "length (cs_targets t) = length hs" using snoc.IH y by (metis fst_conv length_map)
  show ?case
    using snoc.IH y l
    by (simp add: h start_remote_def NewRemoteTarget_def Let_def added_remotes_snoc build_cluster_snoc cluster_entry
        cluster_keeps)
qed

lemma cluster_entry_wr:
  "rd (cluster_cell k) (wr (cluster_cell j) v s) = (if j = k then v else rd (cluster_cell k) s)"
  using cluster_entry [of k j "\<lambda>_. v" s] by (simp add: upd_def)

lemma add_chains_later:
  "i < k \<Longrightarrow> rd (cluster_cell i) (snd (add_chains k cs x)) = rd (cluster_cell i) (snd x)"
  "name \<notin> ch_Name ` set cs \<Longrightarrow> cs_Remotes (fst (add_chains k cs x)) name = cs_Remotes (fst x) name"
  "cs_targets (fst (add_chains k cs x)) = cs_targets (fst x)"
  by (induction k cs x rule: add_chains.induct) (auto simp: cluster_entry_wr)

lemma add_chains_inv:
  "i < length cs \<Longrightarrow> distinct (map ch_Name cs) \<Longrightarrow>
   rd (cluster_cell (k + i)) (snd (add_chains k cs x)) = NewCluster \<and> cs_Remotes (fst (add_chains k cs x)) (ch_Name (cs ! i)) = Some (k + i)"
proof (induction k cs x arbitrary: i rule: add_chains.induct)
  case (2 k chain cs t s)
  show ?case
  proof (cases i)
    case 0
    then show ?thesis
      using 2(3) by (simp add: add_chains_later cluster_entry_wr)
  next
    case (Suc j)
    then show ?thesis using 2(1) [of j] 2(2,3) by simp
  qed
qed simp

lemma added_configs:
  "i < length cs \<Longrightarrow> map (\<lambda>a. rw_Config (snd a)) (added_remotes (k + i) (start_hooks k cs)) = ch_Remotes (cs ! i) \<and>
   (\<forall>a \<in> set (added_remotes (k + i) (start_hooks k cs)). fst a = rem_Priority (rw_Config (snd a)))"
proof -
  have eq: "map (\<lambda>a. rw_Config (snd a)) (added_remotes j hs) = map (snd \<circ> snd) (filter (\<lambda>h. fst h = j) hs)" for j hs
    by (induction hs rule: rev_induct) (auto simp: added_remotes_snoc NewRemoteWithConfig_def, simp add: added_remotes_def)
  have "h \<in> set (start_hooks k cs) \<Longrightarrow> k \<le> fst h" for h k cs
    by (induction k cs rule: start_hooks.induct) fastforce+
  then have none: "filter (\<lambda>h. fst h = j) (start_hooks k cs) = []" if "j < k" for j k cs
    using that by (fastforce simp: filter_empty_conv)
  have flt: "i < length cs \<Longrightarrow> map (snd \<circ> snd) (filter (\<lambda>h. fst h = k + i) (start_hooks k cs)) = ch_Remotes (cs ! i)"
  proof (induction cs arbitrary: k i)
    case (Cons chain cs)
    show ?case
    proof (cases i)
      case 0
      then show ?thesis by (simp add: none o_def filter_True)
    next
      case (Suc n)
      have "filter (\<lambda>h. fst h = k + i) (map (\<lambda>cfg. (k, chain, cfg)) (ch_Remotes chain)) = []"
        using Suc by (auto simp: filter_empty_conv)
      then show ?thesis using Suc Cons.IH [of n "k + 1"] Cons.prems by simp
    qed
  qed simp
  have "\<forall>a \<in> set (added_remotes j hs). fst a = rem_Priority (rw_Config (snd a))" for j hs
    by (auto simp: added_remotes_def NewRemoteWithConfig_def)
  then show "i < length cs \<Longrightarrow> ?thesis" using eq flt by simp
qed

lemma sort_key_map: "sort_key f (map g xs) = map g (sort_key (\<lambda>x. f (g x)) xs)"
proof -
  have "insort_key f (g x) (map g ys) = map g (insort_key (\<lambda>x. f (g x)) x ys)" for x ys
    by (induction ys) auto
  then show ?thesis by (induction xs) simp_all
qed

lemma sort_key_keys: "(\<And>x. x \<in> set xs \<Longrightarrow> f x = g x) \<Longrightarrow> sort_key f xs = sort_key g xs"
proof -
  assume eq: "\<And>x. x \<in> set xs \<Longrightarrow> f x = g x"
  have "filter (\<lambda>x. f x = q) xs = filter (\<lambda>x. g x = q) xs" for q by (rule filter_cong) (simp_all add: eq)
  moreover have "f ` set xs = g ` set xs" by (rule image_cong) (simp_all add: eq)
  ultimately show ?thesis by (simp add: sort_key_groups)
qed

lemma added_handlers:
  "a \<in> set (added_remotes k hs) \<Longrightarrow> rw_Handler (snd a) < length hs \<and> snd (snd (hs ! rw_Handler (snd a))) = rw_Config (snd a)"
  by (auto simp: added_remotes_def NewRemoteWithConfig_def in_set_enumerate_eq)

text \<open>The tables of a node that has started.\<close>

lemma start_node_tables:
  assumes "distinct (map ch_Name cs)" and "i < length cs" and "start_node env cs s = (t, s')"
  shows "rd (cluster_cell i) s' = build_cluster (added_remotes i (start_hooks 0 cs))"
    and "map rt_Config (cs_targets t) = map (snd \<circ> snd) (start_hooks 0 cs)"
    and "cs_Remotes t (ch_Name (cs ! i)) = Some i"
proof -
  let ?x = "add_chains 0 cs (Clusters_zero, s)"
  have x: "rd (cluster_cell i) (snd ?x) = NewCluster" "cs_Remotes (fst ?x) (ch_Name (cs ! i)) = Some i" "cs_targets (fst ?x) = []"
    using add_chains_inv [OF assms(2,1), of 0 "(Clusters_zero, s)"] by (simp_all add: add_chains_later(3), simp add: Clusters_zero_def)
  from start_hooks_inv [OF x(1,3), of env "start_hooks 0 cs"] assms(3) x(2)
  show "rd (cluster_cell i) s' = build_cluster (added_remotes i (start_hooks 0 cs))"
    "map rt_Config (cs_targets t) = map (snd \<circ> snd) (start_hooks 0 cs)" "cs_Remotes t (ch_Name (cs ! i)) = Some i"
    by (simp_all add: start_node_def)
qed

lemma started_handler:
  assumes "map rt_Config (cs_targets t) = map (snd \<circ> snd) hs" and "a \<in> set (added_remotes i hs)"
  shows "rw_Handler (snd a) < length (cs_targets t) \<and> rt_Config (cs_targets t ! rw_Handler (snd a)) = rw_Config (snd a)"
proof -
  have "rw_Handler (snd a) < length (cs_targets t)" "snd (snd (hs ! rw_Handler (snd a))) = rw_Config (snd a)"
    using added_handlers [OF assms(2)] map_eq_imp_length_eq [OF assms(1)] by auto
  then show ?thesis using assms(1) by (metis comp_apply length_map nth_map)
qed

section \<open>Properties\<close>

text \<open>
  A node that has started holds, for every configured chain, a cluster of exactly the remotes
  of that chain, grouped so that reading the groups in order gives the remotes by ascending
  priority and, within a priority, in the order of the configuration; and every entry refers to
  the handler that was built from its own configuration.
\<close>

theorem node_remotes_by_priority:
  assumes "distinct (map ch_Name cs)" and "i < length cs" and "start_node env cs s = (t, s')"
  shows "cs_Remotes t (ch_Name (cs ! i)) = Some i \<and>
     map rw_Config (concat (map cp_remotes (cl_priorities (rd (cluster_cell i) s')))) = sort_key rem_Priority (ch_Remotes (cs ! i)) \<and>
     (\<forall>p \<in> set (cl_priorities (rd (cluster_cell i) s')). \<forall>rw \<in> set (cp_remotes p).
        rt_Config (cs_targets t ! rw_Handler rw) = rw_Config rw)"
proof -
  let ?ads = "added_remotes i (start_hooks 0 cs)"
  note tables = start_node_tables [OF assms]
  note ads = added_configs [OF assms(2), of 0, unfolded add_0]
  have "map rw_Config (concat (map cp_remotes (cl_priorities (build_cluster ?ads)))) = map (\<lambda>a. rw_Config (snd a)) (sort_key (\<lambda>a. rem_Priority (rw_Config (snd a))) ?ads)"
    using ads sort_key_keys [of ?ads fst "\<lambda>a. rem_Priority (rw_Config (snd a))"] by (simp add: concat_priorities)
  also have "\<dots> = sort_key rem_Priority (ch_Remotes (cs ! i))"
    using ads sort_key_map [of rem_Priority "\<lambda>a. rw_Config (snd a)" ?ads] by simp
  finally have order: "map rw_Config (concat (map cp_remotes (cl_priorities (build_cluster ?ads)))) = sort_key rem_Priority (ch_Remotes (cs ! i))" .
  have "rt_Config (cs_targets t ! rw_Handler rw) = rw_Config rw"
    if "p \<in> set (cl_priorities (build_cluster ?ads))" and "rw \<in> set (cp_remotes p)" for p rw
    using that cluster_of_build [of ?ads] started_handler [OF tables(2)] by (auto simp: cluster_of_def)
  then show ?thesis using tables(1,3) order by simp
qed

definition demo_dialer :: "('s, unit) dialer" where
  "demo_dialer = \<lparr>dl_connect = (\<lambda>r s. (Ok (), s)), dl_Closed = (\<lambda>_ _. False),
     dl_Do = (\<lambda>_ _ _ s. (Ok (JStr ''0x1''), s)), dl_Subscribe = (\<lambda>_ _ _ s. (Ok (), s))\<rparr>"

definition demo_env :: "(unit, nat, nat, unit) node_env" where
  "demo_env = \<lparr>ev_codec = eth_codec, ev_clk = (\<lambda>_. 0),
     ev_rolling = \<lparr>roll_Append = (\<lambda>_ _ n. n + 1), roll_Sum = (\<lambda>_ n. of_nat n), roll_Count = (\<lambda>_ n. of_nat n)\<rparr>,
     ev_window = 0, ev_dialer = (\<lambda>_. demo_dialer), ev_newLimiter = (\<lambda>_ b. nat b),
     ev_Allow = (\<lambda>_ n. (0 < n, n - 1)), ev_hget = (\<lambda>_ _. Ok 7)\<rparr>"

definition demo_node_chain :: Chain where
  "demo_node_chain = demo_chain\<lparr>ch_Remotes := [Remote_zero\<lparr>rem_Name := ''slow'', rem_Priority := 2\<rparr>,
     Remote_zero\<lparr>rem_Name := ''fast'', rem_Priority := 1\<rparr>]\<rparr>"

definition demo_remote_state :: "(unit, nat, nat) remote_state" where
  "demo_remote_state = snd (NewRemoteTarget demo_env 0 Remote_zero demo_chain)"

definition demo_state :: "(unit, nat, nat, unit) node_state" where
  "demo_state = \<lparr>nd_remotes = (\<lambda>_. demo_remote_state), nd_clusters = (\<lambda>_. NewCluster), nd_world = ()\<rparr>"

theorem node_remotes_by_priority_witness:
  "cs_Remotes (fst (start_node demo_env [demo_node_chain] demo_state)) ''eth'' = Some 0 \<and>
   map rem_Name (map rw_Config (concat (map cp_remotes (cl_priorities (rd (cluster_cell 0)
     (snd (start_node demo_env [demo_node_chain] demo_state))))))) = [''fast'', ''slow'']"
  using node_remotes_by_priority [of "[demo_node_chain]" 0 demo_env demo_state]
  by (simp add: demo_node_chain_def demo_chain_def prod_eq_iff)

text \<open>
  C27: A remote is not contacted when its method filter forbids the method, when its rate limit is
  exhausted, when its doctor says it is unhealthy, or while its backoff is active: the handler sends
  exactly one error and nothing else, and its behaviour does not depend on the connection at all. The
  only condition is that the look-back check of the remote, if it has one, does not panic.
\<close>

theorem remote_not_contacted:
  assumes "ft_methods (rt_Filterer t) (rq_Method r) = Some False \<or> \<not> fst (limiter_Allow env (rt_ptr t) s) \<or>
      dr_health (rd (doctor_cell (rt_ptr t)) s) = HealthStatusUnhealthy \<or> \<not> bk_happy (rd (backer_cell (rt_ptr t)) s)"
    and "\<And>lb m. rt_BlockLookBack t = Some lb \<Longrightarrow> lookback_check (ev_codec env) (ev_hget env) lb r s \<noteq> Panic m"
  shows "\<exists>e s'. remote_stack env t base r s = (send_err e, s') \<and> remote_stack env t base' r s = (send_err e, s')"
proof -
  let ?p = "rt_ptr t"
  let ?in = "\<lambda>base. Filterer_Middleware (rt_Filterer t) (Ratelimiter_Middleware (limiter_Allow env ?p)
      (Doctor_ServeRPC (ev_codec env) (ev_clk env) (doctor_cell ?p) (remote_inner env ?p base)))"
  obtain ok s1 where a: "limiter_Allow env ?p s = (ok, s1)" by fastforce
  have k: "rd (backer_cell ?p) s1 = rd (backer_cell ?p) s" "rd (doctor_cell ?p) s1 = rd (doctor_cell ?p) s"
    using limiter_keeps [of ?p env s] a by simp_all
  have "\<exists>e s'. ?in base r s = (send_err e, s') \<and> ?in base' r s = (send_err e, s')"
  proof (cases "ft_methods (rt_Filterer t) (rq_Method r) = Some False \<or> \<not> ok")
    case True
    then show ?thesis using a by (auto simp: Filterer_Middleware_def Ratelimiter_Middleware_def)
  next
    case False
    then have "dr_health (rd (doctor_cell ?p) s1) = HealthStatusUnhealthy \<or> \<not> bk_happy (rd (backer_cell ?p) s1)"
      using assms(1) a k by auto
    from doctor_refuses [OF this, of "ev_codec env" "ev_clk env" env base r base'] False a show ?thesis
      by (auto simp: Filterer_Middleware_def Ratelimiter_Middleware_def)
  qed
  then show ?thesis
    using assms(2) by (auto simp: remote_stack_def Let_def BlockLookBack_Middleware_def split: option.splits outcome.splits)
qed

definition demo_backing_off :: "(unit, nat, nat, unit) node_state" where
  "demo_backing_off = demo_state\<lparr>nd_remotes := (\<lambda>_. demo_remote_state\<lparr>rs_backer := Backer_error (NewBacker 5 10 60)\<rparr>)\<rparr>"

theorem remote_not_contacted_witness:
  "\<exists>e s'. remote_handler demo_env (fst (NewRemoteTarget demo_env 0 Remote_zero demo_chain)) (NewRequest Background ''eth_chainId'' (JArr [])) demo_backing_off = (send_err e, s') \<and>
     remote_stack demo_env (fst (NewRemoteTarget demo_env 0 Remote_zero demo_chain)) (\<lambda>r s. (Crash ''contacted'', s))
       (NewRequest Background ''eth_chainId'' (JArr [])) demo_backing_off = (send_err e, s')"
proof -
  have "\<not> bk_happy (rd (backer_cell p) demo_backing_off)" for p
    by (simp add: backer_cell_def remote_cell_def remotes_cell_def own_cell_def field_cell_def entry_cell_def demo_backing_off_def
        demo_state_def Backer_error_def NewBacker_def Let_def)
  then show ?thesis
    unfolding remote_handler_def by (intro remote_not_contacted) (simp_all add: NewRequest_def lookback_check_def)
qed

text \<open>
  A health check that falls into the backoff of a remote is answered by the backoff: the doctor
  marks the remote unhealthy without having contacted it, and checks again after its minimal
  interval however short the backoff is.
\<close>

theorem check_during_backoff_fails:
  assumes "\<not> bk_happy (rd (backer_cell p) s)"
  shows "\<exists>s'. Doctor_check cdc clk (doctor_cell p) (remote_inner env p base) s = (Ok (), s') \<and>
     dr_health (rd (doctor_cell p) s') = HealthStatusUnhealthy \<and>
     dr_due (rd (doctor_cell p) s') = clk s + dr_minInterval (rd (doctor_cell p) s) \<and>
     (\<forall>base'. Doctor_check cdc clk (doctor_cell p) (remote_inner env p base') s = (Ok (), s'))"
proof -
  let ?s = "\<lambda>e. upd (doctor_cell p) (Doctor_fail_blockNumber (clk s) e) s"
  obtain e where e: "Doctor_check cdc clk (doctor_cell p) (remote_inner env p base) s = (Ok (), ?s e)"
    using inner_check_refused [OF assms] by metis
  then have "Doctor_check cdc clk (doctor_cell p) (remote_inner env p base') s = (Ok (), ?s e)" for base'
    using inner_check_refused [OF assms, of cdc clk env base base'] by auto
  then show ?thesis by (intro exI [of _ "?s e"]) (simp add: e doctor.rd_upd Doctor_fail_blockNumber_def)
qed

theorem check_during_backoff_fails_witness:
  "\<exists>s'. Doctor_check eth_codec (\<lambda>_. 0) (doctor_cell 0) (remote_inner demo_env 0 (\<lambda>r s. (send_ok (AString ''0x1''), s))) demo_backing_off = (Ok (), s') \<and>
     dr_health (rd (doctor_cell 0) s') = HealthStatusUnhealthy"
  using check_during_backoff_fails [of 0 demo_backing_off eth_codec "\<lambda>_. 0" demo_env "\<lambda>r s. (send_ok (AString ''0x1''), s)"]
  by (auto simp: backer_cell_def remote_cell_def remotes_cell_def own_cell_def field_cell_def entry_cell_def demo_backing_off_def
      demo_state_def Backer_error_def NewBacker_def Let_def)

end
