(* ===== verification/Venn_Subcenter.thy ===== *)
theory Venn_Subcenter
  imports Venn_Headstore
begin

text \<open>
  \<open>svc/node/atoms/subcenter\<close>: subscriptions to new heads and to logs, driven by the head store. What
  the \<open>select\<close> of a subscription receives is a list of events; the list may end while the
  subscription is still waiting. The notifier (its id and \<open>Notify\<close>) and the subscription of the
  head store are arguments. The loop over the blocks is modelled for heads below \<open>2^64 - 1\<close>; at that
  head the comparison in the source never fails.
\<close>

datatype sub_event = ContextDone | NotifierErr gerror | NewHead u64

record 's notifier =
  nt_ID :: string
  nt_Notify :: "json \<Rightarrow> 's \<Rightarrow> gerror option \<times> 's"

record 's heads =
  hs_Get :: "string \<Rightarrow> 's \<Rightarrow> u64 outcome"
  hs_On :: "string \<Rightarrow> 's \<Rightarrow> nat \<times> 's"
  hs_done :: "string \<Rightarrow> nat \<Rightarrow> 's \<Rightarrow> 's"

fun removeTransactions :: "json \<Rightarrow> json outcome" where
  "removeTransactions (JObj fs) = Ok (JObj (filter (\<lambda>(k, v). k \<noteq> ''transactions'') fs))"
| "removeTransactions _ = Err json_type_error"

section \<open>newHeads\<close>

text \<open>The loop over the block numbers: a block that cannot be had is skipped, a failed notification ends the loop.\<close>

fun send_blocks :: "codec \<Rightarrow> ctx \<Rightarrow> 's handler \<Rightarrow> 's notifier \<Rightarrow> u64 list \<Rightarrow> 's \<Rightarrow> unit outcome \<times> 's" where
  "send_blocks cdc c h nt [] s = (Ok (), s)"
| "send_blocks cdc c h nt (i # is) s =
     (case Do cdc c h ''eth_getBlockByNumber'' (JArr [JStr (EncodeUint64 cdc i), JBool False]) s of
        (Panic m, s1) \<Rightarrow> (Panic m, s1)
      | (Err e, s1) \<Rightarrow> send_blocks cdc c h nt is s1
      | (Ok block, s1) \<Rightarrow>
          (case removeTransactions block of
             Ok withoutTxns \<Rightarrow>
               (case nt_Notify nt withoutTxns s1 of
                  (Some e, s2) \<Rightarrow> (Ok (), s2)
                | (None, s2) \<Rightarrow> send_blocks cdc c h nt is s2)
           | Err e \<Rightarrow> send_blocks cdc c h nt is s1
           | Panic m \<Rightarrow> (Panic m, s1)))"

definition block_range :: "u64 \<Rightarrow> u64 \<Rightarrow> u64 list" where
  "block_range current head = map word_of_nat [unat (current + 1)..<unat head + 1]"

fun newHeads_loop :: "codec \<Rightarrow> ctx \<Rightarrow> 's handler \<Rightarrow> 's notifier \<Rightarrow> u64 \<Rightarrow> sub_event list \<Rightarrow> 's \<Rightarrow> unit outcome \<times> 's" where
  "newHeads_loop cdc c h nt current [] s = (Ok (), s)"
| "newHeads_loop cdc c h nt current (ContextDone # es) s = (Ok (), s)"
| "newHeads_loop cdc c h nt current (NotifierErr e # es) s = (Ok (), s)"
| "newHeads_loop cdc c h nt current (NewHead head # es) s =
     (case send_blocks cdc c h nt (block_range current head) s of
        (Ok _, s1) \<Rightarrow> newHeads_loop cdc c h nt head es s1
      | (Err e, s1) \<Rightarrow> (Err e, s1)
      | (Panic m, s1) \<Rightarrow> (Panic m, s1))"

section \<open>logs\<close>

definition dec_SubscriptionFilterQuery :: "codec \<Rightarrow> json \<Rightarrow> (address list \<times> hash list list) outcome" where
  "dec_SubscriptionFilterQuery cdc j =
     outcome_bind (struct_fields j) (\<lambda>fs.
     outcome_bind (dec_field ''address'' (OneOrArray_UnmarshalJSON (dec_Address cdc)) [] fs) (\<lambda>ad.
     outcome_bind (dec_field_into ''topics'' (FilterQueryTopics_UnmarshalJSON cdc) [] fs) (\<lambda>tp. Ok (ad, tp))))"

fun send_logs :: "'s notifier \<Rightarrow> json list \<Rightarrow> 's \<Rightarrow> 's" where
  "send_logs nt [] s = s"
| "send_logs nt (l # ls) s =
     (case nt_Notify nt l s of (Some e, s1) \<Rightarrow> s1 | (None, s1) \<Rightarrow> send_logs nt ls s1)"

definition logs_query :: "address list \<times> hash list list \<Rightarrow> u64 \<Rightarrow> u64 \<Rightarrow> FilterQuery" where
  "logs_query flt current head =
     \<lparr>fq_BlockHash = None, fq_FromBlock = Some (u64_to_i64 (current + 1)), fq_ToBlock = Some (u64_to_i64 head),
      fq_Addresses = fst flt, fq_Topics = snd flt\<rparr>"

text \<open>When the logs cannot be had the range is asked for again with the next head.\<close>

fun logs_loop :: "codec \<Rightarrow> ctx \<Rightarrow> 's handler \<Rightarrow> 's notifier \<Rightarrow> address list \<times> hash list list \<Rightarrow> u64 \<Rightarrow> sub_event list \<Rightarrow> 's
    \<Rightarrow> unit outcome \<times> 's" where
  "logs_loop cdc c h nt flt current [] s = (Ok (), s)"
| "logs_loop cdc c h nt flt current (ContextDone # es) s = (Ok (), s)"
| "logs_loop cdc c h nt flt current (NotifierErr e # es) s = (Ok (), s)"
| "logs_loop cdc c h nt flt current (NewHead head # es) s =
     (case Do cdc c h ''eth_getLogs'' (JArr [enc_FilterQuery cdc (logs_query flt current head)]) s of
        (Panic m, s1) \<Rightarrow> (Panic m, s1)
      | (Err e, s1) \<Rightarrow> logs_loop cdc c h nt flt current es s1
      | (Ok (JArr ls), s1) \<Rightarrow> logs_loop cdc c h nt flt head es (send_logs nt ls s1)
      | (Ok _, s1) \<Rightarrow> logs_loop cdc c h nt flt current es s1)"

section \<open>Middleware\<close>

text \<open>What has been sent before a panic is lost with the connection.\<close>

definition finish_sub :: "'s heads \<Rightarrow> string \<Rightarrow> nat \<Rightarrow> reply \<Rightarrow> unit outcome \<times> 's \<Rightarrow> reply \<times> 's" where
  "finish_sub hs name sid rep res =
     (case res of (Panic m, s) \<Rightarrow> (Crash m, hs_done hs name sid s) | (_, s) \<Rightarrow> (rep, hs_done hs name sid s))"

definition sub_newHeads :: "codec \<Rightarrow> 's heads \<Rightarrow> 's notifier \<Rightarrow> sub_event list \<Rightarrow> Chain \<Rightarrow> u64 \<Rightarrow> 's handler \<Rightarrow> request \<Rightarrow> 's \<Rightarrow> reply \<times> 's" where
  "sub_newHeads cdc hs nt es chain current h r s =
     (case hs_On hs (ch_Name chain) s of (sid, s1) \<Rightarrow>
        finish_sub hs (ch_Name chain) sid (send_ok (AString (nt_ID nt)))
          (newHeads_loop cdc (rq_Ctx r) h nt current es s1))"

definition sub_logs :: "codec \<Rightarrow> 's heads \<Rightarrow> 's notifier \<Rightarrow> sub_event list \<Rightarrow> Chain \<Rightarrow> u64 \<Rightarrow> 's handler \<Rightarrow> json list \<Rightarrow> request \<Rightarrow> 's \<Rightarrow> reply \<times> 's" where
  "sub_logs cdc hs nt es chain current h params r s =
     (case params of
        [p] \<Rightarrow>
          (case dec_SubscriptionFilterQuery cdc p of
             Err e \<Rightarrow> (send_err (NewInvalidParamsError (error_text e)), s)
           | Panic m \<Rightarrow> (Crash m, s)
           | Ok flt \<Rightarrow>
               (case hs_On hs (ch_Name chain) s of (sid, s1) \<Rightarrow>
                  finish_sub hs (ch_Name chain) sid (send_ok (AString (nt_ID nt)))
                    (logs_loop cdc (rq_Ctx r) h nt flt current es s1)))
      | _ \<Rightarrow> (send_err (NewInvalidParamsError ''expected 1 parameter''), s))"

definition Subcenter_subscribe :: "codec \<Rightarrow> 's heads \<Rightarrow> 's notifier \<Rightarrow> sub_event list \<Rightarrow> 's middleware" where
  "Subcenter_subscribe cdc hs nt es h = (\<lambda>r s.
     case GetChain (rq_Ctx r) of
       Err e \<Rightarrow> (send_err e, s)
     | Panic m \<Rightarrow> (Crash m, s)
     | Ok chain \<Rightarrow>
         if \<not> ch_ParsedStalk chain then (send_err (NewInvalidRequestError ''chain does not support subscriptions''), s)
         else if \<not> ctx_Notifier (rq_Ctx r) then (send_err (Sentinel ErrNotificationsUnsupported), s)
         else
           (case unmarshal_raw dec_raws (rq_Params r) of
              Err e \<Rightarrow> (send_err e, s)
            | Panic m \<Rightarrow> (Crash m, s)
            | Ok [] \<Rightarrow> (send_err (NewInvalidParamsError ''expected at least one param''), s)
            | Ok (p # params) \<Rightarrow>
                (case dec_string p of
                   Err e \<Rightarrow> (send_err e, s)
                 | Panic m \<Rightarrow> (Crash m, s)
                 | Ok method \<Rightarrow>
                     (case hs_Get hs (ch_Name chain) s of
                        Err e \<Rightarrow> (send_err e, s)
                      | Panic m \<Rightarrow> (Crash m, s)
                      | Ok current \<Rightarrow>
                          if method = ''newHeads'' then sub_newHeads cdc hs nt es chain current h r s
                          else if method = ''logs'' then sub_logs cdc hs nt es chain current h params r s
                          else (send_err (NewInvalidRequestError ''unknown subscription method''), s)))))"

definition Subcenter_Middleware :: "codec \<Rightarrow> 's heads \<Rightarrow> 's notifier \<Rightarrow> sub_event list \<Rightarrow> 's middleware" where
  "Subcenter_Middleware cdc hs nt es h = (\<lambda>r s.
     if rq_Method r = ''eth_subscribe'' then Subcenter_subscribe cdc hs nt es h r s else h r s)"

section \<open>Lemmas\<close>

text \<open>The ranges of successive heads join up.\<close>

fun block_ranges :: "u64 \<Rightarrow> u64 list \<Rightarrow> u64 list" where
  "block_ranges current [] = []"
| "block_ranges current (h # hs) = block_range current h @ block_ranges h hs"

lemma upt_join: "i \<le> j \<Longrightarrow> j \<le> k \<Longrightarrow> [i..<j] @ [j..<k] = [i..<k]"
  using upt_add_eq_append [of i j "k - j"] by simp

lemma block_range_join:
  assumes "current \<le> head" and "head \<le> head'" and "head' < - 1"
  shows "block_range current head @ block_range head head' = block_range current head'"
proof -
  have h: "unat (x + 1) = unat x + 1" if "x < - 1" for x :: u64
  proof -
    have "1 + x \<noteq> 0" using that by (auto simp: add_eq_0_iff)
    then show ?thesis by (simp add: unatSuc add.commute)
  qed
  have "unat current \<le> unat head" "unat head \<le> unat head'"
    using assms by (simp_all add: word_le_nat_alt)
  moreover have "current < - 1" "head < - 1" using assms by auto
  ultimately show ?thesis
    using upt_join [of "unat current + 1" "unat head + 1" "unat head' + 1"] by (simp add: block_range_def h flip: map_append)
qed

lemma block_ranges_last:
  assumes "sorted (current # hs)" and "last (current # hs) < - 1"
  shows "block_ranges current hs = block_range current (last (current # hs))"
  using assms
proof (induction hs arbitrary: current)
  case Nil
  have "1 + current \<noteq> 0" using Nil by (auto simp: add_eq_0_iff)
  then show ?case by (simp add: block_range_def unatSuc add.commute)
next
  case (Cons h hs)
  have "h \<le> last (h # hs)" using Cons.prems by (cases hs) (auto intro: last_in_set)
  then show ?case
    using Cons block_range_join [of current h "last (h # hs)"] by simp
qed

text \<open>The numbers of a range, ascending.\<close>

lemma block_range_sorted:
  assumes "sorted (current # hs)" and "last (current # hs) < - 1"
  shows "sorted_wrt (<) (block_range current (last (current # hs))) \<and>
     (n \<in> set (block_range current (last (current # hs))) \<longleftrightarrow> current < n \<and> n \<le> last (current # hs))"
proof -
  let ?l = "last (current # hs)"
  have "current \<le> ?l" using assms(1) by (cases hs) (auto intro: last_in_set)
  then have "1 + current \<noteq> 0" using assms(2) by (auto simp: add_eq_0_iff)
  then have suc: "unat (current + 1) = unat current + 1" by (simp add: unatSuc add.commute)
  have lt: "unat (word_of_nat i :: u64) = i" if "i < unat ?l + 1" for i
  proof -
    have "unat ?l < 2 ^ 64" using unsigned_less [where 'a = nat and 'b = 64, of ?l] by simp
    then have "i < 2 ^ 64" using that by simp
    then show ?thesis by (simp add: unsigned_of_nat take_bit_nat_eq_self)
  qed
  have "sorted_wrt (\<lambda>i k. (word_of_nat i :: u64) < word_of_nat k) [unat (current + 1)..<unat ?l + 1]"
    by (rule sorted_wrt_mono_rel [OF _ sorted_wrt_upt]) (auto simp: word_less_nat_alt lt)
  moreover have "n \<in> set (block_range current ?l) \<longleftrightarrow> current < n \<and> n \<le> ?l"
  proof
    assume "current < n \<and> n \<le> ?l"
    then have "unat n \<in> {unat (current + 1)..<unat ?l + 1}" using suc by (auto simp: word_less_nat_alt word_le_nat_alt)
    then have "word_of_nat (unat n) \<in> set (block_range current ?l)" unfolding block_range_def set_map set_upt by (rule imageI)
    then show "n \<in> set (block_range current ?l)" by simp
  qed (auto simp: block_range_def suc word_less_nat_alt word_le_nat_alt lt)
  ultimately show ?thesis by (simp add: block_range_def sorted_wrt_map)
qed

lemma subseq_set: "subseq xs ys \<Longrightarrow> set xs \<subseteq> set ys"
  by (induction rule: list_emb.induct) auto

lemma sorted_wrt_subseq: "subseq xs ys \<Longrightarrow> sorted_wrt P ys \<Longrightarrow> sorted_wrt P xs"
  by (induction rule: list_emb.induct) (auto dest!: subseq_set)

text \<open>
  What a subscription may meet: fetching a block does not panic, does not touch the record of
  notifications \<open>c\<close>, and yields the block, an error, or something that is no block; the blocks in \<open>sure\<close>
  can always be had. A notifier records what it delivers and may fail.
\<close>

definition fetches_blocks :: "codec \<Rightarrow> ctx \<Rightarrow> 's handler \<Rightarrow> (u64 \<Rightarrow> (string \<times> json) list) \<Rightarrow> u64 set \<Rightarrow> ('s, json list) cell \<Rightarrow> bool" where
  "fetches_blocks cdc x h blk sure c \<longleftrightarrow>
     (\<forall>i s. \<exists>v s1. Do cdc x h ''eth_getBlockByNumber'' (JArr [JStr (EncodeUint64 cdc i), JBool False]) s = (v, s1) \<and> rd c s1 = rd c s \<and>
        (v = Ok (JObj (blk i)) \<or> i \<notin> sure \<and> ((\<exists>e. v = Err e) \<or> (\<exists>b. v = Ok b \<and> (\<forall>fs. b \<noteq> JObj fs)))))"

definition header_of :: "(string \<times> json) list \<Rightarrow> json" where
  "header_of fs = JObj (filter (\<lambda>(k, v). k \<noteq> ''transactions'') fs)"

definition records :: "'s notifier \<Rightarrow> ('s, json list) cell \<Rightarrow> bool" where
  "records nt c \<longleftrightarrow> (\<forall>j s. rd c (snd (nt_Notify nt j s)) = (if fst (nt_Notify nt j s) = None then rd c s @ [j] else rd c s))"

definition never_fails :: "'s notifier \<Rightarrow> bool" where
  "never_fails nt \<longleftrightarrow> (\<forall>j s. fst (nt_Notify nt j s) = None)"

definition recording :: "string \<Rightarrow> ('s, json list) cell \<Rightarrow> 's notifier" where
  "recording sid c = \<lparr>nt_ID = sid, nt_Notify = (\<lambda>j s. (None, upd c (\<lambda>l. l @ [j]) s))\<rparr>"

lemma recording_records: "mem_cell c \<Longrightarrow> records (recording sid c) c" "never_fails (recording sid c)"
  by (simp_all add: records_def never_fails_def recording_def mem_cell.rd_upd)

text \<open>The blocks that were delivered: some of those asked for, in order, the sure ones among them.\<close>

definition delivered :: "(u64 \<Rightarrow> (string \<times> json) list) \<Rightarrow> u64 set \<Rightarrow> 's notifier \<Rightarrow> u64 list \<Rightarrow> json list \<Rightarrow> json list \<Rightarrow> bool" where
  "delivered blk sure nt is old new \<longleftrightarrow>
     (\<exists>js. new = old @ map (header_of \<circ> blk) js \<and> subseq js is \<and> (never_fails nt \<longrightarrow> set is \<inter> sure \<subseteq> set js))"

lemma delivered_append:
  "delivered blk sure nt is old mid \<Longrightarrow> delivered blk sure nt ks mid new \<Longrightarrow> delivered blk sure nt (is @ ks) old new"
  unfolding delivered_def
proof (elim exE conjE)
  fix js ls
  assume "mid = old @ map (header_of \<circ> blk) js" "subseq js is" "never_fails nt \<longrightarrow> set is \<inter> sure \<subseteq> set js"
    "new = mid @ map (header_of \<circ> blk) ls" "subseq ls ks" "never_fails nt \<longrightarrow> set ks \<inter> sure \<subseteq> set ls"
  then show "\<exists>js. new = old @ map (header_of \<circ> blk) js \<and> subseq js (is @ ks) \<and> (never_fails nt \<longrightarrow> set (is @ ks) \<inter> sure \<subseteq> set js)"
    by (intro exI [of _ "js @ ls"]) (auto simp: list_emb_append_mono)
qed

lemma delivered_one:
  "delivered blk sure nt [i] old (old @ [header_of (blk i)])" "i \<notin> sure \<Longrightarrow> delivered blk sure nt [i] old old"
  "\<not> never_fails nt \<Longrightarrow> delivered blk sure nt is old old"
  by (auto simp: delivered_def intro: exI [of _ "[i]"] exI [of _ "[]"])

lemma delivered_Cons:
  "delivered blk sure nt [i] old mid \<Longrightarrow> delivered blk sure nt is mid new \<Longrightarrow> delivered blk sure nt (i # is) old new"
  using delivered_append [of blk sure nt "[i]" old mid "is" new] by simp

lemma send_blocks_delivers:
  assumes "fetches_blocks cdc x h blk sure c" and "records nt c"
  shows "\<exists>s'. send_blocks cdc x h nt is s = (Ok (), s') \<and> delivered blk sure nt is (rd c s) (rd c s')"
proof (induction "is" arbitrary: s)
  case Nil
  then show ?case by (auto simp: delivered_def)
next
  case (Cons i "is")
  obtain v s1 where v: "Do cdc x h ''eth_getBlockByNumber'' (JArr [JStr (EncodeUint64 cdc i), JBool False]) s = (v, s1)" "rd c s1 = rd c s"
      "v = Ok (JObj (blk i)) \<or> i \<notin> sure \<and> ((\<exists>e. v = Err e) \<or> (\<exists>b. v = Ok b \<and> (\<forall>fs. b \<noteq> JObj fs)))"
    using assms(1) unfolding fetches_blocks_def by metis
  from v(3) show ?case
  proof (elim disjE conjE)
    assume ok: "v = Ok (JObj (blk i))"
    obtain e s2 where e: "nt_Notify nt (header_of (blk i)) s1 = (e, s2)" by fastforce
    have rec: "rd c s2 = (if e = None then rd c s @ [header_of (blk i)] else rd c s)"
      using assms(2) e v(2) unfolding records_def by (metis fst_conv snd_conv)
    show ?thesis
    proof (cases e)
      case None
      obtain s' where "send_blocks cdc x h nt is s2 = (Ok (), s')" "delivered blk sure nt is (rd c s @ [header_of (blk i)]) (rd c s')"
        using Cons.IH [of s2] rec None by auto
      moreover from this(2) have "delivered blk sure nt (i # is) (rd c s) (rd c s')" by (rule delivered_Cons [OF delivered_one(1)])
      ultimately show ?thesis using v(1) ok e None by (intro exI [of _ s']) (simp add: header_of_def)
    next
      case (Some err)
      then have "\<not> never_fails nt" using e unfolding never_fails_def by (metis fst_conv option.distinct(1))
      then show ?thesis using v(1) ok e Some rec delivered_one(3) by (simp add: header_of_def)
    qed
  next
    assume n: "i \<notin> sure" "\<exists>e. v = Err e"
    obtain s' where "send_blocks cdc x h nt is s1 = (Ok (), s')" "delivered blk sure nt is (rd c s) (rd c s')" using Cons.IH [of s1] v(2) by auto
    moreover from this(2) have "delivered blk sure nt (i # is) (rd c s) (rd c s')" by (rule delivered_Cons [OF delivered_one(2) [OF n(1)]])
    ultimately show ?thesis using v(1) n(2) by (intro exI [of _ s']) auto
  next
    assume n: "i \<notin> sure" "\<exists>b. v = Ok b \<and> (\<forall>fs. b \<noteq> JObj fs)"
    then obtain b where nb: "v = Ok b" "\<forall>fs. b \<noteq> JObj fs" by (elim exE conjE)
    then have b: "v = Ok b" "removeTransactions b = Err json_type_error" by (cases b; simp)+
    obtain s' where "send_blocks cdc x h nt is s1 = (Ok (), s')" "delivered blk sure nt is (rd c s) (rd c s')" using Cons.IH [of s1] v(2) by auto
    moreover from this(2) have "delivered blk sure nt (i # is) (rd c s) (rd c s')" by (rule delivered_Cons [OF delivered_one(2) [OF n(1)]])
    ultimately show ?thesis using v(1) b by (intro exI [of _ s']) simp
  qed
qed

lemma newHeads_delivers:
  assumes "fetches_blocks cdc x h blk sure c" and "records nt c"
  shows "\<exists>s'. newHeads_loop cdc x h nt current (map NewHead hs) s = (Ok (), s') \<and>
     delivered blk sure nt (block_ranges current hs) (rd c s) (rd c s')"
proof (induction hs arbitrary: current s)
  case Nil
  then show ?case by (simp add: delivered_def)
next
  case (Cons head hs)
  obtain s1 where s1: "send_blocks cdc x h nt (block_range current head) s = (Ok (), s1)"
      "delivered blk sure nt (block_range current head) (rd c s) (rd c s1)"
    using send_blocks_delivers [OF assms] by blast
  obtain s' where "newHeads_loop cdc x h nt head (map NewHead hs) s1 = (Ok (), s')" "delivered blk sure nt (block_ranges head hs) (rd c s1) (rd c s')"
    using Cons.IH by blast
  then show ?case using s1 delivered_append [OF s1(2)] by auto
qed

section \<open>Properties\<close>

text \<open>
  C35: A subscription to new heads never delivers a block twice, out of order, or outside the range
  from the head it knew when it started to the last head it saw, whichever fetches and notifications
  fail on the way; it does not end on a failure, and what it delivers are the headers of the blocks
  without their transactions. When no notification fails it delivers every block that can always be
  fetched, also of heads that the head store skipped. The heads do not go back, and fetching does not
  panic.
\<close>

theorem new_heads_delivered_once:
  assumes "fetches_blocks cdc x h blk sure c" and "records nt c" and "sorted (current # hs)" and "last (current # hs) < - 1"
  shows "\<exists>s' ns. newHeads_loop cdc x h nt current (map NewHead hs) s = (Ok (), s') \<and>
     rd c s' = rd c s @ map (\<lambda>n. header_of (blk n)) ns \<and>
     sorted_wrt (<) ns \<and> (\<forall>n \<in> set ns. current < n \<and> n \<le> last (current # hs)) \<and>
     (never_fails nt \<longrightarrow> (\<forall>n. current < n \<and> n \<le> last (current # hs) \<and> n \<in> sure \<longrightarrow> n \<in> set ns))"
proof -
  let ?is = "block_range current (last (current # hs))"
  have range: "sorted_wrt (<) ?is" "n \<in> set ?is \<longleftrightarrow> current < n \<and> n \<le> last (current # hs)" for n
    using block_range_sorted [OF assms(3,4)] by blast+
  obtain s' js where js: "newHeads_loop cdc x h nt current (map NewHead hs) s = (Ok (), s')" "rd c s' = rd c s @ map (header_of \<circ> blk) js"
      "subseq js ?is" "never_fails nt \<longrightarrow> set ?is \<inter> sure \<subseteq> set js"
    using newHeads_delivers [OF assms(1,2), of current hs s] block_ranges_last [OF assms(3,4)] by (auto simp: delivered_def)
  have "sorted_wrt (<) js" using js(3) range(1) by (rule sorted_wrt_subseq)
  moreover have "set js \<subseteq> set ?is" using js(3) by (rule subseq_set)
  ultimately show ?thesis using js range(2) by (intro exI [of _ s'] exI [of _ js]) (auto simp: o_def)
qed

theorem new_heads_delivered_once_witness:
  "\<exists>s' ns. newHeads_loop eth_codec Background (\<lambda>r s. (send_ok (ARaw (JObj [])), s)) (recording ''0x1'' own_cell) 3 (map NewHead [4, 6]) [] = (Ok (), s') \<and>
     s' = map (\<lambda>n. JObj []) ns \<and> sorted_wrt (<) ns \<and> (4 :: u64) \<in> set ns \<and> 5 \<in> set ns \<and> 6 \<in> set ns"
proof -
  have "fetches_blocks eth_codec Background (\<lambda>r s. (send_ok (ARaw (JObj [])), s)) (\<lambda>_. []) UNIV own_cell"
    by (simp add: fetches_blocks_def Do_def serve_icept_eq send_ok_def)
  from new_heads_delivered_once [OF this recording_records(1) [OF own_cell_ok], of 3 "[4, 6]" "''0x1''" "[]"]
  obtain s' ns where run: "newHeads_loop eth_codec Background (\<lambda>r s. (send_ok (ARaw (JObj [])), s)) (recording ''0x1'' own_cell) 3 (map NewHead [4, 6]) [] = (Ok (), s')"
      "rd own_cell s' = rd own_cell [] @ map (\<lambda>n. header_of []) ns" "sorted_wrt (<) ns"
      and all: "never_fails (recording ''0x1'' (own_cell :: (json list, json list) cell)) \<longrightarrow> (\<forall>n. 3 < n \<and> n \<le> last [3, 4, 6 :: u64] \<and> n \<in> UNIV \<longrightarrow> n \<in> set ns)"
    by auto
  have "4 \<in> set ns" "5 \<in> set ns" "6 \<in> set ns" using all recording_records(2) by auto
  moreover have "s' = map (\<lambda>n. JObj []) ns" using run(2) by (simp add: own_cell_def header_of_def)
  ultimately show ?thesis using run(1,3) by (intro exI [of _ s'] exI [of _ ns] conjI)
qed

end
