(* ===== verification/Venn_Ratelimit.thy ===== *)
theory Venn_Ratelimit
  imports Venn_Util
begin

text \<open>
  \<open>lib/ratelimit/identifier.go\<close>: who a request is counted for, and the middleware that asks the
  Redis rate limiter. \<open>allowN\<close> is the limiter: whether the request is allowed and when the window
  is reset. The identifiers the node and the gateway give to a request (\<open>svc/app\<close>) are here too.
\<close>

definition Identifier_Key :: "Identifier \<Rightarrow> string" where
  "Identifier_Key i = id_Endpoint i @ '':'' @ id_Type i @ '':'' @ id_Slug i"

definition IdentifierFromContext :: "ctx \<Rightarrow> Identifier outcome" where
  "IdentifierFromContext c = (case ctx_Identifier c of None \<Rightarrow> Err (Sentinel ErrNoIdentifier) | Some i \<Rightarrow> Ok i)"

text \<open>\<open>idFunc\<close> may change the address of the peer in the request.\<close>

definition WithIdentifier :: "(request \<Rightarrow> Identifier option outcome \<times> request) \<Rightarrow> 's middleware" where
  "WithIdentifier idFunc next = (\<lambda>r s.
     case idFunc r of
       (Err e, _) \<Rightarrow> (send_err e, s)
     | (Panic m, _) \<Rightarrow> (Crash m, s)
     | (Ok i, r1) \<Rightarrow>
         let ident = (case i of None \<Rightarrow> \<lparr>id_Endpoint = [], id_Type = ''nil'', id_Slug = ''nil'', id_ExtraCost = 0\<rparr> | Some x \<Rightarrow> x)
         in next (r1\<lparr>rq_Ctx := (rq_Ctx r1)\<lparr>ctx_Identifier := Some ident\<rparr>\<rparr>) s)"

definition ratelimit_hit :: gerror where
  "ratelimit_hit = JsonError 429 ''Rate Limit Hit''"

definition ratelimit_failed :: gerror where
  "ratelimit_failed = JsonError 500 ''Internal Server Error''"

definition RuedisRatelimiter :: "(string \<Rightarrow> int \<Rightarrow> 's \<Rightarrow> (bool \<times> int) outcome \<times> 's) \<Rightarrow> 's middleware" where
  "RuedisRatelimiter allowN next = (\<lambda>r s.
     case IdentifierFromContext (rq_Ctx r) of
       Err e \<Rightarrow> (send_err e, s)
     | Panic m \<Rightarrow> (Crash m, s)
     | Ok i \<Rightarrow>
         (case allowN (Identifier_Key i) (wrap64 (1 + id_ExtraCost i)) s of
            (Err e, s1) \<Rightarrow> (send_err ratelimit_failed, s1)
          | (Panic m, s1) \<Rightarrow> (Crash m, s1)
          | (Ok (allowed, resetAt), s1) \<Rightarrow> if \<not> allowed then (send_err ratelimit_hit, s1) else next r s1))"

section \<open>The identifiers of the node and of the gateway\<close>

text \<open>\<open>svc/app/node/api.go\<close>: the condition on the error is the wrong way round.\<close>

definition node_identifier :: "request \<Rightarrow> Identifier option outcome \<times> request" where
  "node_identifier r =
     (let slug = (case SplitHostPort (rq_RemoteAddr r) of Some _ \<Rightarrow> rq_RemoteAddr r | None \<Rightarrow> [])
      in (Ok (Some \<lparr>id_Endpoint = ''venn$internal'', id_Type = ''ip'', id_Slug = slug, id_ExtraCost = 0\<rparr>), r))"

text \<open>\<open>svc/app/gateway/api.go\<close>.\<close>

definition gateway_identifier :: "request \<Rightarrow> Identifier option outcome \<times> request" where
  "gateway_identifier r =
     (case GetEndpointSpec (rq_Ctx r) of
        Err e \<Rightarrow> (Err e, r)
      | Panic m \<Rightarrow> (Panic m, r)
      | Ok endpoint \<Rightarrow>
          let r1 = (case rq_HTTPRemoteAddr r of None \<Rightarrow> r | Some a \<Rightarrow> r\<lparr>rq_RemoteAddr := a\<rparr>);
              slug = (case SplitHostPort (rq_RemoteAddr r1) of Some (host, _) \<Rightarrow> host | None \<Rightarrow> rq_RemoteAddr r1)
          in (Ok (Some \<lparr>id_Endpoint = ep_Name endpoint, id_Type = ''ip'', id_Slug = slug, id_ExtraCost = 0\<rparr>), r1))"

text \<open>The key under which a request is counted.\<close>

definition limit_key :: "(request \<Rightarrow> Identifier option outcome \<times> request) \<Rightarrow> request \<Rightarrow> string option" where
  "limit_key idFunc r = (case fst (idFunc r) of Ok (Some i) \<Rightarrow> Some (Identifier_Key i) | _ \<Rightarrow> None)"

section \<open>Lemmas\<close>

lemma gateway_key:
  "GetEndpointSpec (rq_Ctx r) = Ok e \<Longrightarrow>
   limit_key gateway_identifier r = Some (ep_Name e @ '':ip:'' @
     HostFromRemoteAddr (case rq_HTTPRemoteAddr r of None \<Rightarrow> rq_RemoteAddr r | Some a \<Rightarrow> a))"
  by (auto simp: limit_key_def gateway_identifier_def Let_def Identifier_Key_def HostFromRemoteAddr_def split: option.splits)

lemma node_key:
  "limit_key node_identifier r = Some (''venn$internal:ip:'' @ (if SplitHostPort (rq_RemoteAddr r) = None then [] else rq_RemoteAddr r))"
  by (auto simp: limit_key_def node_identifier_def Let_def Identifier_Key_def split: option.splits)

section \<open>Properties\<close>

text \<open>
  The gateway counts requests per endpoint and host: two requests for one endpoint have the same
  key exactly when they come from the same host, whatever their ports.
\<close>

theorem gateway_limits_per_host:
  assumes "GetEndpointSpec (rq_Ctx r) = Ok e" and "GetEndpointSpec (rq_Ctx q) = Ok e"
    and "rq_HTTPRemoteAddr r = Some a" and "rq_HTTPRemoteAddr q = Some b"
  shows "limit_key gateway_identifier r = limit_key gateway_identifier q \<longleftrightarrow> HostFromRemoteAddr a = HostFromRemoteAddr b"
  using assms by (simp add: gateway_key)

definition demo_peer :: "string \<Rightarrow> request" where
  "demo_peer a = (NewRequest (WithEndpointSpec Background \<lparr>ep_Name = ''main'', ep_Paths = [], ep_Abuse = [], ep_Usage = [],
     ep_Methods = [], ep_VennUrl = []\<rparr>) ''eth_chainId'' (JArr []))\<lparr>rq_HTTPRemoteAddr := Some a, rq_RemoteAddr := a\<rparr>"

theorem gateway_limits_per_host_witness:
  "limit_key gateway_identifier (demo_peer ''10.0.0.1:80'') = limit_key gateway_identifier (demo_peer ''10.0.0.1:81'')"
proof -
  let ?e = "\<lparr>ep_Name = ''main'', ep_Paths = [], ep_Abuse = [], ep_Usage = [], ep_Methods = [], ep_VennUrl = []\<rparr>"
  have "HostFromRemoteAddr ''10.0.0.1:80'' = HostFromRemoteAddr ''10.0.0.1:81''" by code_simp
  then show ?thesis
    using gateway_limits_per_host [of "demo_peer ''10.0.0.1:80''" ?e "demo_peer ''10.0.0.1:81''" "''10.0.0.1:80''" "''10.0.0.1:81''"]
    by (simp add: demo_peer_def NewRequest_def WithEndpointSpec_def GetEndpointSpec_def)
qed

text \<open>
  The node counts requests per connection, not per host: requests from two ports of one host have
  different keys, so a client gets a fresh allowance with every connection, and all requests
  whose address does not parse share one key.
\<close>

theorem node_limits_per_connection:
  assumes "SplitHostPort (rq_RemoteAddr r) = Some (host, p)" and "SplitHostPort (rq_RemoteAddr q) = Some (host, p')"
    and "rq_RemoteAddr r \<noteq> rq_RemoteAddr q"
  shows "limit_key node_identifier r \<noteq> limit_key node_identifier q"
  using assms by (simp add: node_key)

theorem node_limits_per_connection_witness:
  "limit_key node_identifier (demo_peer ''10.0.0.1:80'') \<noteq> limit_key node_identifier (demo_peer ''10.0.0.1:81'')"
proof -
  have "SplitHostPort ''10.0.0.1:80'' = Some (''10.0.0.1'', ''80'')" "SplitHostPort ''10.0.0.1:81'' = Some (''10.0.0.1'', ''81'')"
    by code_simp+
  then show ?thesis by (intro node_limits_per_connection) (simp_all add: demo_peer_def)
qed

text \<open>A request over the limit does not reach the next handler.\<close>

lemma ratelimit_refuses:
  assumes "IdentifierFromContext (rq_Ctx r) = Ok i" and "allowN (Identifier_Key i) (wrap64 (1 + id_ExtraCost i)) s = (Ok (False, t), s1)"
  shows "RuedisRatelimiter allowN next r s = (send_err ratelimit_hit, s1)"
  using assms by (simp add: RuedisRatelimiter_def)

end
