(* ===== verification/Venn_Config.thy ===== *)
theory Venn_Config
  imports Venn_Util
begin

text \<open>
  The configuration files (\<open>lib/config\<close>): what happens to a configuration after the YAML library has
  decoded it. \<open>ParseNodeConfig\<close> fills in defaults and resolves the named filters, the node parser
  builds the table of chains, the gateway parser checks the limits, and both choose how to log.
  The environment of the process is a function from names to values (empty when unset). The lists of
  a decoded configuration have no null entries; on one of those the parser panics.
\<close>

type_synonym environ = "string \<Rightarrow> string"

section \<open>os.ExpandEnv\<close>

definition isShellSpecialVar :: "char \<Rightarrow> bool" where
  "isShellSpecialVar c \<longleftrightarrow> c \<in> set ''*#$@!?-0123456789''"

definition isAlphaNum :: "char \<Rightarrow> bool" where
  "isAlphaNum c \<longleftrightarrow> c = CHR ''_'' \<or> (48 \<le> code c \<and> code c \<le> 57) \<or> (97 \<le> code c \<and> code c \<le> 122) \<or> (65 \<le> code c \<and> code c \<le> 90)"

text \<open>The name at the start of a non-empty text, and how many characters it takes.\<close>

fun getShellName :: "string \<Rightarrow> string \<times> nat" where
  "getShellName s =
     (if s = [] then ([], 0)
      else if hd s = CHR ''{'' then
        (if 2 < length s \<and> isShellSpecialVar (s ! 1) \<and> s ! 2 = CHR ''}'' then ([s ! 1], 3)
         else let body = takeWhile (\<lambda>c. c \<noteq> CHR ''}'') (tl s) in
           if length body = length (tl s) then ([], 1)
           else if body = [] then ([], 2)
           else (body, length body + 2))
      else if isShellSpecialVar (hd s) then ([hd s], 1)
      else let w = takeWhile isAlphaNum s in (w, length w))"

declare getShellName.simps [simp del]

function ExpandEnv :: "environ \<Rightarrow> string \<Rightarrow> string" where
  "ExpandEnv env [] = []"
| "ExpandEnv env (c # s) =
     (if c = CHR ''$'' \<and> s \<noteq> [] then
        (case getShellName s of (name, w) \<Rightarrow>
           (if name = [] \<and> 0 < w then [] else if name = [] then [c] else env name) @ ExpandEnv env (drop w s))
      else c # ExpandEnv env s)"
  by pat_completeness auto

termination
  by (relation "measure (\<lambda>(env, s). length s)") auto

section \<open>Text types (util.go, duration.go, url.go, regex.go)\<close>

definition EnvExpandable_UnmarshalJSON :: "environ \<Rightarrow> json \<Rightarrow> string outcome" where
  "EnvExpandable_UnmarshalJSON env j = outcome_bind (dec_string j) (\<lambda>s. Ok (ExpandEnv env s))"

definition EnvExpandable_MarshalJSON :: "string \<Rightarrow> json" where
  "EnvExpandable_MarshalJSON s = JStr s"

definition EnvExpandable_MarshalText :: "string option \<Rightarrow> string" where
  "EnvExpandable_MarshalText t = (case t of None \<Rightarrow> ''<nil>'' | Some s \<Rightarrow> s)"

text \<open>A parsed URL: its scheme, its host, and its text. \<open>parse\<close> is \<open>url.Parse\<close>.\<close>

record URL =
  url_Scheme :: string
  url_Host :: string
  url_String :: string

definition SafeUrl_UnmarshalJSON :: "(string \<Rightarrow> URL outcome) \<Rightarrow> environ \<Rightarrow> json \<Rightarrow> string outcome" where
  "SafeUrl_UnmarshalJSON parse env j =
     outcome_bind (EnvExpandable_UnmarshalJSON env j) (\<lambda>s. outcome_bind (parse s) (\<lambda>u. Ok (url_String u)))"

text \<open>The text form, used in logs, leaves out the credentials and the path.\<close>

definition SafeUrl_MarshalText :: "(string \<Rightarrow> URL outcome) \<Rightarrow> string option \<Rightarrow> string outcome" where
  "SafeUrl_MarshalText parse u =
     (case u of
        None \<Rightarrow> Ok ''<nil>''
      | Some s \<Rightarrow> outcome_bind (parse s) (\<lambda>u. Ok (url_Scheme u @ ''://'' @ url_Host u)))"

definition SafeUrl_MarshalJSON :: "string \<Rightarrow> json" where
  "SafeUrl_MarshalJSON u = JStr u"

definition Duration_UnmarshalJSON :: "(string \<Rightarrow> int outcome) \<Rightarrow> json \<Rightarrow> int outcome" where
  "Duration_UnmarshalJSON parse j = outcome_bind (dec_string j) parse"

definition Duration_MarshalJSON :: "(int \<Rightarrow> string) \<Rightarrow> int \<Rightarrow> json" where
  "Duration_MarshalJSON duration_String d = JStr (duration_String d)"

text \<open>\<open>Compile\<close> of the regular expressions.\<close>

definition Regexp_UnmarshalText :: "(string \<Rightarrow> 're outcome) \<Rightarrow> string \<Rightarrow> 're outcome" where
  "Regexp_UnmarshalText compile b = outcome_bind (compile b) Ok"

text \<open>A URL without placeholders that its parser prints as it was is read back from its JSON form.\<close>

lemma safe_url_round_trip:
  "ExpandEnv env u = u \<Longrightarrow> parse u = Ok v \<Longrightarrow> url_String v = u \<Longrightarrow> SafeUrl_UnmarshalJSON parse env (SafeUrl_MarshalJSON u) = Ok u"
  by (simp add: SafeUrl_UnmarshalJSON_def SafeUrl_MarshalJSON_def EnvExpandable_UnmarshalJSON_def)

lemma duration_round_trip:
  "parse (duration_String d) = Ok d \<Longrightarrow> Duration_UnmarshalJSON parse (Duration_MarshalJSON duration_String d) = Ok d"
  by (simp add: Duration_UnmarshalJSON_def Duration_MarshalJSON_def)

definition URL_UnmarshalJSON :: "(string \<Rightarrow> URL outcome) \<Rightarrow> json \<Rightarrow> URL outcome" where
  "URL_UnmarshalJSON parse j = outcome_bind (dec_string j) parse"

section \<open>Configuration of a node (parse_node.go)\<close>

record Redis =
  rdc_URI :: string
  rdc_Cluster :: "string list"
  rdc_Namespace :: string

record Logging =
  lgc_Format :: string
  lgc_Level :: int

record NodeConfig =
  nc_Bind :: string
  nc_Logging :: Logging
  nc_Strategy :: string
  nc_Redis :: Redis
  nc_Ratelimit :: "AbuseLimit option"
  nc_Chains :: "Chain list"
  nc_Filters :: "Filter list"

text \<open>A duration that was left out gets its default.\<close>

definition default_duration :: "int \<Rightarrow> int \<Rightarrow> int" where
  "default_duration fallback d = (if d = 0 then fallback else d)"

text \<open>The filters that the presets name, in the order of the presets.\<close>

definition resolve_filters :: "Filter list \<Rightarrow> string list \<Rightarrow> Filter list" where
  "resolve_filters filters presets = concat (map (\<lambda>preset. filter (\<lambda>f. preset = flt_Name f) filters) presets)"

definition parse_remote :: "environ \<Rightarrow> Filter list \<Rightarrow> Remote \<Rightarrow> Remote" where
  "parse_remote env filters v =
     v\<lparr>rem_Headers := map (\<lambda>(k, x). (k, ExpandEnv env x)) (rem_Headers v),
       rem_HealthCheckIntervalMin := default_duration (60 * Second) (rem_HealthCheckIntervalMin v),
       rem_HealthCheckIntervalMax := default_duration (3600 * Second) (rem_HealthCheckIntervalMax v),
       rem_RateLimitBackoff := default_duration (5 * Second) (rem_RateLimitBackoff v),
       rem_ErrorBackoffMin := default_duration (5 * Second) (rem_ErrorBackoffMin v),
       rem_ErrorBackoffMax := default_duration (5 * Second) (rem_ErrorBackoffMax v),
       rem_ParsedFilters := resolve_filters filters (rem_Filters v)\<rparr>"

definition health_name :: gerror where
  "health_name = ErrorText (''chain name cannot be '' @ quoted ''health'')"

definition parse_chain :: "environ \<Rightarrow> Filter list \<Rightarrow> Chain \<Rightarrow> Chain outcome" where
  "parse_chain env filters v =
     outcome_bind (CoaFunc (\<lambda>b. Ok (the b)) None (ch_Stalk v) True) (\<lambda>stalk.
       if ch_Remotes v \<noteq> [] \<and> ch_Name v = ''health'' then Err health_name
       else Ok (v\<lparr>ch_ParsedStalk := stalk, ch_Remotes := map (parse_remote env filters) (ch_Remotes v)\<rparr>))"

definition parse_ratelimit :: "AbuseLimit \<Rightarrow> AbuseLimit" where
  "parse_ratelimit l = l\<lparr>al_Total := Coa 0 (al_Total l) 2000, al_Window := Coa 0 (al_Window l) (10 * Second)\<rparr>"

definition ParseNodeConfig :: "NodeConfig outcome \<Rightarrow> environ \<Rightarrow> NodeConfig outcome" where
  "ParseNodeConfig decoded env =
     outcome_bind decoded (\<lambda>c.
       let redis = nc_Redis c;
           c1 = c\<lparr>nc_Redis := redis\<lparr>rdc_Namespace := Coa [] (rdc_Namespace redis) ''venn-undefined'',
                                     rdc_URI := Coa [] (rdc_URI redis) ''embedded''\<rparr>,
                  nc_Ratelimit := map_option parse_ratelimit (nc_Ratelimit c)\<rparr>
       in outcome_bind (map_outcome (parse_chain env (nc_Filters c1)) (nc_Chains c1)) (\<lambda>chs.
            Ok (c1\<lparr>nc_Chains := chs\<rparr>)))"

text \<open>The table of chains, with the names and aliases seen so far.\<close>

fun add_aliases :: "string list \<Rightarrow> string set \<Rightarrow> string set outcome" where
  "add_aliases [] endpoints = Ok endpoints"
| "add_aliases (a # as) endpoints =
     (if a \<in> endpoints then Err (ErrorText (''chain alias conflict: '' @ a)) else add_aliases as (insert a endpoints))"

fun chain_table :: "Chain list \<Rightarrow> string set \<Rightarrow> (string \<times> Chain) list \<Rightarrow> (string \<times> Chain) list outcome" where
  "chain_table [] endpoints tab = Ok tab"
| "chain_table (v # vs) endpoints tab =
     (if map_of tab (ch_Name v) \<noteq> None then Err (ErrorText (''chain name conflict: '' @ ch_Name v))
      else outcome_bind (add_aliases (ch_Aliases v) (insert (ch_Name v) endpoints)) (\<lambda>endpoints'.
        chain_table vs endpoints' (tab @ [(ch_Name v, v)])))"

section \<open>Logging\<close>

text \<open>\<open>isContainerEnvironment\<close>: the marker file, the control group of the first process, Kubernetes.\<close>

definition isContainerEnvironment :: "bool \<Rightarrow> string option \<Rightarrow> environ \<Rightarrow> bool" where
  "isContainerEnvironment dockerenv cgroup env \<longleftrightarrow>
     dockerenv \<or>
     (\<exists>data \<in> set_option cgroup. str_contains data ''docker'' \<or> str_contains data ''containerd'' \<or>
        str_contains data ''kubepods'' \<or> str_contains data ''lxc'') \<or>
     env ''KUBERNETES_SERVICE_HOST'' \<noteq> []"

datatype log_handler = JSONHandler int | TintHandler int

text \<open>\<open>slog.LevelDebug\<close> is -4.\<close>

definition log_choice :: "bool \<Rightarrow> environ \<Rightarrow> Logging \<Rightarrow> log_handler" where
  "log_choice container env cfg =
     (let level = (if to_lower (env ''SLOG_LEVEL'') \<in> {''debug'', ''0''} then - 4 else lgc_Level cfg);
          f0 = (if env ''SLOG_FORMAT'' \<noteq> [] then env ''SLOG_FORMAT'' else lgc_Format cfg);
          f1 = (if f0 = [] then (if container then ''json'' else ''tint'') else f0)
      in if f1 = ''json'' then JSONHandler level else TintHandler level)"

record NodeConfigResult =
  nr_Config :: NodeConfig
  nr_Chains :: "(string \<times> Chain) list"
  nr_Remotes :: "Remote list"
  nr_Log :: log_handler

text \<open>\<open>read\<close> is the content of the file as the YAML library decodes it, or the error of reading it.\<close>

definition NodeFileParser :: "NodeConfig outcome \<Rightarrow> bool \<Rightarrow> environ \<Rightarrow> NodeConfigResult outcome" where
  "NodeFileParser read container env =
     outcome_bind (ParseNodeConfig read env) (\<lambda>cfg.
     outcome_bind (chain_table (nc_Chains cfg) {} []) (\<lambda>tab.
       Ok \<lparr>nr_Config = cfg, nr_Chains = tab, nr_Remotes = concat (map ch_Remotes (nc_Chains cfg)),
           nr_Log = log_choice container env (nc_Logging cfg)\<rparr>))"

section \<open>Configuration of a gateway (parse_gateway.go)\<close>

record Security =
  sec_TrustedOrigins :: "string list"
  sec_TrustedIpHeaders :: "string list"
  sec_AllowedOrigins :: "string list"
  sec_CorsEnabled :: bool
  sec_CorsAllowedMethods :: "string list"
  sec_CorsAllowedHeaders :: "string list"
  sec_CorsExposeHeaders :: "string list"
  sec_CorsAllowCredentials :: bool
  sec_CorsMaxAge :: int

definition Security_zero :: Security where
  "Security_zero = \<lparr>sec_TrustedOrigins = [], sec_TrustedIpHeaders = [], sec_AllowedOrigins = [], sec_CorsEnabled = False,
     sec_CorsAllowedMethods = [], sec_CorsAllowedHeaders = [], sec_CorsExposeHeaders = [], sec_CorsAllowCredentials = False,
     sec_CorsMaxAge = 0\<rparr>"

record GatewayConfig =
  gc_Logging :: Logging
  gc_Redis :: Redis
  gc_Endpoint :: "EndpointSpec option"
  gc_Security :: "Security option"

text \<open>The first limit without an id.\<close>

definition missing_id :: "string \<Rightarrow> string list \<Rightarrow> gerror option" where
  "missing_id what ids =
     (let n = length (takeWhile (\<lambda>i. i \<noteq> []) ids) in
      if n = length ids then None else Some (ErrorText (what @ show_nat n @ '' has no id'')))"

definition ParseGatewayConfig :: "GatewayConfig outcome \<Rightarrow> GatewayConfig outcome" where
  "ParseGatewayConfig decoded =
     outcome_bind decoded (\<lambda>c.
       let redis = gc_Redis c;
           c1 = c\<lparr>gc_Redis := redis\<lparr>rdc_Namespace := Coa [] (rdc_Namespace redis) ''gateway-undefined'',
                                     rdc_URI := Coa [] (rdc_URI redis) ''embedded''\<rparr>,
                  gc_Security := (case gc_Security c of None \<Rightarrow> Some Security_zero | Some x \<Rightarrow> Some x)\<rparr>
       in case gc_Endpoint c1 of
            None \<Rightarrow> Panic ''nil pointer dereference''
          | Some e \<Rightarrow>
              (case missing_id ''endpoint abuse limit '' (map al_Id (ep_Abuse e)) of
                 Some err \<Rightarrow> Err err
               | None \<Rightarrow>
                   (case missing_id ''endpointusage limit '' (ep_Usage e) of
                      Some err \<Rightarrow> Err err
                    | None \<Rightarrow> Ok c1)))"

record GatewayConfigResult =
  gr_Redis :: Redis
  gr_Endpoint :: "EndpointSpec option"
  gr_Security :: "Security option"
  gr_Log :: log_handler

text \<open>The sections that are handed on as they are (HTTP, metrics, NATS, telemetry) are left out.\<close>

definition GatewayFileParser :: "GatewayConfig outcome \<Rightarrow> bool \<Rightarrow> environ \<Rightarrow> GatewayConfigResult outcome" where
  "GatewayFileParser read container env =
     outcome_bind (ParseGatewayConfig read) (\<lambda>cfg.
       Ok \<lparr>gr_Redis = gc_Redis cfg, gr_Endpoint = gc_Endpoint cfg, gr_Security = gc_Security cfg,
           gr_Log = log_choice container env (gc_Logging cfg)\<rparr>)"

section \<open>Lemmas\<close>

lemma ExpandEnv_plain: "CHR ''$'' \<notin> set s \<Longrightarrow> ExpandEnv env s = s"
  by (induction env s rule: ExpandEnv.induct) auto

lemma env_expandable_round_trip:
  "CHR ''$'' \<notin> set s \<Longrightarrow> EnvExpandable_UnmarshalJSON env (EnvExpandable_MarshalJSON s) = Ok s"
  by (simp add: EnvExpandable_UnmarshalJSON_def EnvExpandable_MarshalJSON_def ExpandEnv_plain)

lemma map_outcome_all:
  "map_outcome f xs = Ok ys \<Longrightarrow> y \<in> set ys \<Longrightarrow> \<exists>x \<in> set xs. f x = Ok y"
  by (induction xs arbitrary: ys) (auto simp: outcome_bind_Ok_iff)

text \<open>What \<open>ParseNodeConfig\<close> makes of a remote and of a chain.\<close>

definition remote_parsed :: "Filter list \<Rightarrow> Remote \<Rightarrow> bool" where
  "remote_parsed filters v \<longleftrightarrow>
     rem_HealthCheckIntervalMin v \<noteq> 0 \<and> rem_HealthCheckIntervalMax v \<noteq> 0 \<and> rem_RateLimitBackoff v \<noteq> 0 \<and>
     rem_ErrorBackoffMin v \<noteq> 0 \<and> rem_ErrorBackoffMax v \<noteq> 0 \<and>
     set (rem_ParsedFilters v) = {f \<in> set filters. flt_Name f \<in> set (rem_Filters v)}"

definition chain_parsed :: "Filter list \<Rightarrow> Chain \<Rightarrow> bool" where
  "chain_parsed filters c \<longleftrightarrow>
     ch_ParsedStalk c = (ch_Stalk c \<noteq> Some False) \<and> (\<forall>v \<in> set (ch_Remotes c). remote_parsed filters v) \<and>
     (ch_Name c = ''health'' \<longrightarrow> ch_Remotes c = [])"

lemma parse_remote_parsed: "remote_parsed filters (parse_remote env filters v)"
  by (auto simp: remote_parsed_def parse_remote_def default_duration_def resolve_filters_def Second_def)

lemma parse_chain_parsed: "parse_chain env filters v = Ok c \<Longrightarrow> chain_parsed filters c"
  by (auto simp: parse_chain_def CoaFunc_def chain_parsed_def parse_remote_parsed split: if_splits option.splits)

lemma chain_table_Ok:
  "chain_table vs endpoints tab = Ok tab' \<Longrightarrow>
   tab' = tab @ map (\<lambda>v. (ch_Name v, v)) vs \<and> (distinct (map fst tab) \<longrightarrow> distinct (map fst tab'))"
proof (induction vs endpoints tab rule: chain_table.induct)
  case (2 v vs endpoints tab)
  then obtain e' where e: "add_aliases (ch_Aliases v) (insert (ch_Name v) endpoints) = Ok e'"
      "chain_table vs e' (tab @ [(ch_Name v, v)]) = Ok tab'" "map_of tab (ch_Name v) = None"
    by (auto simp: outcome_bind_Ok_iff split: if_splits)
  have "tab' = (tab @ [(ch_Name v, v)]) @ map (\<lambda>v. (ch_Name v, v)) vs \<and>
      (distinct (map fst (tab @ [(ch_Name v, v)])) \<longrightarrow> distinct (map fst tab'))"
    by (rule 2(1) [OF _ e(2)]) (simp add: e(3))
  moreover have "distinct (map fst tab) \<longrightarrow> distinct (map fst (tab @ [(ch_Name v, v)]))"
    using e(3) by (simp add: map_of_eq_None_iff)
  ultimately have "tab' = tab @ map (\<lambda>v. (ch_Name v, v)) (v # vs)" and "distinct (map fst tab) \<longrightarrow> distinct (map fst tab')"
    by (simp, blast)
  then show ?case by blast
qed simp

section \<open>Properties\<close>

text \<open>
  C34: A node configuration that is accepted is well-formed: the table of chains holds every chain
  under its own name and no name twice; whether a chain is stalked is decided, with yes as the
  default; every remote has non-zero intervals and backoffs, and its resolved filters are
  exactly the configured filters that it names; a chain called health has no remotes.
\<close>

theorem node_config_wellformed:
  assumes "NodeFileParser read container env = Ok res"
  shows "distinct (map fst (nr_Chains res)) \<and> (\<forall>(k, c) \<in> set (nr_Chains res). k = ch_Name c \<and> chain_parsed (nc_Filters (nr_Config res)) c)"
proof -
  obtain cfg tab where c: "ParseNodeConfig read env = Ok cfg" "chain_table (nc_Chains cfg) {} [] = Ok tab"
      "nr_Config res = cfg" "nr_Chains res = tab"
    using assms by (auto simp: NodeFileParser_def outcome_bind_Ok_iff)
  obtain chs chs0 where p: "map_outcome (parse_chain env (nc_Filters cfg)) chs0 = Ok chs" "nc_Chains cfg = chs"
    using c(1) by (auto simp: ParseNodeConfig_def outcome_bind_Ok_iff Let_def)
  have "\<forall>v \<in> set chs. chain_parsed (nc_Filters cfg) v"
    using map_outcome_all [OF p(1)] parse_chain_parsed [of env "nc_Filters cfg"] by blast
  then show ?thesis using chain_table_Ok [OF c(2)] c(3,4) p(2) by auto
qed

definition demo_config :: NodeConfig where
  "demo_config = \<lparr>nc_Bind = [], nc_Logging = \<lparr>lgc_Format = [], lgc_Level = 0\<rparr>, nc_Strategy = [],
     nc_Redis = \<lparr>rdc_URI = [], rdc_Cluster = [], rdc_Namespace = []\<rparr>, nc_Ratelimit = None,
     nc_Chains = [\<lparr>ch_Name = ''eth'', ch_Id = 1, ch_Aliases = [''main''], ch_BlockTimeSeconds = 12,
        ch_Remotes = [Remote_zero\<lparr>rem_Filters := [''logs'']\<rparr>], ch_Stalk = None, ch_ParsedStalk = False,
        ch_ForgeBlockReceipts = False, ch_MaxBlockLookback = 0\<rparr>],
     nc_Filters = [\<lparr>flt_Name = ''logs'', flt_Methods = [(''eth_getLogs'', False)]\<rparr>]\<rparr>"

theorem node_config_wellformed_witness:
  "\<exists>res. NodeFileParser (Ok demo_config) False (\<lambda>_. []) = Ok res \<and> distinct (map fst (nr_Chains res)) \<and>
     (\<forall>(k, c) \<in> set (nr_Chains res). k = ch_Name c \<and> chain_parsed (nc_Filters (nr_Config res)) c)"
proof -
  have "\<exists>res. NodeFileParser (Ok demo_config) False (\<lambda>_. []) = Ok res"
    by (simp add: NodeFileParser_def ParseNodeConfig_def demo_config_def parse_chain_def CoaFunc_def Let_def)
  then obtain res where r: "NodeFileParser (Ok demo_config) False (\<lambda>_. []) = Ok res" by blast
  then show ?thesis using node_config_wellformed [OF r] by blast
qed

text \<open>
  The check of names against aliases looks in one direction only: a chain may have the name of an
  alias of an earlier chain.
\<close>

lemma name_may_be_earlier_alias:
  assumes "ch_Aliases v = [ch_Name w]" and "ch_Name v \<noteq> ch_Name w" and "ch_Aliases w = []"
  shows "chain_table [v, w] {} [] = Ok [(ch_Name v, v), (ch_Name w, w)]"
  using assms by simp

text \<open>A gateway configuration without an endpoint makes the parser panic.\<close>

lemma gateway_without_endpoint_panics:
  "gc_Endpoint c = None \<Longrightarrow> ParseGatewayConfig (Ok c) = Panic ''nil pointer dereference''"
  by (simp add: ParseGatewayConfig_def Let_def)

lemma gateway_limits_have_ids:
  assumes "ParseGatewayConfig (Ok c) = Ok c'"
  shows "\<exists>e. gc_Endpoint c' = Some e \<and> [] \<notin> set (map al_Id (ep_Abuse e)) \<and> [] \<notin> set (ep_Usage e) \<and> gc_Security c' \<noteq> None"
proof -
  have ids: "[] \<notin> set ids" if "missing_id what ids = None" for what ids
  proof -
    have "length (takeWhile (\<lambda>i. i \<noteq> []) ids) = length ids" using that by (simp add: missing_id_def Let_def split: if_splits)
    then have "takeWhile (\<lambda>i. i \<noteq> []) ids = ids" by (metis takeWhile_eq_take take_all order_refl)
    then show ?thesis by (metis set_takeWhileD)
  qed
  obtain e where e: "gc_Endpoint c = Some e" "missing_id ''endpoint abuse limit '' (map al_Id (ep_Abuse e)) = None"
      "missing_id ''endpointusage limit '' (ep_Usage e) = None" "gc_Endpoint c' = Some e" "gc_Security c' \<noteq> None"
    using assms by (auto simp: ParseGatewayConfig_def Let_def split: option.splits)
  then show ?thesis using ids [OF e(2)] ids [OF e(3)] by blast
qed

end
