(* ===== verification/Venn_Node.thy ===== *)
theory Venn_Node
  imports Venn_Clusters Venn_Subcenter Venn_Ratelimit Venn_Config
begin

text \<open>
  \<open>svc/app/node/api.go\<close>: the handler of a node, built from the clusters and the middlewares of the
  node, and the paths under which the chains are served; and \<open>lib/util/waiter.go\<close>, which counts the
  requests in progress. The subscription engine and the rate limiter are arguments.
\<close>

section \<open>Waiter\<close>

text \<open>The semaphore is modelled by the number of requests that hold it.\<close>

definition Waiter_Middleware :: "('s, int) cell \<Rightarrow> 's middleware" where
  "Waiter_Middleware c fn = (\<lambda>r s.
     case fn r (upd c (\<lambda>n. n + 1) s) of (x, s1) \<Rightarrow> (x, upd c (\<lambda>n. n - 1) s1))"

text \<open>
  \<open>Wait\<close> takes the whole semaphore: it returns when no request holds it, or with the error of a
  context that ends first; \<open>None\<close> while it waits.
\<close>

definition Waiter_Wait :: "gerror option \<Rightarrow> int \<Rightarrow> unit outcome option" where
  "Waiter_Wait ctxErr n = (if n = 0 then Some (Ok ()) else map_option Err ctxErr)"

section \<open>New\<close>

record 's node_parts =
  np_codec :: codec
  np_stores :: "ctx \<Rightarrow> 's store"
  np_hget :: "'s hget"
  np_heads :: "'s heads"
  np_notifier :: "'s notifier"
  np_events :: "sub_event list"
  np_clk :: "'s \<Rightarrow> int"
  np_RequestCollector :: "('s, request_metrics) cell option"
  np_AbuseLimit :: "AbuseLimit option"
  np_allowN :: "AbuseLimit \<Rightarrow> string \<Rightarrow> int \<Rightarrow> 's \<Rightarrow> (bool \<times> int) outcome \<times> 's"
  np_Subscription :: "'s middleware option"
  np_waiter :: "('s, int) cell"
  np_Clusters :: "'s handler"

text \<open>The tracing middleware reads the name of the chain without having looked at the error.\<close>

definition trace_Middleware :: "'s middleware" where
  "trace_Middleware next = (\<lambda>r s.
     case GetChain (rq_Ctx r) of
       Ok chain \<Rightarrow> next r s
     | _ \<Rightarrow> (Crash ''invalid memory address or nil pointer dereference'', s))"

definition node_middlewares :: "'s node_parts \<Rightarrow> 's middleware list" where
  "node_middlewares p =
     [Cacher_Middleware (np_codec p) (np_stores p),
      HeadReplacer_Middleware (np_codec p) (np_hget p),
      Forger_Middleware (np_codec p),
      Subcenter_Middleware (np_codec p) (np_heads p) (np_notifier p) (np_events p)] @
     (case np_RequestCollector p of None \<Rightarrow> [] | Some c \<Rightarrow> [promcollect_Middleware (np_clk p) c]) @
     (case np_AbuseLimit p of
        None \<Rightarrow> []
      | Some l \<Rightarrow> if 0 < al_Total l then [RuedisRatelimiter (np_allowN p l)] else []) @
     (case np_Subscription p of None \<Rightarrow> [] | Some m \<Rightarrow> [m]) @
     [WithIdentifier node_identifier, Waiter_Middleware (np_waiter p), trace_Middleware]"

definition node_handler :: "'s node_parts \<Rightarrow> 's handler" where
  "node_handler p = MethodValidationMiddleware (foldl (\<lambda>handler m. m handler) (np_Clusters p) (node_middlewares p))"

text \<open>The mounts of the router: every chain under its name and its aliases, then the health check.\<close>

definition chain_mounts :: "Chain \<Rightarrow> (string \<times> Chain option) list" where
  "chain_mounts chain = (''/'' @ ch_Name chain, Some chain) # map (\<lambda>a. (''/'' @ a, Some chain)) (ch_Aliases chain)"

definition node_routes :: "Chain list \<Rightarrow> (string \<times> Chain option) list" where
  "node_routes chs = concat (map chain_mounts chs) @ [(''/health'', None)]"

section \<open>The head logger (cmd/venn/service.go)\<close>

datatype head_log = LogHead string int | LogHeadError gerror

fun logHeads :: "codec \<Rightarrow> ctx \<Rightarrow> Chain list \<Rightarrow> 's handler \<Rightarrow> 's \<Rightarrow> head_log list outcome \<times> 's" where
  "logHeads cdc c [] h s = (Ok [], s)"
| "logHeads cdc c (chain # chs) h s =
     (case Do_into (dec_Uint64 cdc) cdc (WithChain c chain) h ''eth_blockNumber'' JNull s of
        (Panic m, s1) \<Rightarrow> (Panic m, s1)
      | (Err e, s1) \<Rightarrow> (case logHeads cdc c chs h s1 of (x, s2) \<Rightarrow> (outcome_bind x (\<lambda>ls. Ok (LogHeadError e # ls)), s2))
      | (Ok n, s1) \<Rightarrow>
          (case logHeads cdc c chs h s1 of (x, s2) \<Rightarrow> (outcome_bind x (\<lambda>ls. Ok (LogHead (ch_Name chain) (u64_to_i64 n) # ls)), s2)))"

section \<open>Lemmas\<close>

lemma head_replacer_chain_id:
  "GetChain (rq_Ctx r) = Ok chain \<Longrightarrow> rq_Method r = ''eth_chainId'' \<Longrightarrow>
   HeadReplacer_Middleware cdc hget next r s = (send_ok (AUint64 (i64_to_u64 (ch_Id chain))), s)"
  by (simp add: HeadReplacer_Middleware_def)

text \<open>The request counter is balanced, also when the handler panics.\<close>

lemma waiter_balanced:
  "mem_cell c \<Longrightarrow> keeps_cell c fn \<Longrightarrow> rd c (snd (Waiter_Middleware c fn r s)) = rd c s"
  by (simp add: Waiter_Middleware_def keeps_cell_def mem_cell.rd_upd split_beta)

text \<open>At shutdown the node waits for the requests in progress and for nothing else.\<close>

lemma waiter_waits:
  "mem_cell c \<Longrightarrow> keeps_cell c fn \<Longrightarrow> rd c s = 0 \<Longrightarrow>
   Waiter_Wait None (rd c (upd c (\<lambda>n. n + 1) s)) = None \<and> Waiter_Wait None (rd c (snd (Waiter_Middleware c fn r s))) = Some (Ok ())"
  by (simp add: Waiter_Wait_def waiter_balanced mem_cell.rd_upd)

text \<open>A configuration in which a chain has the name of an earlier alias is accepted, and mounts one path twice.\<close>

lemma alias_mounts_twice:
  assumes "ch_Aliases v = [ch_Name w]" and "ch_Name v \<noteq> ch_Name w" and "ch_Aliases w = []"
  shows "chain_table [v, w] {} [] = Ok [(ch_Name v, v), (ch_Name w, w)] \<and> \<not> distinct (map fst (node_routes [v, w]))"
  using assms by (simp add: node_routes_def chain_mounts_def)

text \<open>
  The handler behind the caches and the special methods, and what the layers around it do to one
  answer: nothing, when the request is admitted.
\<close>

definition node_core :: "'s node_parts \<Rightarrow> 's handler" where
  "node_core p = Subcenter_Middleware (np_codec p) (np_heads p) (np_notifier p) (np_events p) (Forger_Middleware (np_codec p)
     (HeadReplacer_Middleware (np_codec p) (np_hget p) (Cacher_Middleware (np_codec p) (np_stores p) (np_Clusters p))))"

definition admits :: "'s node_parts \<Rightarrow> bool" where
  "admits p \<longleftrightarrow> (\<forall>l key n s. np_AbuseLimit p = Some l \<longrightarrow> (\<exists>t s1. np_allowN p l key n s = (Ok (True, t), s1)))"

text \<open>
  The subscription engine is code outside the repository: it handles the subscribing methods and hands
  every other request to the next handler as it is.
\<close>

definition engine_passes :: "'s node_parts \<Rightarrow> string \<Rightarrow> bool" where
  "engine_passes p m \<longleftrightarrow> (\<forall>engine next q s. np_Subscription p = Some engine \<longrightarrow> rq_Method q = m \<longrightarrow> engine next q s = next q s)"

text \<open>The answer as the client gets it: with metrics it is one answer, the last one that was sent.\<close>

fun one_answer :: "reply \<Rightarrow> reply" where
  "one_answer (Crash m) = Crash m"
| "one_answer (Sends xs) = Sends [if xs = [] then (ANil, None) else last xs]"

definition relayed :: "'s node_parts \<Rightarrow> reply \<Rightarrow> reply" where
  "relayed p x = (if np_RequestCollector p = None then x else one_answer x)"

lemma promcollect_answer:
  "\<not> has_suffix (rq_Method q) ''_subscribe'' \<Longrightarrow> fst (promcollect_Middleware clk c h q t) = one_answer (fst (h q t))"
  by (cases "fst (h q t)") (auto simp: promcollect_Middleware_def serve_icept_eq send_icept_def Interceptor_zero_def)

lemma node_layers:
  assumes r: "GetChain (rq_Ctx r) = Ok chain" and valid: "length (rq_Method r) \<le> 256" "\<not> str_contains (rq_Method r) ''_internal''"
    and sub: "\<not> has_suffix (rq_Method r) ''_subscribe''" and engine: "engine_passes p (rq_Method r)" and adm: "admits p"
  shows "\<exists>q t. GetChain (rq_Ctx q) = Ok chain \<and> rq_Method q = rq_Method r \<and> rq_Params q = rq_Params r \<and>
     fst (node_handler p r s) = relayed p (fst (node_core p q t))"
proof -
  define h2 where "h2 = (case np_RequestCollector p of None \<Rightarrow> node_core p | Some c \<Rightarrow> promcollect_Middleware (np_clk p) c (node_core p))"
  have h2: "fst (h2 q t) = relayed p (fst (node_core p q t))" if "rq_Method q = rq_Method r" for q t
    using that sub by (simp add: h2_def relayed_def promcollect_answer split: option.split)
  define h3 where "h3 = (case np_AbuseLimit p of None \<Rightarrow> h2 | Some l \<Rightarrow> if 0 < al_Total l then RuedisRatelimiter (np_allowN p l) h2 else h2)"
  have h3: "\<exists>u. h3 q t = h2 q u" if "ctx_Identifier (rq_Ctx q) = Some i" for q t i
  proof (cases "np_AbuseLimit p")
    case (Some l)
    obtain u s1 where "np_allowN p l (Identifier_Key i) (wrap64 (1 + id_ExtraCost i)) t = (Ok (True, u), s1)"
      using adm Some unfolding admits_def by blast
    then show ?thesis using Some that by (auto simp: h3_def RuedisRatelimiter_def IdentifierFromContext_def)
  qed (auto simp: h3_def)
  define h4 where "h4 = (case np_Subscription p of None \<Rightarrow> h3 | Some e \<Rightarrow> e h3)"
  have h4: "h4 q t = h3 q t" if "rq_Method q = rq_Method r" for q t
    using engine that by (simp add: h4_def engine_passes_def split: option.split)
  have "node_handler p = MethodValidationMiddleware (trace_Middleware (Waiter_Middleware (np_waiter p) (WithIdentifier node_identifier h4)))"
    by (simp add: node_handler_def node_middlewares_def h4_def h3_def h2_def node_core_def split: option.split)
  moreover obtain i where i: "node_identifier r = (Ok (Some i), r)" by (simp add: node_identifier_def Let_def)
  moreover define q where "q = r\<lparr>rq_Ctx := (rq_Ctx r)\<lparr>ctx_Identifier := Some i\<rparr>\<rparr>"
  ultimately have "fst (node_handler p r s) = fst (h4 q (upd (np_waiter p) (\<lambda>n. n + 1) s))"
    using r valid by (simp add: MethodValidationMiddleware_def trace_Middleware_def Waiter_Middleware_def WithIdentifier_def i split_beta)
  moreover have "GetChain (rq_Ctx q) = Ok chain" "rq_Method q = rq_Method r" "rq_Params q = rq_Params r"
      "ctx_Identifier (rq_Ctx q) = Some i"
    using r by (simp_all add: q_def GetChain_def)
  ultimately show ?thesis using h2 h3 h4 by metis
qed

section \<open>Properties\<close>

text \<open>
  A node answers eth_chainId from its configuration: whatever its remotes, caches and
  subscriptions do, a request for the chain id of a configured chain that the rate limit admits
  gets the configured id, and neither the clusters nor the cache are asked.
\<close>

theorem node_answers_chain_id:
  assumes "GetChain (rq_Ctx r) = Ok chain" and "rq_Method r = ''eth_chainId''" and "engine_passes p ''eth_chainId''" and "admits p"
  shows "fst (node_handler p r s) = send_ok (AUint64 (i64_to_u64 (ch_Id chain)))"
proof -
  have m: "\<not> str_contains ''eth_chainId'' ''_internal''" "\<not> has_suffix ''eth_chainId'' ''_subscribe''" by code_simp+
  obtain q t where q: "GetChain (rq_Ctx q) = Ok chain" "rq_Method q = ''eth_chainId''"
      "fst (node_handler p r s) = relayed p (fst (node_core p q t))"
    using node_layers [OF assms(1), of p s] assms(2-4) m by auto
  then have "fst (node_core p q t) = Sends [(AUint64 (i64_to_u64 (ch_Id chain)), None)]"
    by (simp add: node_core_def Subcenter_Middleware_def Forger_Middleware_def head_replacer_chain_id send_ok_def)
  then show ?thesis by (simp add: q(3) relayed_def send_ok_def)
qed

definition demo_engine :: "'s middleware" where
  "demo_engine next = (\<lambda>r s. if has_suffix (rq_Method r) ''_subscribe'' \<or> has_suffix (rq_Method r) ''_unsubscribe'' then (Sends [], s) else next r s)"

lemma demo_engine_passes:
  "np_Subscription p = Some demo_engine \<Longrightarrow> \<not> has_suffix m ''_subscribe'' \<Longrightarrow> \<not> has_suffix m ''_unsubscribe'' \<Longrightarrow> engine_passes p m"
  by (simp add: engine_passes_def demo_engine_def)

definition demo_parts :: "int node_parts" where
  "demo_parts = \<lparr>np_codec = eth_codec, np_stores = (\<lambda>_. CompoundStore []), np_hget = (\<lambda>_ _. Ok 7),
     np_heads = \<lparr>hs_Get = (\<lambda>_ _. Ok 7), hs_On = (\<lambda>_ s. (0, s)), hs_done = (\<lambda>_ _ s. s)\<rparr>,
     np_notifier = \<lparr>nt_ID = ''0x1'', nt_Notify = (\<lambda>_ s. (None, s))\<rparr>, np_events = [], np_clk = (\<lambda>_. 0),
     np_RequestCollector = None, np_AbuseLimit = Some \<lparr>al_Id = ''ip'', al_Total = 2000, al_Window = 10 * Second\<rparr>,
     np_allowN = (\<lambda>_ _ _ s. (Ok (True, 0), s)), np_Subscription = Some demo_engine, np_waiter = own_cell,
     np_Clusters = (\<lambda>r s. (Crash ''contacted'', s))\<rparr>"

theorem node_answers_chain_id_witness:
  "fst (node_handler demo_parts (NewRequest (WithChain Background demo_chain) ''eth_chainId'' (JArr [])) 0) = send_ok (AUint64 1)"
proof -
  have "\<not> has_suffix ''eth_chainId'' ''_subscribe''" "\<not> has_suffix ''eth_chainId'' ''_unsubscribe''" by code_simp+
  then have "engine_passes demo_parts ''eth_chainId''" by (intro demo_engine_passes) (simp_all add: demo_parts_def)
  then show ?thesis
    by (subst node_answers_chain_id [where chain = demo_chain])
      (simp_all add: demo_parts_def NewRequest_def WithChain_def GetChain_def demo_chain_def i64_to_u64_def admits_def)
qed

text \<open>The methods that a node answers itself or changes before passing them on.\<close>

definition own_methods :: "string set" where
  "own_methods = {''eth_chainId'', ''net_version'', ''eth_blockNumber'', ''eth_getBlockByNumber'', ''eth_getBlockByHash'',
     ''eth_getBlockReceipts'', ''eth_getLogs'', ''eth_call'', ''eth_subscribe''}"

text \<open>
  C28: For every other method a node is transparent. A request for a configured chain that the rate
  limit admits, with a valid method that does not subscribe and that the subscription engine leaves
  alone, reaches the remotes of its chain with its method and parameters unchanged, and the client
  gets the answer that the clusters send to it, be it a result or an error; a panic stays a panic.
  With metrics the answer is one message in any case.
\<close>

theorem node_passes_on:
  assumes "GetChain (rq_Ctx r) = Ok chain" and "rq_Method r \<notin> own_methods" and "length (rq_Method r) \<le> 256"
    and "\<not> str_contains (rq_Method r) ''_internal''" and "\<not> has_suffix (rq_Method r) ''_subscribe''"
    and "engine_passes p (rq_Method r)" and "admits p"
  shows "\<exists>q t. GetChain (rq_Ctx q) = Ok chain \<and> rq_Method q = rq_Method r \<and> rq_Params q = rq_Params r \<and>
     fst (node_handler p r s) = (if np_RequestCollector p = None then fst (np_Clusters p q t) else one_answer (fst (np_Clusters p q t)))"
proof -
  obtain q t where q: "GetChain (rq_Ctx q) = Ok chain" "rq_Method q = rq_Method r" "rq_Params q = rq_Params r"
      "fst (node_handler p r s) = relayed p (fst (node_core p q t))"
    using node_layers [OF assms(1,3-7)] by blast
  then have "node_core p q t = np_Clusters p q t"
    using assms(2)
    by (simp add: node_core_def Subcenter_Middleware_def Forger_Middleware_def HeadReplacer_Middleware_def Cacher_Middleware_def own_methods_def)
  then show ?thesis using q by (metis relayed_def)
qed

theorem node_passes_on_witness:
  "fst (node_handler (demo_parts\<lparr>np_Clusters := (\<lambda>r s. (send_err (ErrorText (rq_Method r)), s + 1))\<rparr>)
     (NewRequest (WithChain Background demo_chain) ''eth_gasPrice'' (JArr [])) 0) = send_err (ErrorText ''eth_gasPrice'')"
proof -
  let ?r = "NewRequest (WithChain Background demo_chain) ''eth_gasPrice'' (JArr [])"
  let ?p = "demo_parts\<lparr>np_Clusters := (\<lambda>r s. (send_err (ErrorText (rq_Method r)), s + 1))\<rparr>"
  have m: "\<not> str_contains ''eth_gasPrice'' ''_internal''" "\<not> has_suffix ''eth_gasPrice'' ''_subscribe''"
    "\<not> has_suffix ''eth_gasPrice'' ''_unsubscribe''" by code_simp+
  have e: "engine_passes ?p ''eth_gasPrice''" by (intro demo_engine_passes m) (simp add: demo_parts_def)
  from node_passes_on [of ?r demo_chain ?p 0] e m show ?thesis
    by (auto simp: NewRequest_def WithChain_def GetChain_def own_methods_def demo_parts_def admits_def send_err_def)
qed

end
