(* ===== verification/Venn_Election.thy ===== *)
theory Venn_Election
  imports Venn_Util
begin

text \<open>
  The election of a leader among the nodes of a cluster: the Redis strategy (\<open>lib/election/redsync.go\<close>)
  with the leases it hands out, and \<open>RunWithLease\<close> (\<open>svc/node/atoms/election\<close>), which runs a
  function as leader or as follower. Redis, the distributed mutex and sleeping are arguments.
  Ids are the text of UUIDs; \<open>uuid_Nil\<close> is the zero UUID.
\<close>

definition uuid_Nil :: string where
  "uuid_Nil = ''00000000-0000-0000-0000-000000000000''"

section \<open>Leases\<close>

text \<open>
  A lease that was asked for: its number, whether its context still waits to be sent, and whether
  it can be cancelled.
\<close>

record spawnedCtx =
  sc_id :: nat
  sc_waiting :: bool
  sc_cancel :: bool

text \<open>
  \<open>rl_sent\<close> and \<open>rl_cancelled\<close> list the leases whose context was sent and those that were cancelled
  with \<open>ErrLostLeadership\<close>, in order.
\<close>

record RedilockStrategy =
  rl_namespace :: string
  rl_id :: string
  rl_isLeader :: bool
  rl_ctxs :: "spawnedCtx list"
  rl_next :: nat
  rl_sent :: "nat list"
  rl_cancelled :: "nat list"

definition NewRedilockStrategy :: "string \<Rightarrow> string \<Rightarrow> RedilockStrategy" where
  "NewRedilockStrategy namespacePrefix uuid =
     \<lparr>rl_namespace = namespacePrefix, rl_id = uuid, rl_isLeader = False, rl_ctxs = [], rl_next = 0, rl_sent = [], rl_cancelled = []\<rparr>"

text \<open>\<open>AcquireLease\<close> enters the lease; the update it triggers is a step of its own.\<close>

definition AcquireLease :: "RedilockStrategy \<Rightarrow> nat \<times> RedilockStrategy" where
  "AcquireLease p = (rl_next p, p\<lparr>rl_next := rl_next p + 1, rl_ctxs := rl_ctxs p @ [\<lparr>sc_id = rl_next p, sc_waiting = True, sc_cancel = False\<rparr>]\<rparr>)"

text \<open>The loop of \<open>updateSubs\<close>: the leases that stay, those sent, those cancelled.\<close>

fun update_ctxs :: "bool \<Rightarrow> spawnedCtx list \<Rightarrow> spawnedCtx list \<times> nat list \<times> nat list" where
  "update_ctxs isLeader [] = ([], [], [])"
| "update_ctxs isLeader (v # vs) =
     (case update_ctxs isLeader vs of (ks, ss, cs) \<Rightarrow>
        if isLeader then
          (if sc_waiting v then (v\<lparr>sc_waiting := False, sc_cancel := True\<rparr> # ks, sc_id v # ss, cs) else (v # ks, ss, cs))
        else
          (if sc_cancel v then (ks, ss, sc_id v # cs) else (v # ks, ss, cs)))"

definition updateSubs :: "RedilockStrategy \<Rightarrow> RedilockStrategy" where
  "updateSubs m =
     (case update_ctxs (rl_isLeader m) (rl_ctxs m) of (ks, ss, cs) \<Rightarrow>
        m\<lparr>rl_ctxs := ks, rl_sent := rl_sent m @ ss, rl_cancelled := rl_cancelled m @ cs\<rparr>)"

section \<open>The election loop\<close>

record 's redis_ops =
  ro_Exists :: "string \<Rightarrow> 's \<Rightarrow> int outcome \<times> 's"
  ro_Get :: "string \<Rightarrow> 's \<Rightarrow> string outcome \<times> 's"
  ro_Set :: "string \<Rightarrow> string \<Rightarrow> int \<Rightarrow> 's \<Rightarrow> unit outcome \<times> 's"
  ro_Del :: "string \<Rightarrow> 's \<Rightarrow> unit outcome \<times> 's"
  ro_SAdd :: "string \<Rightarrow> string \<Rightarrow> 's \<Rightarrow> unit outcome \<times> 's"
  ro_TryLock :: "'s \<Rightarrow> bool \<times> 's"
  ro_Unlock :: "'s \<Rightarrow> 's"
  ro_Extend :: "'s \<Rightarrow> 's"
  ro_Sleep :: "int \<Rightarrow> 's \<Rightarrow> 's"
  ro_Parse :: "string \<Rightarrow> string option"

definition leaderKey :: "string \<Rightarrow> string" where
  "leaderKey ns = ''venn:'' @ ns @ '':election:leader''"

definition healthKey :: "string \<Rightarrow> string \<Rightarrow> string" where
  "healthKey ns uuid = ''venn:'' @ ns @ '':election:health:'' @ uuid"

text \<open>Every failure of \<open>attempt_promotion\<close> is reported as not being the leader, never as an error.\<close>

definition attempt_promotion :: "'s redis_ops \<Rightarrow> string \<Rightarrow> string \<Rightarrow> 's \<Rightarrow> bool outcome \<times> 's" where
  "attempt_promotion ops ns uuid s =
     (case ro_TryLock ops s of
        (False, s1) \<Rightarrow> (Ok False, s1)
      | (True, s1) \<Rightarrow>
          (case ro_Set ops (leaderKey ns) uuid 0 s1 of
             (Ok _, s2) \<Rightarrow> (Ok True, s2)
           | (Err e, s2) \<Rightarrow> (Ok False, ro_Unlock ops s2)
           | (Panic m, s2) \<Rightarrow> (Panic m, s2)))"

text \<open>\<open>discoverLeader\<close>: \<open>None\<close> when the loop does not end.\<close>

partial_function (option) discoverLeader :: "'s redis_ops \<Rightarrow> string \<Rightarrow> string \<Rightarrow> 's \<Rightarrow> (string outcome \<times> 's) option" where
  "discoverLeader ops ns uuid s =
     (case ro_Exists ops (leaderKey ns) s of
        (Err e, s1) \<Rightarrow> Some (Err e, s1)
      | (Panic m, s1) \<Rightarrow> Some (Panic m, s1)
      | (Ok ea, s1) \<Rightarrow>
          if ea = 0 then
            (case attempt_promotion ops ns uuid s1 of
               (Ok isLeader, s2) \<Rightarrow> if isLeader then Some (Ok uuid, s2) else discoverLeader ops ns uuid s2
             | (Err e, s2) \<Rightarrow> discoverLeader ops ns uuid (ro_Sleep ops (2 * Second) s2)
             | (Panic m, s2) \<Rightarrow> Some (Panic m, s2))
          else if ea = 1 then
            (case ro_Get ops (leaderKey ns) s1 of
               (Err e, s2) \<Rightarrow> Some (Err e, s2)
             | (Panic m, s2) \<Rightarrow> Some (Panic m, s2)
             | (Ok t, s2) \<Rightarrow>
                 (case ro_Parse ops t of
                    Some u \<Rightarrow> Some (Ok u, s2)
                  | None \<Rightarrow> discoverLeader ops ns uuid (snd (ro_Del ops (leaderKey ns) s2))))
          else discoverLeader ops ns uuid s1)"

definition broadcast_health :: "'s redis_ops \<Rightarrow> string \<Rightarrow> string \<Rightarrow> 's \<Rightarrow> unit outcome \<times> 's" where
  "broadcast_health ops ns uuid s = ro_Set ops (healthKey ns uuid) ''OK'' (5 * Second) s"

definition overthrow :: "'s redis_ops \<Rightarrow> string \<Rightarrow> string \<Rightarrow> 's \<Rightarrow> unit outcome \<times> 's" where
  "overthrow ops ns uuid s =
     (case ro_SAdd ops (''venn:'' @ ns @ '':election:outlaws'') uuid s of
        (Ok _, s1) \<Rightarrow> ro_Del ops (leaderKey ns) s1
      | (Err e, s1) \<Rightarrow> (Err e, s1)
      | (Panic m, s1) \<Rightarrow> (Panic m, s1))"

definition mutiny :: "'s redis_ops \<Rightarrow> string \<Rightarrow> string \<Rightarrow> string \<Rightarrow> 's \<Rightarrow> bool outcome \<times> 's" where
  "mutiny ops ns uuid knownLeader s =
     (case ro_Exists ops (healthKey ns knownLeader) s of
        (Err e, s1) \<Rightarrow> (Err e, s1)
      | (Panic m, s1) \<Rightarrow> (Panic m, s1)
      | (Ok healthCheck, s1) \<Rightarrow>
          if healthCheck = 1 then (Ok False, s1)
          else
            (case overthrow ops ns uuid s1 of
               (Ok _, s2) \<Rightarrow> (Ok True, s2)
             | (Err e, s2) \<Rightarrow> (Err e, s2)
             | (Panic m, s2) \<Rightarrow> (Panic m, s2)))"

text \<open>What follows once the leader is known: note it, update the leases, then extend or mutiny.\<close>

definition loop_known :: "'s redis_ops \<Rightarrow> string \<Rightarrow> RedilockStrategy \<Rightarrow> 's \<Rightarrow> unit outcome \<times> RedilockStrategy \<times> 's" where
  "loop_known ops knownLeader m s =
     (let ns = rl_namespace m; isLeader = (knownLeader = rl_id m); m1 = updateSubs (m\<lparr>rl_isLeader := isLeader\<rparr>) in
      if isLeader then (Ok (), m1, snd (broadcast_health ops ns (rl_id m) (ro_Extend ops s)))
      else
        (case mutiny ops ns (rl_id m) knownLeader s of
           (Ok _, s1) \<Rightarrow> (Ok (), m1, s1)
         | (Err e, s1) \<Rightarrow> (Err e, m1, s1)
         | (Panic p, s1) \<Rightarrow> (Panic p, m1, s1)))"

definition election_loop :: "'s redis_ops \<Rightarrow> RedilockStrategy \<Rightarrow> 's \<Rightarrow> (unit outcome \<times> RedilockStrategy \<times> 's) option" where
  "election_loop ops m s =
     (case broadcast_health ops (rl_namespace m) (rl_id m) s of
        (Err e, s1) \<Rightarrow> Some (Err e, m, s1)
      | (Panic p, s1) \<Rightarrow> Some (Panic p, m, s1)
      | (Ok _, s1) \<Rightarrow>
          map_option (\<lambda>(res, s2).
            (case res of
               Err e \<Rightarrow> (Err e, m, s2)
             | Panic p \<Rightarrow> (Panic p, m, s2)
             | Ok knownLeader \<Rightarrow>
                 if knownLeader = uuid_Nil then (Ok (), m, ro_Sleep ops Second s2)
                 else loop_known ops knownLeader m s2))
            (discoverLeader ops (rl_namespace m) (rl_id m) s1))"

section \<open>Join\<close>

definition Join :: "'s redis_ops \<Rightarrow> RedilockStrategy \<Rightarrow> 's \<Rightarrow> (unit outcome \<times> 's) option" where
  "Join ops m s = map_option (\<lambda>(res, s1). (outcome_bind res (\<lambda>_. Ok ()), s1)) (discoverLeader ops (rl_namespace m) (rl_id m) s)"

text \<open>
  The goroutine that \<open>Join\<close> starts, for as many rounds as the list has: after a round either the
  ticker fires or the context has ended. \<open>isShutdown\<close> is \<open>fxplus.IsShutdownOrCancel\<close>. The lock is
  released when the goroutine ends; \<open>None\<close> when a round does not end.
\<close>

fun join_loop :: "(gerror \<Rightarrow> bool) \<Rightarrow> 's redis_ops \<Rightarrow> bool list \<Rightarrow> RedilockStrategy \<Rightarrow> 's \<Rightarrow> (RedilockStrategy \<times> 's) option" where
  "join_loop isShutdown ops [] m s = Some (m, s)"
| "join_loop isShutdown ops (tick # ts) m s =
     (case election_loop ops m s of
        None \<Rightarrow> None
      | Some (res, m1, s1) \<Rightarrow>
          (case res of
             Panic p \<Rightarrow> Some (m1, ro_Unlock ops s1)
           | Err e \<Rightarrow> if isShutdown e \<or> \<not> tick then Some (m1, ro_Unlock ops s1) else join_loop isShutdown ops ts m1 s1
           | Ok _ \<Rightarrow> if \<not> tick then Some (m1, ro_Unlock ops s1) else join_loop isShutdown ops ts m1 s1))"

section \<open>RunWithLease\<close>

text \<open>
  What the \<open>select\<close>s of one iteration yield: the lease, or that it is not there yet; the end of the
  context; the end of the lease because leadership was lost, or for another cause.
\<close>

datatype run_event = LeaseNow | NoLeaseYet | RunDone | LeaseLost | LeaseEnded

datatype run_action = StartFollower | StopFollower | StartLeader | StopLeader

datatype run_phase = Asking | Following | Leading | Returned

fun run_step :: "run_phase \<Rightarrow> run_event \<Rightarrow> (run_phase \<times> run_action list) option" where
  "run_step Asking RunDone = Some (Returned, [])"
| "run_step Asking LeaseNow = Some (Leading, [StartLeader])"
| "run_step Asking NoLeaseYet = Some (Following, [StartFollower])"
| "run_step Following LeaseNow = Some (Leading, [StopFollower, StartLeader])"
| "run_step Following RunDone = Some (Returned, [StopFollower])"
| "run_step Leading LeaseLost = Some (Asking, [StopLeader])"
| "run_step Leading LeaseEnded = Some (Returned, [StopLeader])"
| "run_step _ _ = None"

inductive runs :: "run_phase \<Rightarrow> run_action list \<Rightarrow> bool" where
  runs_start: "runs Asking []"
| runs_step: "runs p as \<Longrightarrow> run_step p e = Some (p', bs) \<Longrightarrow> runs p' (as @ bs)"

section \<open>Choice of the strategy\<close>

datatype strategy = Redilock | AlwaysLeader

definition election_strategy :: "string \<Rightarrow> bool \<Rightarrow> strategy outcome" where
  "election_strategy cfg redis =
     (let st = (if cfg = [] then (if redis then ''redis'' else ''alwaysleader'') else cfg) in
      if st \<in> {''redilock'', ''redsync'', ''redis''} then (if redis then Ok Redilock else Panic ''nil pointer dereference'')
      else if st = ''alwaysleader'' then Ok AlwaysLeader
      else Err (ErrorText (''invalid election strategy: '' @ st)))"

section \<open>Steps of the leases\<close>

inductive lease_step :: "RedilockStrategy \<Rightarrow> RedilockStrategy \<Rightarrow> bool" where
  step_acquire: "lease_step m (snd (AcquireLease m))"
| step_leader: "lease_step m (m\<lparr>rl_isLeader := b\<rparr>)"
| step_update: "lease_step m (updateSubs m)"

inductive lease_reachable :: "RedilockStrategy \<Rightarrow> bool" where
  lease_new: "lease_reachable (NewRedilockStrategy ns uuid)"
| lease_next: "lease_reachable m \<Longrightarrow> lease_step m m' \<Longrightarrow> lease_reachable m'"

inductive_simps lease_step_simps: "lease_step m m'"

definition waiting_ids :: "spawnedCtx list \<Rightarrow> nat list" where
  "waiting_ids cs = map sc_id (filter sc_waiting cs)"

definition granted_ids :: "spawnedCtx list \<Rightarrow> nat list" where
  "granted_ids cs = map sc_id (filter (\<lambda>v. \<not> sc_waiting v) cs)"

text \<open>
  Every lease asked for is in exactly one state: waiting, granted, or cancelled; a lease was sent
  when it is granted or cancelled, and once only.
\<close>

definition lease_inv :: "RedilockStrategy \<Rightarrow> bool" where
  "lease_inv m \<longleftrightarrow>
     (\<forall>v \<in> set (rl_ctxs m). sc_cancel v = (\<not> sc_waiting v)) \<and>
     distinct (map sc_id (rl_ctxs m) @ rl_cancelled m) \<and>
     distinct (rl_sent m) \<and> set (rl_sent m) = set (granted_ids (rl_ctxs m)) \<union> set (rl_cancelled m) \<and>
     set (map sc_id (rl_ctxs m)) \<union> set (rl_cancelled m) = {..<rl_next m}"

lemma update_leader:
  "update_ctxs True cs = (map (\<lambda>v. if sc_waiting v then v\<lparr>sc_waiting := False, sc_cancel := True\<rparr> else v) cs, waiting_ids cs, [])"
  by (induction cs) (auto simp: waiting_ids_def)

lemma update_follower:
  "\<forall>v \<in> set cs. sc_cancel v = (\<not> sc_waiting v) \<Longrightarrow> update_ctxs False cs = (filter sc_waiting cs, [], granted_ids cs)"
  by (induction cs) (auto simp: granted_ids_def)

lemma ids_split: "set (map sc_id cs) = set (waiting_ids cs) \<union> set (granted_ids cs)"
  by (auto simp: waiting_ids_def granted_ids_def)

lemma ids_disjoint: "distinct (map sc_id cs) \<Longrightarrow> set (waiting_ids cs) \<inter> set (granted_ids cs) = {}"
  by (auto simp: waiting_ids_def granted_ids_def distinct_map inj_on_def)

lemma ids_distinct:
  "distinct (map sc_id cs) \<Longrightarrow> distinct (waiting_ids cs) \<and> distinct (granted_ids cs)"
  by (auto simp: waiting_ids_def granted_ids_def distinct_map inj_on_def)

lemma update_leader_inv:
  assumes "lease_inv m" and "rl_isLeader m"
  shows "lease_inv (updateSubs m) \<and> set (rl_sent (updateSubs m)) = {..<rl_next m}"
proof -
  let ?cs = "rl_ctxs m"
  define ks where "ks = map (\<lambda>v. if sc_waiting v then v\<lparr>sc_waiting := False, sc_cancel := True\<rparr> else v) ?cs"
  have d: "distinct (map sc_id ?cs)" using assms(1) by (simp add: lease_inv_def)
  have ids: "map sc_id ks = map sc_id ?cs" and fine: "\<forall>v \<in> set ks. sc_cancel v = (\<not> sc_waiting v)" and gr: "granted_ids ks = map sc_id ?cs"
    using assms(1) by (auto simp: ks_def granted_ids_def filter_map o_def if_distrib lease_inv_def filter_id_conv)
  have u: "updateSubs m = m\<lparr>rl_ctxs := ks, rl_sent := rl_sent m @ waiting_ids ?cs\<rparr>"
    using assms(2) by (simp add: updateSubs_def update_leader ks_def)
  have W: "set (waiting_ids ?cs) \<inter> set (rl_cancelled m) = {}"
    using assms(1) ids_split [of ?cs] by (auto simp: lease_inv_def)
  have "distinct (rl_sent m @ waiting_ids ?cs)"
    using assms(1) ids_distinct [OF d] ids_disjoint [OF d] W by (auto simp: lease_inv_def)
  moreover have "set (rl_sent m @ waiting_ids ?cs) = set (map sc_id ?cs) \<union> set (rl_cancelled m)"
    using assms(1) ids_split [of ?cs] by (auto simp: lease_inv_def)
  ultimately show ?thesis
    using assms(1) fine unfolding u lease_inv_def by (simp add: gr ids del: set_map)
qed

lemma update_follower_inv:
  assumes "lease_inv m" and "\<not> rl_isLeader m"
  shows "lease_inv (updateSubs m) \<and> set (rl_sent (updateSubs m)) = set (rl_cancelled (updateSubs m))"
proof -
  let ?cs = "rl_ctxs m"
  have cs: "\<forall>v \<in> set ?cs. sc_cancel v = (\<not> sc_waiting v)" and d: "distinct (map sc_id ?cs)"
    using assms(1) by (simp_all add: lease_inv_def)
  have u: "updateSubs m = m\<lparr>rl_ctxs := filter sc_waiting ?cs, rl_cancelled := rl_cancelled m @ granted_ids ?cs\<rparr>"
    using assms(2) by (simp add: updateSubs_def update_follower [OF cs])
  have ids: "map sc_id (filter sc_waiting ?cs) = waiting_ids ?cs" by (simp add: waiting_ids_def)
  have gr: "granted_ids (filter sc_waiting ?cs) = []" by (simp add: granted_ids_def filter_empty_conv)
  have "distinct (waiting_ids ?cs @ rl_cancelled m @ granted_ids ?cs)"
    using assms(1) ids_distinct [OF d] ids_disjoint [OF d] ids_split [of ?cs] by (auto simp: lease_inv_def)
  then show ?thesis
    using assms(1) ids_split [of ?cs] unfolding u lease_inv_def by (auto simp: ids gr)
qed

lemma lease_step_inv: "lease_step m m' \<Longrightarrow> lease_inv m \<Longrightarrow> lease_inv m'"
proof (induction rule: lease_step.induct)
  case (step_acquire m)
  then show ?case
    by (auto simp: AcquireLease_def lease_inv_def granted_ids_def lessThan_Suc)
next
  case (step_leader m b)
  then show ?case by (simp add: lease_inv_def)
next
  case (step_update m)
  then show ?case using update_leader_inv update_follower_inv by blast
qed

text \<open>The election loop changes the leases by these steps only.\<close>

lemma loop_known_leases: "fst (snd (loop_known ops k m s)) = updateSubs (m\<lparr>rl_isLeader := (k = rl_id m)\<rparr>)"
  by (simp add: loop_known_def Let_def split: prod.split outcome.split)

lemma election_loop_leases:
  assumes "lease_reachable m" and "election_loop ops m s = Some (res, m1, s1)"
  shows "lease_reachable m1"
proof -
  have upd: "lease_reachable (updateSubs (m\<lparr>rl_isLeader := b\<rparr>))" for b
    by (rule lease_next [OF lease_next [OF assms(1) step_leader] step_update])
  have "m1 = m \<or> (\<exists>k t. loop_known ops k m t = (res, m1, s1))"
  proof (cases "broadcast_health ops (rl_namespace m) (rl_id m) s")
    case (Pair o1 t1)
    show ?thesis
    proof (cases o1)
      case (Ok u)
      then obtain o2 t2 where d: "discoverLeader ops (rl_namespace m) (rl_id m) t1 = Some (o2, t2)"
        using assms(2) Pair by (auto simp: election_loop_def)
      then show ?thesis using assms(2) Pair Ok by (cases o2) (auto simp: election_loop_def split: if_splits)
    qed (use assms(2) Pair in \<open>auto simp: election_loop_def\<close>)
  qed
  then show ?thesis using assms(1) upd loop_known_leases [of ops _ m] by (metis fst_conv snd_conv)
qed

lemma join_loop_leases:
  "lease_reachable m \<Longrightarrow> join_loop isShutdown ops ts m s = Some (m', s') \<Longrightarrow> lease_reachable m'"
proof (induction ts arbitrary: m s)
  case (Cons tick ts)
  obtain res m1 s1 where e: "election_loop ops m s = Some (res, m1, s1)"
    using Cons.prems(2) by (cases "election_loop ops m s") auto
  note m1 = election_loop_leases [OF Cons.prems(1) e]
  show ?case using Cons.prems(2) e m1 Cons.IH [OF m1, of s1] by (cases res) (auto split: if_splits)
qed simp

lemma lease_reachable_inv: "lease_reachable m \<Longrightarrow> lease_inv m"
proof (induction rule: lease_reachable.induct)
  case (lease_new ns uuid)
  show ?case by (simp add: lease_inv_def NewRedilockStrategy_def granted_ids_def)
next
  case (lease_next m m')
  then show ?case by (blast intro: lease_step_inv)
qed

section \<open>Lemmas on the loop\<close>

lemma discover_reads:
  assumes "ro_Exists ops (leaderKey ns) s = (Ok 1, s1)" and "ro_Get ops (leaderKey ns) s1 = (Ok x, s2)" and "ro_Parse ops x = Some u"
  shows "discoverLeader ops ns uuid s = Some (Ok u, s2)"
  using assms by (subst discoverLeader.simps) simp

lemma discover_retries:
  assumes "ro_Exists ops (leaderKey ns) s = (Ok 0, s1)" and "attempt_promotion ops ns uuid s1 = (Ok False, s2)"
  shows "discoverLeader ops ns uuid s = discoverLeader ops ns uuid s2"
  using assms by (subst discoverLeader.simps) simp

text \<open>
  While there is no leader and the lock cannot be had, the search for the leader goes on without
  ever sleeping: a failed attempt is not an error, so the branch that waits is never taken.
\<close>

lemma discover_spins:
  assumes "\<And>s. ro_Exists ops (leaderKey ns) s = (Ok 0, s)" and "\<And>s. ro_TryLock ops s = (False, s)"
  shows "discoverLeader ops ns uuid s = None"
proof -
  have ap: "attempt_promotion ops ns u t = (Ok False, t)" for u t
    using assms(2) by (simp add: attempt_promotion_def)
  have never: "\<not> (ops' = ops \<and> ns' = ns)" if "discoverLeader ops' ns' uuid' t = Some y" for ops' ns' uuid' t y
  proof (rule discoverLeader.raw_induct [where P = "\<lambda>ops' ns' uuid' t y. \<not> (ops' = ops \<and> ns' = ns)", OF _ that], goal_cases)
    case (1 disc ops' ns' uuid' t y)
    show ?case
    proof
      assume "ops' = ops \<and> ns' = ns"
      then have "disc ops ns uuid' t = Some y" using 1(2) assms(1) ap by simp
      from 1(1) [OF this] show False by simp
    qed
  qed
  show ?thesis
  proof (rule ccontr)
    assume "discoverLeader ops ns uuid s \<noteq> None"
    then obtain y where "discoverLeader ops ns uuid s = Some y" by blast
    then show False using never by blast
  qed
qed

lemma attempt_promotion_no_Err: "attempt_promotion ops ns uuid s \<noteq> (Err e, s')"
  by (auto simp: attempt_promotion_def split: prod.splits bool.splits outcome.splits)

section \<open>Properties\<close>

text \<open>
  C36: However leases are asked for and leadership comes and goes, every lease is sent at most once
  and cancelled at most once, only leases that were sent are cancelled, and when the leases are
  updated a leader has sent every lease that was asked for, while a node that is not the leader
  has cancelled every lease it ever sent.
\<close>

theorem lease_lifecycle:
  assumes "lease_reachable m"
  shows "distinct (rl_sent m) \<and> distinct (rl_cancelled m) \<and> set (rl_cancelled m) \<subseteq> set (rl_sent m) \<and>
     set (rl_sent (updateSubs m)) = (if rl_isLeader m then {..<rl_next m} else set (rl_cancelled (updateSubs m)))"
proof -
  note inv = lease_reachable_inv [OF assms]
  then have "distinct (rl_sent m)" "distinct (rl_cancelled m)" "set (rl_cancelled m) \<subseteq> set (rl_sent m)"
    by (auto simp: lease_inv_def)
  then show ?thesis
    using update_leader_inv [OF inv] update_follower_inv [OF inv] by (simp split: if_split)
qed

theorem lease_lifecycle_witness:
  "set (rl_sent (updateSubs ((snd (AcquireLease (NewRedilockStrategy ''venn'' ''a'')))\<lparr>rl_isLeader := True\<rparr>))) = {..<1}"
proof -
  have "lease_reachable ((snd (AcquireLease (NewRedilockStrategy ''venn'' ''a'')))\<lparr>rl_isLeader := True\<rparr>)"
    by (rule lease_next [OF lease_next [OF lease_new]]) (rule step_acquire, rule step_leader)
  from lease_lifecycle [OF this] show ?thesis by (simp add: AcquireLease_def NewRedilockStrategy_def)
qed

text \<open>
  C37: The search for the leader ends as soon as there is one: when the leader key is absent and the
  lock is taken for some number of rounds and then a leader has entered itself, the search
  returns that leader.
\<close>

theorem discover_leader_returns:
  assumes "\<And>i. i < k \<Longrightarrow> ro_Exists ops (leaderKey ns) (f i) = (Ok 0, g i) \<and> attempt_promotion ops ns uuid (g i) = (Ok False, f (Suc i))"
    and "ro_Exists ops (leaderKey ns) (f k) = (Ok 1, g k)" and "ro_Get ops (leaderKey ns) (g k) = (Ok x, s')" and "ro_Parse ops x = Some u"
  shows "discoverLeader ops ns uuid (f 0) = Some (Ok u, s')"
proof -
  have "n \<le> k \<Longrightarrow> discoverLeader ops ns uuid (f 0) = discoverLeader ops ns uuid (f n)" for n
  proof (induction n)
    case (Suc n)
    then show ?case using assms(1) [of n] discover_retries [of ops ns "f n" "g n" uuid "f (Suc n)"] by simp
  qed simp
  from this [OF order_refl] show ?thesis by (simp add: discover_reads [OF assms(2-4)])
qed

definition demo_redis :: "nat redis_ops" where
  "demo_redis = \<lparr>ro_Exists = (\<lambda>_ n. (Ok (if n < 3 then 0 else 1), n)), ro_Get = (\<lambda>_ n. (Ok ''b'', n)), ro_Set = (\<lambda>_ _ _ n. (Ok (), n)),
     ro_Del = (\<lambda>_ n. (Ok (), n)), ro_SAdd = (\<lambda>_ _ n. (Ok (), n)), ro_TryLock = (\<lambda>n. (False, n + 1)), ro_Unlock = id,
     ro_Extend = id, ro_Sleep = (\<lambda>_. id), ro_Parse = Some\<rparr>"

theorem discover_leader_returns_witness:
  "discoverLeader demo_redis ''venn'' ''a'' 0 = Some (Ok ''b'', 3)"
  by (rule discover_leader_returns [where k = 3 and f = "\<lambda>i. i" and g = "\<lambda>i. i"])
    (simp_all add: demo_redis_def attempt_promotion_def)

text \<open>
  At every moment of \<open>RunWithLease\<close> exactly the function that belongs to its phase is running: the
  follower while it waits for a lease, the leader while it holds one, and never both; when it has
  returned neither is running.
\<close>

theorem run_with_lease_exclusive:
  assumes "runs p as"
  shows "count_list as StartFollower = count_list as StopFollower + (if p = Following then 1 else 0) \<and>
     count_list as StartLeader = count_list as StopLeader + (if p = Leading then 1 else 0)"
  using assms
proof (induction rule: runs.induct)
  case (runs_step p as e p' bs)
  then show ?case by (cases "(p, e)" rule: run_step.cases) (auto split: if_splits)
qed simp

theorem run_with_lease_exclusive_witness:
  "count_list [StartFollower, StopFollower, StartLeader] StartLeader =
   count_list [StartFollower, StopFollower, StartLeader] StopLeader + 1"
proof -
  have "runs Following ([] @ [StartFollower])" by (rule runs_step [OF runs_start, of NoLeaseYet]) simp
  then have "runs Leading (([] @ [StartFollower]) @ [StopFollower, StartLeader])" by (rule runs_step [of _ _ LeaseNow]) simp
  from run_with_lease_exclusive [OF this] show ?thesis by simp
qed

end
