(* ===== verification/Venn_Dashboard.thy ===== *)
theory Venn_Dashboard
  imports Venn_Clusters "HOL-Library.List_Lexorder" "HOL-Library.Char_ord" "HOL-Library.Product_Lexorder"
begin

text \<open>
  \<open>dashboard/handler.go\<close>: what the dashboard shows of the chains and their remotes. The pages are
  modelled by the data given to their templates, and a duration by its value instead of its text.
  The table of the remotes of a chain is ranged over in the order of a list \<open>ts\<close>, which is an
  argument; concurrent views share one collection of the data, here every view makes its own.
  A doctor that has not finished its first check makes the view wait: it is a panic here.
\<close>

section \<open>Data\<close>

record RemoteInfo =
  ri_Name :: string
  ri_Status :: HealthStatus
  ri_LatestBlock :: u64
  ri_BlocksBehind :: int
  ri_ResponseTime :: "int option"
  ri_LatencyAvg :: int
  ri_LatencyMin :: int
  ri_LatencyMax :: int
  ri_LastError :: string
  ri_Priority :: int
  ri_MaxBlockLookback :: int
  ri_RequestsPerMin :: rat

record ChainInfo =
  ci_Name :: string
  ci_ChainID :: u64
  ci_HeadBlock :: u64
  ci_Status :: HealthStatus
  ci_RemoteCount :: nat
  ci_HealthyCount :: nat
  ci_UnhealthyCount :: nat

text \<open>\<open>Round(time.Second)\<close>: halves are rounded away from zero.\<close>

definition round_second :: "int \<Rightarrow> int" where
  "round_second d =
     (if d < 0 then - ((Second div 2 - d) div Second * Second) else (d + Second div 2) div Second * Second)"

section \<open>Remotes\<close>

text \<open>What is shown of one remote. \<open>CanUse\<close> is asked, as if the remote were about to be used.\<close>

definition remote_info :: "('conn, 'w, 'l, 'x) node_env \<Rightarrow> (int list \<Rightarrow> int list) \<Rightarrow> u64 \<Rightarrow> string \<Rightarrow> RemoteTarget \<Rightarrow> Remote
    \<Rightarrow> ('conn, 'w, 'l, 'x) node_state \<Rightarrow> (RemoteInfo \<times> ('conn, 'w, 'l, 'x) node_state) outcome" where
  "remote_info env win headBlock name t cfg s =
     (let p = rt_ptr t; now = ev_clk env s; (latest, updated) = Validator_GetHead (rd (validator_cell p) s) in
      case Doctor_CanUse now (rd (doctor_cell p) s) of
        None \<Rightarrow> Panic ''waits for the first check''
      | Some (ok, d) \<Rightarrow>
          (case Doctor_GetLatencyStats win d of (avg, mn, mx, _) \<Rightarrow>
             Ok (\<lparr>ri_Name = name, ri_Status = (if ok then HealthStatusHealthy else HealthStatusUnhealthy), ri_LatestBlock = latest,
                  ri_BlocksBehind = (if 0 < headBlock \<and> 0 < latest then wrap64 (u64_to_i64 headBlock - u64_to_i64 latest) else 0),
                  ri_ResponseTime = (if updated \<noteq> time_zero then Some (round_second (time_Sub now updated)) else None),
                  ri_LatencyAvg = avg, ri_LatencyMin = mn, ri_LatencyMax = mx, ri_LastError = Doctor_GetLastError d,
                  ri_Priority = rem_Priority cfg,
                  ri_MaxBlockLookback = (case rt_BlockLookBack t of Some _ \<Rightarrow> rem_MaxBlockLookback cfg | None \<Rightarrow> 0),
                  ri_RequestsPerMin = Collector_GetRequestsPerMinute (ev_rolling env) now (rd (collector_cell p) s)\<rparr>,
                 wr (doctor_cell p) d s)))"

fun remote_infos :: "('conn, 'w, 'l, 'x) node_env \<Rightarrow> (int list \<Rightarrow> int list) \<Rightarrow> Chain \<Rightarrow> u64 \<Rightarrow> (string \<times> RemoteTarget) list
    \<Rightarrow> ('conn, 'w, 'l, 'x) node_state \<Rightarrow> (RemoteInfo list \<times> ('conn, 'w, 'l, 'x) node_state) outcome" where
  "remote_infos env win chain headBlock [] s = Ok ([], s)"
| "remote_infos env win chain headBlock ((name, t) # ts) s =
     (case List.find (\<lambda>cfg. rem_Name cfg = name) (ch_Remotes chain) of
        None \<Rightarrow> remote_infos env win chain headBlock ts s
      | Some cfg \<Rightarrow>
          outcome_bind (remote_info env win headBlock name t cfg s) (\<lambda>(i, s1).
          outcome_bind (remote_infos env win chain headBlock ts s1) (\<lambda>(is, s2). Ok (i # is, s2))))"

text \<open>The infos are sorted by priority, then by name.\<close>

definition getRemoteInfos :: "('conn, 'w, 'l, 'x) node_env \<Rightarrow> (int list \<Rightarrow> int list) \<Rightarrow> Chain \<Rightarrow> u64 \<Rightarrow> (string \<times> RemoteTarget) list
    \<Rightarrow> ('conn, 'w, 'l, 'x) node_state \<Rightarrow> (RemoteInfo list \<times> ('conn, 'w, 'l, 'x) node_state) outcome" where
  "getRemoteInfos env win chain headBlock ts s =
     outcome_bind (remote_infos env win chain headBlock ts s) (\<lambda>(is, s1).
     Ok (sort_key (\<lambda>r. (ri_Priority r, ri_Name r)) is, s1))"

section \<open>Chains\<close>

fun any_usable :: "('conn, 'w, 'l, 'x) node_env \<Rightarrow> (string \<times> RemoteTarget) list \<Rightarrow> ('conn, 'w, 'l, 'x) node_state
    \<Rightarrow> (bool \<times> ('conn, 'w, 'l, 'x) node_state) outcome" where
  "any_usable env [] s = Ok (False, s)"
| "any_usable env ((name, t) # ts) s =
     (case Doctor_CanUse (ev_clk env s) (rd (doctor_cell (rt_ptr t)) s) of
        None \<Rightarrow> Panic ''waits for the first check''
      | Some (True, d) \<Rightarrow> Ok (True, wr (doctor_cell (rt_ptr t)) d s)
      | Some (False, d) \<Rightarrow> any_usable env ts (wr (doctor_cell (rt_ptr t)) d s))"

definition getChainStatus :: "('conn, 'w, 'l, 'x) node_env \<Rightarrow> Clusters \<Rightarrow> (string \<Rightarrow> (string \<times> RemoteTarget) list) \<Rightarrow> string
    \<Rightarrow> ('conn, 'w, 'l, 'x) node_state \<Rightarrow> (HealthStatus \<times> ('conn, 'w, 'l, 'x) node_state) outcome" where
  "getChainStatus env cs listing name s =
     (case cs_Remotes cs name of
        None \<Rightarrow> Ok (HealthStatusUnknown, s)
      | Some _ \<Rightarrow>
          outcome_bind (any_usable env (listing name) s) (\<lambda>(b, s1).
          Ok (if b then HealthStatusHealthy else HealthStatusUnhealthy, s1)))"

text \<open>The head of the chain; the error of the head store is ignored.\<close>

definition head_or_zero :: "('conn, 'w, 'l, 'x) node_env \<Rightarrow> Chain \<Rightarrow> ('conn, 'w, 'l, 'x) node_state \<Rightarrow> u64 outcome" where
  "head_or_zero env chain s = (case ev_hget env (ch_Name chain) s of Ok n \<Rightarrow> Ok n | Err e \<Rightarrow> Ok 0 | Panic m \<Rightarrow> Panic m)"

definition chain_detail :: "('conn, 'w, 'l, 'x) node_env \<Rightarrow> (int list \<Rightarrow> int list) \<Rightarrow> Clusters \<Rightarrow> (string \<Rightarrow> (string \<times> RemoteTarget) list) \<Rightarrow> string \<Rightarrow> Chain
    \<Rightarrow> ('conn, 'w, 'l, 'x) node_state \<Rightarrow> ((ChainInfo \<times> RemoteInfo list) \<times> ('conn, 'w, 'l, 'x) node_state) outcome" where
  "chain_detail env win cs listing name chain s =
     outcome_bind (head_or_zero env chain s) (\<lambda>head.
     outcome_bind (getRemoteInfos env win chain head (listing name) s) (\<lambda>(remotes, s1).
     outcome_bind (getChainStatus env cs listing name s1) (\<lambda>(status, s2).
       let healthy = length (filter (\<lambda>r. ri_Status r = HealthStatusHealthy) remotes) in
       Ok ((\<lparr>ci_Name = ch_Name chain, ci_ChainID = i64_to_u64 (ch_Id chain), ci_HeadBlock = head, ci_Status = status,
             ci_RemoteCount = length remotes, ci_HealthyCount = healthy, ci_UnhealthyCount = length remotes - healthy\<rparr>, remotes), s2))))"

fun chain_infos :: "('conn, 'w, 'l, 'x) node_env \<Rightarrow> (int list \<Rightarrow> int list) \<Rightarrow> Clusters \<Rightarrow> (string \<Rightarrow> (string \<times> RemoteTarget) list) \<Rightarrow> Chain list
    \<Rightarrow> ('conn, 'w, 'l, 'x) node_state \<Rightarrow> (ChainInfo list \<times> ('conn, 'w, 'l, 'x) node_state) outcome" where
  "chain_infos env win cs listing [] s = Ok ([], s)"
| "chain_infos env win cs listing (chain # chs) s =
     outcome_bind (chain_detail env win cs listing (ch_Name chain) chain s) (\<lambda>((i, _), s1).
     outcome_bind (chain_infos env win cs listing chs s1) (\<lambda>(is, s2). Ok (i # is, s2)))"

definition getChainInfos :: "('conn, 'w, 'l, 'x) node_env \<Rightarrow> (int list \<Rightarrow> int list) \<Rightarrow> Clusters \<Rightarrow> (string \<Rightarrow> (string \<times> RemoteTarget) list) \<Rightarrow> Chain list
    \<Rightarrow> ('conn, 'w, 'l, 'x) node_state \<Rightarrow> (ChainInfo list \<times> ('conn, 'w, 'l, 'x) node_state) outcome" where
  "getChainInfos env win cs listing chs s =
     outcome_bind (chain_infos env win cs listing chs s) (\<lambda>(is, s1). Ok (sort_key ci_Name is, s1))"

section \<open>Pages\<close>

datatype page =
    IndexPage "ChainInfo list"
  | ChainCards "ChainInfo list"
  | ChainDetail ChainInfo "RemoteInfo list"
  | RemotesList "RemoteInfo list"
  | NotFoundPage string

definition handleDashboard :: "('conn, 'w, 'l, 'x) node_env \<Rightarrow> (int list \<Rightarrow> int list) \<Rightarrow> Clusters \<Rightarrow> (string \<Rightarrow> (string \<times> RemoteTarget) list) \<Rightarrow> Chain list
    \<Rightarrow> ('conn, 'w, 'l, 'x) node_state \<Rightarrow> (page \<times> ('conn, 'w, 'l, 'x) node_state) outcome" where
  "handleDashboard env win cs listing chs s = outcome_bind (getChainInfos env win cs listing chs s) (\<lambda>(is, s1). Ok (IndexPage is, s1))"

definition handleChainsUpdate :: "('conn, 'w, 'l, 'x) node_env \<Rightarrow> (int list \<Rightarrow> int list) \<Rightarrow> Clusters \<Rightarrow> (string \<Rightarrow> (string \<times> RemoteTarget) list) \<Rightarrow> Chain list
    \<Rightarrow> ('conn, 'w, 'l, 'x) node_state \<Rightarrow> (page \<times> ('conn, 'w, 'l, 'x) node_state) outcome" where
  "handleChainsUpdate env win cs listing chs s = outcome_bind (getChainInfos env win cs listing chs s) (\<lambda>(is, s1). Ok (ChainCards is, s1))"

definition handleChainDetail :: "('conn, 'w, 'l, 'x) node_env \<Rightarrow> (int list \<Rightarrow> int list) \<Rightarrow> Clusters \<Rightarrow> (string \<Rightarrow> (string \<times> RemoteTarget) list) \<Rightarrow> (string \<rightharpoonup> Chain)
    \<Rightarrow> string \<Rightarrow> ('conn, 'w, 'l, 'x) node_state \<Rightarrow> (page \<times> ('conn, 'w, 'l, 'x) node_state) outcome" where
  "handleChainDetail env win cs listing chs name s =
     (case chs name of
        None \<Rightarrow> Ok (NotFoundPage ''Chain not found'', s)
      | Some chain \<Rightarrow> outcome_bind (chain_detail env win cs listing name chain s) (\<lambda>((i, rs), s1). Ok (ChainDetail i rs, s1)))"

definition handleRemotesUpdate :: "('conn, 'w, 'l, 'x) node_env \<Rightarrow> (int list \<Rightarrow> int list) \<Rightarrow> (string \<Rightarrow> (string \<times> RemoteTarget) list) \<Rightarrow> (string \<rightharpoonup> Chain)
    \<Rightarrow> string \<Rightarrow> ('conn, 'w, 'l, 'x) node_state \<Rightarrow> (page \<times> ('conn, 'w, 'l, 'x) node_state) outcome" where
  "handleRemotesUpdate env win listing chs name s =
     (case chs name of
        None \<Rightarrow> Ok (NotFoundPage ''Chain not found'', s)
      | Some chain \<Rightarrow>
          outcome_bind (head_or_zero env chain s) (\<lambda>head.
          outcome_bind (getRemoteInfos env win chain head (listing name) s) (\<lambda>(rs, s1). Ok (RemotesList rs, s1))))"

section \<open>Lemmas\<close>

text \<open>The remotes that a view asks, and what it does to a remote.\<close>

definition configured :: "Chain \<Rightarrow> string \<times> RemoteTarget \<Rightarrow> bool" where
  "configured chain x \<longleftrightarrow> List.find (\<lambda>cfg. rem_Name cfg = fst x) (ch_Remotes chain) \<noteq> None"

definition viewed :: "Chain \<Rightarrow> (string \<times> RemoteTarget) list \<Rightarrow> nat set" where
  "viewed chain ts = (\<lambda>x. rt_ptr (snd x)) ` {x \<in> set ts. configured chain x}"

definition touch :: "int \<Rightarrow> ('conn, 'w, 'l) remote_state \<Rightarrow> ('conn, 'w, 'l) remote_state" where
  "touch now r = (case Doctor_CanUse now (rs_doctor r) of Some (_, d) \<Rightarrow> r\<lparr>rs_doctor := d\<rparr> | None \<Rightarrow> r)"

definition info_at :: "('conn, 'w, 'l, 'x) node_env \<Rightarrow> (int list \<Rightarrow> int list) \<Rightarrow> Chain \<Rightarrow> u64 \<Rightarrow> ('conn, 'w, 'l, 'x) node_state
    \<Rightarrow> string \<times> RemoteTarget \<Rightarrow> RemoteInfo list" where
  "info_at env win chain head s x =
     (case List.find (\<lambda>cfg. rem_Name cfg = fst x) (ch_Remotes chain) of
        None \<Rightarrow> []
      | Some cfg \<Rightarrow> (case remote_info env win head (fst x) (snd x) cfg s of Ok (i, _) \<Rightarrow> [i] | _ \<Rightarrow> []))"

lemmas cell_defs = doctor_cell_def validator_cell_def collector_cell_def remote_cell_def remotes_cell_def field_cell_def
  entry_cell_def own_cell_def upd_def

lemma wr_doctor: "wr (doctor_cell p) d s = s\<lparr>nd_remotes := (nd_remotes s)(p := (nd_remotes s p)\<lparr>rs_doctor := d\<rparr>)\<rparr>"
  by (simp add: cell_defs)

lemma rd_remote:
  "rd (doctor_cell p) s = rs_doctor (nd_remotes s p)"
  "rd (validator_cell p) s = rs_validator (nd_remotes s p)"
  "rd (collector_cell p) s = rs_collector (nd_remotes s p)"
  by (simp_all add: cell_defs)

lemma info_at_names: "i \<in> set (info_at env win chain head s x) \<Longrightarrow> ri_Name i = fst x \<and> configured chain x"
  by (cases "List.find (\<lambda>cfg. rem_Name cfg = fst x) (ch_Remotes chain)")
    (auto simp: info_at_def remote_info_def configured_def Let_def split: option.splits prod.splits)

lemma info_at_status:
  "i \<in> set (info_at env win chain head s x) \<Longrightarrow> ri_Status i = dr_health (rs_doctor (nd_remotes s (rt_ptr (snd x))))"
  by (auto simp: info_at_def remote_info_def Doctor_CanUse_def rd_remote Let_def split: option.splits outcome.splits prod.splits
      HealthStatus.splits if_splits)

text \<open>A view of one remote leaves the others and the clock alone.\<close>

lemma info_at_frame:
  assumes "\<And>p d s. ev_clk env (wr (doctor_cell p) d s) = ev_clk env s" and "rt_ptr (snd x) \<noteq> p"
  shows "info_at env win chain head (wr (doctor_cell p) d s) x = info_at env win chain head s x"
  using assms(2) assms(1) [of p d s]
  by (simp add: info_at_def remote_info_def rd_remote wr_doctor Let_def split: option.split prod.split)

lemma viewed_Cons: "viewed chain (x # ts) = (if configured chain x then insert (rt_ptr (snd x)) (viewed chain ts) else viewed chain ts)"
  by (auto simp: viewed_def)

lemma remote_info_known:
  assumes "List.find (\<lambda>cfg. rem_Name cfg = fst x) (ch_Remotes chain) = Some cfg"
    and "Doctor_CanUse (ev_clk env s) (rs_doctor (nd_remotes s (rt_ptr (snd x)))) = Some (b, d)"
  shows "\<exists>i. remote_info env win head (fst x) (snd x) cfg s = Ok (i, wr (doctor_cell (rt_ptr (snd x))) d s) \<and> info_at env win chain head s x = [i]"
  using assms by (simp add: remote_info_def info_at_def rd_remote Let_def split_beta)

definition view_state :: "int \<Rightarrow> nat set \<Rightarrow> ('conn, 'w, 'l, 'x) node_state \<Rightarrow> ('conn, 'w, 'l, 'x) node_state" where
  "view_state now ps s = s\<lparr>nd_remotes := (\<lambda>p. if p \<in> ps then touch now (nd_remotes s p) else nd_remotes s p)\<rparr>"

lemma remote_infos_Ok:
  assumes clk: "\<And>p d s. ev_clk env (wr (doctor_cell p) d s) = ev_clk env s"
    and "distinct (map (\<lambda>x. rt_ptr (snd x)) ts)"
  shows "remote_infos env win chain head ts s =
     (if \<forall>p \<in> viewed chain ts. dr_health (rs_doctor (nd_remotes s p)) \<noteq> HealthStatusUnknown
      then Ok (concat (map (info_at env win chain head s) ts), view_state (ev_clk env s) (viewed chain ts) s)
      else Panic ''waits for the first check'')"
  using assms(2)
proof (induction ts arbitrary: s)
  case (Cons x ts)
  obtain name t where x: "x = (name, t)" by (cases x)
  show ?case
  proof (cases "List.find (\<lambda>cfg. rem_Name cfg = name) (ch_Remotes chain)")
    case None
    then have "info_at env win chain head s x = []" "\<not> configured chain x" using x by (simp_all add: info_at_def configured_def)
    then show ?thesis using Cons None x by (simp add: viewed_Cons)
  next
    case (Some cfg)
    let ?d = "rs_doctor (nd_remotes s (rt_ptr t))"
    have c: "configured chain x" using Some x by (simp add: configured_def)
    have nin: "rt_ptr t \<notin> viewed chain ts" using Cons.prems x by (auto simp: viewed_def)
    show ?thesis
    proof (cases "Doctor_CanUse (ev_clk env s) ?d")
      case None
      then have "dr_health ?d = HealthStatusUnknown" by (simp add: Doctor_CanUse_def split: HealthStatus.splits)
      then show ?thesis using None Some x c
        by (simp add: viewed_Cons remote_info_def rd_remote Let_def split_beta)
    next
      case (Some y)
      obtain b d where y: "y = (b, d)" by (cases y)
      let ?s1 = "wr (doctor_cell (rt_ptr t)) d s"
      have known: "dr_health ?d \<noteq> HealthStatusUnknown" using Some by (auto simp: Doctor_CanUse_def split: HealthStatus.splits)
      obtain i where i: "remote_info env win head name t cfg s = Ok (i, ?s1)" "info_at env win chain head s x = [i]"
        using remote_info_known [of x chain cfg env s b d win head] Some y x \<open>List.find _ _ = Some cfg\<close> by auto
      have fr: "concat (map (info_at env win chain head ?s1) ts) = concat (map (info_at env win chain head s) ts)"
        using Cons.prems x by (intro arg_cong [where f = concat] map_cong refl info_at_frame clk) (auto simp: image_iff)
      have same: "nd_remotes ?s1 p = nd_remotes s p" if "p \<in> viewed chain ts" for p
        using that nin by (auto simp: wr_doctor)
      have vs: "view_state (ev_clk env s) (viewed chain ts) ?s1 = view_state (ev_clk env s) (viewed chain (x # ts)) s"
        unfolding view_state_def using nin c x Some y
        by (intro node_state.equality) (auto simp: viewed_Cons wr_doctor touch_def fun_eq_iff)
      have IH: "remote_infos env win chain head ts ?s1 =
          (if \<forall>p \<in> viewed chain ts. dr_health (rs_doctor (nd_remotes s p)) \<noteq> HealthStatusUnknown
           then Ok (concat (map (info_at env win chain head s) ts), view_state (ev_clk env s) (viewed chain (x # ts)) s)
           else Panic ''waits for the first check'')"
        using Cons.IH [of ?s1] Cons.prems fr vs clk same by simp
      show ?thesis
        using known c x \<open>List.find _ _ = Some cfg\<close> i IH by (simp add: viewed_Cons)
    qed
  qed
qed (simp add: viewed_def view_state_def)

text \<open>The names of the infos are those of the remotes in the order of the list.\<close>

lemma infos_names:
  assumes "distinct (map fst ts)"
  shows "distinct (map ri_Name (concat (map (info_at env win chain head s) ts)))"
  using assms
proof (induction ts)
  case (Cons x ts)
  have "length (info_at env win chain head s x) \<le> 1"
    by (simp add: info_at_def split: option.split outcome.split prod.split)
  then have "distinct (map ri_Name (info_at env win chain head s x))"
    by (cases "info_at env win chain head s x") auto
  then show ?case using Cons by (auto dest!: info_at_names simp: image_iff)
qed simp

lemma infos_found:
  assumes "\<forall>p \<in> viewed chain ts. dr_health (rs_doctor (nd_remotes s p)) \<noteq> HealthStatusUnknown" and "x \<in> set ts" and "configured chain x"
  shows "\<exists>i \<in> set (info_at env win chain head s x). ri_Name i = fst x"
proof -
  obtain cfg where cfg: "List.find (\<lambda>cfg. rem_Name cfg = fst x) (ch_Remotes chain) = Some cfg" using assms(3) by (auto simp: configured_def)
  have "rt_ptr (snd x) \<in> viewed chain ts" using assms(2,3) by (auto simp: viewed_def)
  then obtain b d where "Doctor_CanUse (ev_clk env s) (rs_doctor (nd_remotes s (rt_ptr (snd x)))) = Some (b, d)"
    using assms(1) by (cases "dr_health (rs_doctor (nd_remotes s (rt_ptr (snd x))))") (auto simp: Doctor_CanUse_def)
  then show ?thesis by (simp add: info_at_def cfg remote_info_def rd_remote Let_def split_beta)
qed

lemma infos_name_set:
  assumes "\<forall>p \<in> viewed chain ts. dr_health (rs_doctor (nd_remotes s p)) \<noteq> HealthStatusUnknown"
  shows "ri_Name ` set (sort_key f (concat (map (info_at env win chain head s) ts))) = fst ` {x \<in> set ts. configured chain x}"
proof (intro set_eqI iffI)
  fix n
  assume "n \<in> ri_Name ` set (sort_key f (concat (map (info_at env win chain head s) ts)))"
  then obtain x i where x: "x \<in> set ts" "i \<in> set (info_at env win chain head s x)" "n = ri_Name i" by auto
  with info_at_names [OF x(2)] show "n \<in> fst ` {x \<in> set ts. configured chain x}" by blast
next
  fix n
  assume "n \<in> fst ` {x \<in> set ts. configured chain x}"
  then obtain x where x: "x \<in> set ts" "configured chain x" "n = fst x" by auto
  obtain i where "i \<in> set (info_at env win chain head s x)" "ri_Name i = fst x" using infos_found [OF assms x(1,2)] by blast
  then show "n \<in> ri_Name ` set (sort_key f (concat (map (info_at env win chain head s) ts)))" using x by (simp add: image_iff) metis
qed

lemma infos_mset:
  "mset (concat (map (info_at env win chain head s) ts)) = sum_mset (image_mset (\<lambda>x. mset (info_at env win chain head s x)) (mset ts))"
  by (induction ts) simp_all

lemma sorted_infos_perm:
  assumes "mset xs = mset ys" and "distinct (map ri_Name xs)"
  shows "sort_key (\<lambda>r. (ri_Priority r, ri_Name r)) xs = sort_key (\<lambda>r. (ri_Priority r, ri_Name r)) ys"
proof (rule sort_key_inj_key_eq)
  show "inj_on (\<lambda>r. (ri_Priority r, ri_Name r)) (set xs)" using assms(2) by (auto simp: distinct_map inj_on_def)
qed (simp_all add: assms(1))

text \<open>A chain is shown as healthy when one of its remotes is.\<close>

lemma any_usable_iff:
  "any_usable env ts s = Ok (b, s') \<Longrightarrow> b \<longleftrightarrow> (\<exists>x \<in> set ts. dr_health (rs_doctor (nd_remotes s (rt_ptr (snd x)))) = HealthStatusHealthy)"
proof (induction ts arbitrary: s)
  case (Cons x ts)
  obtain name t where x: "x = (name, t)" by (cases x)
  show ?case
  proof (cases "dr_health (rs_doctor (nd_remotes s (rt_ptr t)))")
    case HealthStatusUnhealthy
    then have "Doctor_CanUse (ev_clk env s) (rd (doctor_cell (rt_ptr t)) s) = Some (False, rd (doctor_cell (rt_ptr t)) s)"
      by (simp add: Doctor_CanUse_def rd_remote)
    then show ?thesis using Cons x HealthStatusUnhealthy by (simp add: doctor.wr_rd)
  qed (use Cons x in \<open>auto simp: Doctor_CanUse_def rd_remote\<close>)
qed simp

lemma view_state_health: "dr_health (rs_doctor (nd_remotes (view_state now ps s) p)) = dr_health (rs_doctor (nd_remotes s p))"
  by (simp add: view_state_def touch_def Doctor_CanUse_def split: HealthStatus.split)

lemma chain_detail_adds_up:
  assumes "\<And>p d s. ev_clk env (wr (doctor_cell p) d s) = ev_clk env s" and "distinct (map (\<lambda>x. rt_ptr (snd x)) (listing name))"
    and "\<forall>x \<in> set (listing name). configured chain x" and "chain_detail env win cs listing name chain s = Ok ((i, rs), s')"
  shows "ci_HealthyCount i + ci_UnhealthyCount i = ci_RemoteCount i \<and>
     ci_Status i = (if cs_Remotes cs name = None then HealthStatusUnknown
       else if 0 < ci_HealthyCount i then HealthStatusHealthy else HealthStatusUnhealthy)"
proof -
  let ?h = "\<lambda>r. ri_Status r = HealthStatusHealthy" and ?H = "\<lambda>x. dr_health (rs_doctor (nd_remotes s (rt_ptr (snd x)))) = HealthStatusHealthy"
  obtain head s1 st where g: "getRemoteInfos env win chain head (listing name) s = Ok (rs, s1)"
      and st: "getChainStatus env cs listing name s1 = Ok (st, s')" "ci_Status i = st"
      and n: "ci_HealthyCount i = length (filter ?h rs)" "ci_RemoteCount i = length rs" "ci_UnhealthyCount i = length rs - length (filter ?h rs)"
    using assms(4) by (auto simp: chain_detail_def outcome_bind_Ok_iff Let_def)
  have kn: "\<forall>p \<in> viewed chain (listing name). dr_health (rs_doctor (nd_remotes s p)) \<noteq> HealthStatusUnknown"
    and s1: "s1 = view_state (ev_clk env s) (viewed chain (listing name)) s"
    and rs: "set rs = (\<Union>x \<in> set (listing name). set (info_at env win chain head s x))"
    using g by (auto simp: getRemoteInfos_def outcome_bind_Ok_iff remote_infos_Ok [OF assms(1,2)] split: if_splits)
  have "(\<exists>r \<in> set rs. ?h r) \<longleftrightarrow> (\<exists>x \<in> set (listing name). ?H x)"
  proof
    assume "\<exists>r \<in> set rs. ?h r"
    then obtain r x where "?h r" "x \<in> set (listing name)" "r \<in> set (info_at env win chain head s x)" using rs by auto
    then show "\<exists>x \<in> set (listing name). ?H x" using info_at_status by (metis (no_types))
  next
    assume "\<exists>x \<in> set (listing name). ?H x"
    then obtain x where x: "x \<in> set (listing name)" "?H x" by blast
    then obtain r where "r \<in> set (info_at env win chain head s x)" using infos_found [OF kn x(1)] assms(3) by blast
    then show "\<exists>r \<in> set rs. ?h r" using x rs info_at_status [of r env win chain head s x] by auto
  qed
  moreover have "0 < ci_HealthyCount i \<longleftrightarrow> (\<exists>r \<in> set rs. ?h r)" using n(1) by (auto simp: filter_empty_conv)
  ultimately show ?thesis
    using st n s1 any_usable_iff [of env "listing name" s1] view_state_health [of "ev_clk env s" "viewed chain (listing name)" s]
    by (auto simp: getChainStatus_def outcome_bind_Ok_iff split: option.splits if_splits)
qed

text \<open>Asking a second time at the same moment changes nothing more.\<close>

lemma remote_infos_clock:
  assumes "\<And>p d s. ev_clk env (wr (doctor_cell p) d s) = ev_clk env s"
  shows "remote_infos env win chain head ts s = Ok (is, s') \<Longrightarrow> ev_clk env s' = ev_clk env s"
proof (induction ts arbitrary: s "is")
  case (Cons x ts)
  have one: "ev_clk env s1 = ev_clk env s" if "remote_info env win head name t cfg s = Ok (i, s1)" for name t cfg i s1
    using that assms by (auto simp: remote_info_def Let_def split: option.splits prod.splits)
  obtain name t where x: "x = (name, t)" by (cases x)
  show ?case
  proof (cases "List.find (\<lambda>cfg. rem_Name cfg = name) (ch_Remotes chain)")
    case None
    then show ?thesis using Cons x by simp
  next
    case (Some cfg)
    then obtain i s1 js where "remote_info env win head name t cfg s = Ok (i, s1)" "remote_infos env win chain head ts s1 = Ok (js, s')"
      using Cons.prems x by (auto simp: outcome_bind_Ok_iff)
    then show ?thesis using one Cons.IH by metis
  qed
qed simp

lemma touch_twice: "touch now (touch now r) = touch now r"
  by (cases "dr_health (rs_doctor r)") (simp_all add: touch_def Doctor_CanUse_def)

lemma any_usable_again:
  "any_usable env ts s = Ok (b, s') \<Longrightarrow> \<forall>x \<in> set ts. touch (ev_clk env s) (nd_remotes s (rt_ptr (snd x))) = nd_remotes s (rt_ptr (snd x)) \<Longrightarrow> s' = s"
proof (induction ts arbitrary: s)
  case (Cons x ts)
  obtain name t where x: "x = (name, t)" by (cases x)
  then obtain y d where y: "Doctor_CanUse (ev_clk env s) (rd (doctor_cell (rt_ptr t)) s) = Some (y, d)"
    using Cons.prems(1) by (cases "Doctor_CanUse (ev_clk env s) (rd (doctor_cell (rt_ptr t)) s)") auto
  then have "rs_doctor (touch (ev_clk env s) (nd_remotes s (rt_ptr t))) = d" by (simp add: touch_def rd_remote)
  then have "d = rd (doctor_cell (rt_ptr t)) s" using Cons.prems(2) x by (simp add: rd_remote)
  then have "wr (doctor_cell (rt_ptr t)) d s = s" by (simp add: doctor.wr_rd)
  then show ?case using Cons y x by (cases y) auto
qed simp

lemma chain_detail_state:
  assumes "\<And>p d s. ev_clk env (wr (doctor_cell p) d s) = ev_clk env s" and "distinct (map (\<lambda>x. rt_ptr (snd x)) (listing name))"
    and "\<forall>x \<in> set (listing name). configured chain x" and "chain_detail env win cs listing name chain s = Ok (y, s')"
  shows "s' = view_state (ev_clk env s) (viewed chain (listing name)) s"
proof -
  obtain head rs s1 st where g: "getRemoteInfos env win chain head (listing name) s = Ok (rs, s1)"
      and st: "getChainStatus env cs listing name s1 = Ok (st, s')"
    using assms(4) by (auto simp: chain_detail_def outcome_bind_Ok_iff Let_def)
  have s1: "s1 = view_state (ev_clk env s) (viewed chain (listing name)) s"
    using g by (auto simp: getRemoteInfos_def outcome_bind_Ok_iff remote_infos_Ok [OF assms(1,2)] split: if_splits)
  have clk: "ev_clk env s1 = ev_clk env s"
    using g remote_infos_clock [where env = env, OF assms(1)] by (auto simp: getRemoteInfos_def outcome_bind_Ok_iff)
  have "touch (ev_clk env s1) (nd_remotes s1 (rt_ptr (snd x))) = nd_remotes s1 (rt_ptr (snd x))" if "x \<in> set (listing name)" for x
  proof -
    have "rt_ptr (snd x) \<in> viewed chain (listing name)" using that assms(3) by (auto simp: viewed_def)
    then have "nd_remotes s1 (rt_ptr (snd x)) = touch (ev_clk env s) (nd_remotes s (rt_ptr (snd x)))" unfolding s1 by (simp add: view_state_def)
    then show ?thesis by (simp add: clk touch_twice)
  qed
  then have "s' = s1"
    using st any_usable_again [of env "listing name" s1] by (auto simp: getChainStatus_def outcome_bind_Ok_iff split: option.splits)
  then show ?thesis using s1 by simp
qed

section \<open>Properties\<close>

text \<open>
  The list of remotes on the dashboard does not depend on the order in which the table of remotes
  is ranged over: it has one entry for every remote of the table that the chain configures, sorted
  by priority and then by name, each with the health that its doctor has concluded; and no view
  fails unless a remote is still waiting for its first health check.
\<close>

theorem dashboard_lists_remotes:
  assumes "\<And>p d s. ev_clk env (wr (doctor_cell p) d s) = ev_clk env s"
    and "distinct (map fst ts)" and "distinct (map (\<lambda>x. rt_ptr (snd x)) ts)"
    and "\<forall>p \<in> viewed chain ts. dr_health (rs_doctor (nd_remotes s p)) \<noteq> HealthStatusUnknown"
  shows "\<exists>is s'. (\<forall>ts'. mset ts' = mset ts \<longrightarrow> getRemoteInfos env win chain head ts' s = Ok (is, s')) \<and>
     sorted (map (\<lambda>r. (ri_Priority r, ri_Name r)) is) \<and> distinct (map ri_Name is) \<and>
     ri_Name ` set is = fst ` {x \<in> set ts. configured chain x} \<and>
     (\<forall>i \<in> set is. \<exists>t. (ri_Name i, t) \<in> set ts \<and> ri_Status i = dr_health (rs_doctor (nd_remotes s (rt_ptr t))))"
proof -
  let ?infos = "\<lambda>ts. concat (map (info_at env win chain head s) ts)"
  let ?is = "sort_key (\<lambda>r. (ri_Priority r, ri_Name r)) (?infos ts)"
  have "getRemoteInfos env win chain head ts' s = Ok (?is, view_state (ev_clk env s) (viewed chain ts) s)" if perm: "mset ts' = mset ts" for ts'
  proof -
    have v: "viewed chain ts' = viewed chain ts" using mset_eq_setD [OF perm] by (simp add: viewed_def)
    have "distinct (map (\<lambda>x. rt_ptr (snd x)) ts')" using assms(3) perm mset_eq_imp_distinct_iff [of "map (\<lambda>x. rt_ptr (snd x)) ts'" "map (\<lambda>x. rt_ptr (snd x)) ts"] by simp
    then have "remote_infos env win chain head ts' s = Ok (?infos ts', view_state (ev_clk env s) (viewed chain ts) s)"
      using remote_infos_Ok [OF assms(1)] assms(4) v by simp
    moreover have "mset (?infos ts) = mset (?infos ts')" by (simp only: infos_mset perm)
    note sorted_infos_perm [OF this infos_names [OF assms(2)]]
    ultimately show ?thesis by (simp add: getRemoteInfos_def)
  qed
  moreover have "distinct (map ri_Name ?is)"
    using infos_names [OF assms(2)] by (simp add: distinct_map)
  moreover have "ri_Name ` set ?is = fst ` {x \<in> set ts. configured chain x}"
    by (rule infos_name_set [OF assms(4)])
  moreover have "\<exists>t. (ri_Name i, t) \<in> set ts \<and> ri_Status i = dr_health (rs_doctor (nd_remotes s (rt_ptr t)))" if "i \<in> set ?is" for i
  proof -
    obtain x where x: "x \<in> set ts" "i \<in> set (info_at env win chain head s x)" using \<open>i \<in> set ?is\<close> by auto
    with info_at_names [OF x(2)] info_at_status [OF x(2)] show ?thesis by (intro exI [of _ "snd x"]) simp
  qed
  ultimately show ?thesis
    by (intro exI [of _ ?is] exI [of _ "view_state (ev_clk env s) (viewed chain ts) s"] conjI) simp_all
qed

text \<open>
  C39: Looking at the dashboard is not without effect. The page of a chain and the list of its remotes
  set the next health check of every healthy remote they show to the minimal interval from now, as a
  request would, and reset the interval to the minimal one: a check that was due earlier is put off,
  one that was due later is brought forward. They change nothing else in the node. The clock is not
  part of a doctor, the remotes have distinct state, and those listed are the configured ones.
\<close>

theorem dashboard_rearms_checks:
  assumes "\<And>p d s. ev_clk env (wr (doctor_cell p) d s) = ev_clk env s" and "distinct (map (\<lambda>x. rt_ptr (snd x)) (listing name))"
    and "chs name = Some chain" and "\<forall>x \<in> set (listing name). configured chain x"
    and "handleChainDetail env win cs listing chs name s = Ok (pg, s') \<or> handleRemotesUpdate env win listing chs name s = Ok (pg, s')"
  shows "s' = s\<lparr>nd_remotes := (\<lambda>p. let r = nd_remotes s p; d = rs_doctor r in
     if p \<in> (\<lambda>x. rt_ptr (snd x)) ` set (listing name) \<and> dr_health d = HealthStatusHealthy
     then r\<lparr>rs_doctor := d\<lparr>dr_interval := dr_minInterval d, dr_due := ev_clk env s + dr_minInterval d\<rparr>\<rparr> else r)\<rparr>"
proof -
  have all: "viewed chain (listing name) = (\<lambda>x. rt_ptr (snd x)) ` set (listing name)" using assms(4) by (auto simp: viewed_def)
  have "s' = view_state (ev_clk env s) (viewed chain (listing name)) s"
    using assms(5)
  proof
    assume "handleChainDetail env win cs listing chs name s = Ok (pg, s')"
    then show ?thesis
      using chain_detail_state [where env = env and listing = listing and name = name, OF assms(1,2,4)] assms(3) by (auto simp: handleChainDetail_def outcome_bind_Ok_iff)
  next
    assume "handleRemotesUpdate env win listing chs name s = Ok (pg, s')"
    then show ?thesis
      using assms(3) by (auto simp: handleRemotesUpdate_def getRemoteInfos_def outcome_bind_Ok_iff remote_infos_Ok [OF assms(1,2)] split: if_splits)
  qed
  moreover have "touch now r = (if dr_health (rs_doctor r) = HealthStatusHealthy
      then r\<lparr>rs_doctor := (rs_doctor r)\<lparr>dr_interval := dr_minInterval (rs_doctor r), dr_due := now + dr_minInterval (rs_doctor r)\<rparr>\<rparr> else r)"
    for now and r :: "('a, 'b, 'c) remote_state"
    by (cases "dr_health (rs_doctor r)") (simp_all add: touch_def Doctor_CanUse_def)
  ultimately show ?thesis
    by (auto simp: view_state_def all Let_def fun_eq_iff intro!: node_state.equality)
qed

text \<open>A chain with two remotes, of which the slow one is listed first and the fast one is healthy.\<close>

definition demo_listing :: "(string \<times> RemoteTarget) list" where
  "demo_listing =
     [(''slow'', fst (NewRemoteTarget demo_env 0 Remote_zero demo_chain)), (''fast'', fst (NewRemoteTarget demo_env 1 Remote_zero demo_chain))]"

definition demo_watched :: "(unit, nat, nat, unit) node_state" where
  "demo_watched = demo_state\<lparr>nd_remotes := (\<lambda>p. demo_remote_state\<lparr>rs_doctor := (NewDoctor 1 ''eth'' ''r'' 10 100)\<lparr>dr_health :=
     (if p = 1 then HealthStatusHealthy else HealthStatusUnhealthy)\<rparr>\<rparr>)\<rparr>"

lemma demo_viewed: "viewed demo_node_chain demo_listing = {0, 1}"
  unfolding demo_listing_def viewed_Cons by (auto simp: viewed_def configured_def demo_node_chain_def NewRemoteTarget_def)

theorem dashboard_lists_remotes_witness:
  "\<exists>a b s'. getRemoteInfos demo_env id demo_node_chain 9 demo_listing demo_watched = Ok ([a, b], s') \<and>
     ri_Name ` {a, b} = {''fast'', ''slow''}"
proof -
  have "\<exists>is s'. (\<forall>ts'. mset ts' = mset demo_listing \<longrightarrow> getRemoteInfos demo_env id demo_node_chain 9 ts' demo_watched = Ok (is, s')) \<and>
     sorted (map (\<lambda>r. (ri_Priority r, ri_Name r)) is) \<and> distinct (map ri_Name is) \<and>
     ri_Name ` set is = fst ` {x \<in> set demo_listing. configured demo_node_chain x} \<and>
     (\<forall>i \<in> set is. \<exists>t. (ri_Name i, t) \<in> set demo_listing \<and> ri_Status i = dr_health (rs_doctor (nd_remotes demo_watched (rt_ptr t))))"
    by (rule dashboard_lists_remotes)
      (simp_all add: demo_env_def demo_listing_def demo_viewed [unfolded demo_listing_def demo_env_def] demo_watched_def NewRemoteTarget_def)
  then obtain "is" s' where g: "getRemoteInfos demo_env id demo_node_chain 9 demo_listing demo_watched = Ok (is, s')"
      and d: "distinct (map ri_Name is)" and n: "ri_Name ` set is = fst ` {x \<in> set demo_listing. configured demo_node_chain x}" by blast
  have "{x \<in> set demo_listing. configured demo_node_chain x} = set demo_listing"
    by (auto simp: demo_listing_def configured_def demo_node_chain_def)
  then have two: "fst ` {x \<in> set demo_listing. configured demo_node_chain x} = {''fast'', ''slow''}"
    by (auto simp: demo_listing_def)
  have "length is = card (ri_Name ` set is)" using d by (metis distinct_card length_map set_map)
  then have "length is = 2" unfolding n two by simp
  then obtain a b where "is = [a, b]" by (auto simp: length_Suc_conv numeral_2_eq_2)
  then show ?thesis using g n two by auto
qed

theorem dashboard_rearms_checks_witness:
  "\<exists>pg s'. handleRemotesUpdate demo_env id (\<lambda>_. demo_listing) [''eth'' \<mapsto> demo_node_chain] ''eth'' demo_watched = Ok (pg, s') \<and>
     dr_due (rs_doctor (nd_remotes s' 1)) = 10"
proof -
  have clk: "ev_clk demo_env (wr (doctor_cell p) d s) = ev_clk demo_env s" for p d s by (simp add: demo_env_def)
  have ds: "distinct (map (\<lambda>x. rt_ptr (snd x)) demo_listing)" by (simp add: demo_listing_def NewRemoteTarget_def)
  have c: "\<forall>x \<in> set demo_listing. configured demo_node_chain x" by (simp add: demo_listing_def configured_def demo_node_chain_def)
  have "head_or_zero demo_env demo_node_chain demo_watched = Ok 7" by (simp add: head_or_zero_def demo_env_def)
  then obtain pg s' where g: "handleRemotesUpdate demo_env id (\<lambda>_. demo_listing) [''eth'' \<mapsto> demo_node_chain] ''eth'' demo_watched = Ok (pg, s')"
    by (simp add: handleRemotesUpdate_def getRemoteInfos_def remote_infos_Ok [OF clk ds] demo_viewed demo_watched_def)
  have "1 \<in> (\<lambda>x. rt_ptr (snd x)) ` set demo_listing" by (simp add: demo_listing_def NewRemoteTarget_def)
  with dashboard_rearms_checks [where env = demo_env and listing = "\<lambda>_. demo_listing" and chs = "[''eth'' \<mapsto> demo_node_chain]" and name = "''eth''",
      OF clk ds _ c disjI2 [OF g]] g show ?thesis
    by (simp add: demo_watched_def NewDoctor_def demo_env_def Let_def)
qed

end
