(* ===== verification/Venn_Origin.thy ===== *)
theory Venn_Origin
  imports Venn_Util
begin

text \<open>
  \<open>lib/util/origin\<close>: matching the origin of a request against the patterns a gateway allows.
  \<open>parse\<close> is \<open>url.Parse\<close>, of which the scheme, the host name and the port are used. Case is folded
  on ASCII.
\<close>

section \<open>Splitting\<close>

record parsed_url =
  pu_Scheme :: string
  pu_Hostname :: string
  pu_Port :: string

definition wildcard :: string where "wildcard = ''*''"

definition anyValue :: string where "anyValue = ''*://*:*''"

definition knownPorts :: "string \<rightharpoonup> string" where
  "knownPorts = map_of [(''https'', ''443''), (''wss'', ''443''), (''http'', ''80''), (''ws'', ''80''), (''ftp'', ''23''), (''gopher'', ''70'')]"

text \<open>\<open>strings.Split\<close> with a separator of one character, and the part before and after \<open>://\<close>.\<close>

fun split_char :: "char \<Rightarrow> string \<Rightarrow> string list" where
  "split_char c [] = [[]]"
| "split_char c (x # xs) =
     (if x = c then [] # split_char c xs
      else (case split_char c xs of p # ps \<Rightarrow> (x # p) # ps | [] \<Rightarrow> [[x]]))"

fun split_scheme :: "string \<Rightarrow> (string \<times> string) option" where
  "split_scheme [] = None"
| "split_scheme (c # s) =
     (if prefix ''://'' (c # s) then Some ([], drop 3 (c # s))
      else map_option (\<lambda>(a, b). (c # a, b)) (split_scheme s))"

definition Split :: "(string \<Rightarrow> parsed_url outcome) \<Rightarrow> string \<Rightarrow> (string \<times> string \<times> string) outcome" where
  "Split parse origin =
     (case parse origin of
        Err e \<Rightarrow> Err (ErrorText (''invalid origin: '' @ error_text e))
      | Panic m \<Rightarrow> Panic m
      | Ok u \<Rightarrow>
          if pu_Scheme u = [] then Err (ErrorText ''invalid origin: missing scheme'')
          else if pu_Port u = [] then
            (case knownPorts (pu_Scheme u) of
               None \<Rightarrow> Err (ErrorText ''invalid origin: missing port'')
             | Some p \<Rightarrow> Ok (pu_Scheme u, pu_Hostname u, p))
          else Ok (pu_Scheme u, pu_Hostname u, pu_Port u))"

text \<open>Without a scheme the error is prepared, but the second part is indexed all the same.\<close>

definition splitPattern :: "string \<Rightarrow> (string \<times> string \<times> string) outcome" where
  "splitPattern pattern =
     (if pattern = wildcard then Ok (wildcard, wildcard, wildcard)
      else
        (case split_scheme pattern of
           None \<Rightarrow> Panic ''index out of range [1] with length 1''
         | Some (scheme, host) \<Rightarrow>
             if CHR '':'' \<in> set host then
               (case SplitHostPort host of
                  None \<Rightarrow> Err (ErrorText ''invalid pattern'')
                | Some (h, p) \<Rightarrow> Ok (scheme, h, p))
             else
               (case knownPorts scheme of
                  None \<Rightarrow> Err (ErrorText ''invalid origin: missing port'')
                | Some p \<Rightarrow> Ok (scheme, host, p))))"

section \<open>Matching\<close>

definition origin_normalize :: "string \<Rightarrow> string" where
  "origin_normalize s = to_lower (trim_space s)"

text \<open>The loop over the labels, from the last to the first.\<close>

fun match_labels :: "string list \<Rightarrow> string list \<Rightarrow> nat \<Rightarrow> bool" where
  "match_labels a b 0 = True"
| "match_labels a b (Suc i) =
     (if length b < i + 1 then False
      else if a ! i = wildcard \<or> b ! i = wildcard then match_labels a b i
      else if a ! i \<noteq> b ! i then False
      else match_labels a b i)"

definition matchHostname :: "string \<Rightarrow> string \<Rightarrow> bool" where
  "matchHostname origin pattern =
     (let a = split_char (CHR ''.'') (origin_normalize pattern); b = split_char (CHR ''.'') (origin_normalize origin) in
      if length a < length b then False else match_labels a b (length a))"

definition matchString :: "string \<Rightarrow> string \<Rightarrow> bool" where
  "matchString origin pattern =
     (if origin = [] then False else if pattern = wildcard then True else to_lower origin = to_lower pattern)"

definition Match :: "(string \<Rightarrow> parsed_url outcome) \<Rightarrow> string \<Rightarrow> string \<Rightarrow> bool outcome" where
  "Match parse origin pattern =
     outcome_bind (Split parse origin) (\<lambda>(os, oh, op).
       if pattern = [] then Err (ErrorText ''pattern cannot be an empty string'')
       else if pattern = wildcard \<or> pattern = anyValue then Ok True
       else outcome_bind (splitPattern pattern) (\<lambda>(ps, ph, pp).
         Ok (matchString os ps \<and> matchHostname oh ph \<and> matchString op pp)))"

fun Patterns_loop :: "(string \<Rightarrow> parsed_url outcome) \<Rightarrow> string \<Rightarrow> string list \<Rightarrow> bool outcome" where
  "Patterns_loop parse origin [] = Ok False"
| "Patterns_loop parse origin (item # p) =
     outcome_bind (Match parse origin item) (\<lambda>ok. if ok then Ok True else Patterns_loop parse origin p)"

definition Patterns_Match :: "(string \<Rightarrow> parsed_url outcome) \<Rightarrow> string list \<Rightarrow> string \<Rightarrow> bool outcome" where
  "Patterns_Match parse p origin = (if origin = [] then Ok False else Patterns_loop parse origin p)"

text \<open>\<open>Get\<close>: the header, where null stands for an opaque origin.\<close>

definition origin_Get :: "string \<Rightarrow> string" where
  "origin_Get hdr = (if to_lower hdr = ''null'' then [] else hdr)"

section \<open>Lemmas\<close>

lemma match_labels_iff:
  "match_labels a b n \<longleftrightarrow> n \<le> length b \<and> (\<forall>i < n. a ! i = wildcard \<or> b ! i = wildcard \<or> a ! i = b ! i)"
  by (induction n) (auto simp: less_Suc_eq Suc_le_eq)

text \<open>Host names match label by label, so only with the same number of labels.\<close>

lemma matchHostname_iff:
  "matchHostname origin pattern \<longleftrightarrow>
     list_all2 (\<lambda>a b. a = wildcard \<or> b = wildcard \<or> a = b)
       (split_char (CHR ''.'') (origin_normalize pattern)) (split_char (CHR ''.'') (origin_normalize origin))"
  by (auto simp: matchHostname_def Let_def match_labels_iff list_all2_conv_all_nth)

lemma Patterns_loop_True:
  "Patterns_loop parse origin p = Ok True \<longleftrightarrow>
     (\<exists>i < length p. Match parse origin (p ! i) = Ok True \<and> (\<forall>j < i. Match parse origin (p ! j) = Ok False))"
proof (induction p)
  case (Cons item p)
  show ?case
  proof (cases "Match parse origin item")
    case (Ok b)
    then show ?thesis
      using Cons.IH by (cases b) (simp_all add: Ex_less_Suc2 All_less_Suc2)
  qed (simp_all add: Ex_less_Suc2 All_less_Suc2)
qed simp

text \<open>
  A wildcard stands for exactly one label: \<open>*.example.com\<close> matches neither \<open>example.com\<close> nor
  \<open>a.b.example.com\<close>, and a lone \<open>*\<close> matches no host name with a dot.
\<close>

lemma wildcard_is_one_label:
  "length (split_char (CHR ''.'') (origin_normalize origin)) \<noteq> length (split_char (CHR ''.'') (origin_normalize pattern)) \<Longrightarrow>
   \<not> matchHostname origin pattern"
  by (auto simp: matchHostname_iff dest: list_all2_lengthD)

lemma deep_subdomain_refused: "\<not> matchHostname ''a.b.example.com'' ''*.example.com''"
  by (rule wildcard_is_one_label) (simp add: origin_normalize_def trim_space_def to_lower_def is_space_def lower_char_def code_def)

lemma pattern_without_scheme_panics:
  "split_scheme pattern = None \<Longrightarrow> pattern \<noteq> wildcard \<Longrightarrow> \<exists>m. splitPattern pattern = Panic m"
  by (simp add: splitPattern_def)

text \<open>
  What a pattern allows label by label: the two universal ones everything, the others an origin with
  their scheme and port and a host name whose labels agree with theirs one by one, up to wildcards.
\<close>

definition pattern_allows :: "string \<Rightarrow> string \<times> string \<times> string \<Rightarrow> bool" where
  "pattern_allows pattern = (\<lambda>(os, oh, op).
     pattern = wildcard \<or> pattern = anyValue \<or>
     (\<exists>ps ph pp. splitPattern pattern = Ok (ps, ph, pp) \<and>
        (ps = wildcard \<or> to_lower os = to_lower ps) \<and> (pp = wildcard \<or> to_lower op = to_lower pp) \<and>
        list_all2 (\<lambda>a b. a = wildcard \<or> b = wildcard \<or> a = b)
          (split_char (CHR ''.'') (origin_normalize ph)) (split_char (CHR ''.'') (origin_normalize oh))))"

lemma Split_nonempty: "Split parse origin = Ok (os, oh, op) \<Longrightarrow> os \<noteq> [] \<and> op \<noteq> []"
  by (auto simp: Split_def knownPorts_def split: outcome.splits if_splits option.splits)

lemma Match_allows:
  assumes "Split parse origin = Ok o3" and "pattern \<noteq> []"
  shows "Match parse origin pattern = Ok True \<longleftrightarrow> pattern_allows pattern o3"
proof -
  obtain os oh op where o3: "o3 = (os, oh, op)" by (metis prod_cases3)
  then have ne: "os \<noteq> []" "op \<noteq> []" using Split_nonempty assms(1) by blast+
  show ?thesis
    using assms ne by (cases "splitPattern pattern")
      (auto simp: o3 Match_def pattern_allows_def matchString_def matchHostname_iff split: if_splits)
qed

text \<open>
  What the documentation of \<open>Match\<close> says: only patterns have wildcards, and a wildcard in the host name
  of a pattern stands for any subdomain, that is for one label or more.
\<close>

fun documented_labels :: "string list \<Rightarrow> string list \<Rightarrow> bool" where
  "documented_labels [] bs \<longleftrightarrow> bs = []"
| "documented_labels (a # as) bs \<longleftrightarrow>
     (if a = wildcard then (\<exists>k \<in> {1..length bs}. documented_labels as (drop k bs))
      else bs \<noteq> [] \<and> hd bs = a \<and> documented_labels as (tl bs))"

definition host_labels :: "string \<Rightarrow> string list" where
  "host_labels h = split_char (CHR ''.'') (origin_normalize h)"

definition documented_allows :: "string \<Rightarrow> string \<times> string \<times> string \<Rightarrow> bool" where
  "documented_allows pattern = (\<lambda>(os, oh, op).
     pattern = wildcard \<or> pattern = anyValue \<or>
     (\<exists>ps ph pp. splitPattern pattern = Ok (ps, ph, pp) \<and>
        (ps = wildcard \<or> to_lower os = to_lower ps) \<and> (pp = wildcard \<or> to_lower op = to_lower pp) \<and>
        documented_labels (host_labels ph) (host_labels oh)))"

text \<open>The patterns whose host name has as many labels as the host name of the origin, and the two universal ones.\<close>

definition same_depth :: "string \<Rightarrow> string \<Rightarrow> bool" where
  "same_depth pattern oh \<longleftrightarrow> pattern = wildcard \<or> pattern = anyValue \<or>
     (\<exists>ps ph pp. splitPattern pattern = Ok (ps, ph, pp) \<and> length (host_labels ph) = length (host_labels oh))"

lemma documented_labels_length: "documented_labels as bs \<Longrightarrow> length as \<le> length bs"
proof (induction "as" bs rule: documented_labels.induct)
  case (2 a "as" bs)
  show ?case
  proof (cases "a = wildcard")
    case True
    then obtain k where "k \<in> {1..length bs}" "documented_labels as (drop k bs)" using "2.prems" by auto
    then show ?thesis using "2.IH"(1) [OF True, of k] by auto
  next
    case False
    then show ?thesis using 2 by (cases bs) auto
  qed
qed simp

lemma labels_documented:
  "wildcard \<notin> set bs \<Longrightarrow>
   list_all2 (\<lambda>a b. a = wildcard \<or> b = wildcard \<or> a = b) as bs \<longleftrightarrow> documented_labels as bs \<and> length as = length bs"
proof (induction "as" arbitrary: bs)
  case (Cons a "as")
  show ?case
  proof (cases bs)
    case (Cons b bs')
    have IH: "list_all2 (\<lambda>a b. a = wildcard \<or> b = wildcard \<or> a = b) as bs' \<longleftrightarrow> documented_labels as bs' \<and> length as = length bs'"
      using Cons.IH Cons.prems Cons by simp
    show ?thesis
    proof (cases "a = wildcard")
      case True
      have "documented_labels (a # as) bs \<and> length (a # as) = length bs \<longleftrightarrow> documented_labels as bs' \<and> length as = length bs'"
      proof
        assume l: "documented_labels (a # as) bs \<and> length (a # as) = length bs"
        then obtain k where k: "k \<in> {1..length bs}" "documented_labels as (drop k bs)" using True by auto
        then have "k = 1" using documented_labels_length [OF k(2)] l by auto
        then show "documented_labels as bs' \<and> length as = length bs'" using k l Cons by simp
      next
        assume r: "documented_labels as bs' \<and> length as = length bs'"
        then have "\<exists>k \<in> {1..length bs}. documented_labels as (drop k bs)" using Cons by (intro bexI [of _ 1]) simp_all
        then show "documented_labels (a # as) bs \<and> length (a # as) = length bs" using True r Cons by simp
      qed
      then show ?thesis using True IH Cons by simp
    next
      case False
      then show ?thesis using IH Cons.prems Cons by auto
    qed
  qed simp
qed auto

lemma pattern_allows_documented:
  assumes "wildcard \<notin> set (host_labels oh)"
  shows "pattern_allows pattern (os, oh, op) \<longleftrightarrow> documented_allows pattern (os, oh, op) \<and> same_depth pattern oh"
  using labels_documented [OF assms]
  by (auto simp: pattern_allows_def documented_allows_def same_depth_def host_labels_def)

section \<open>Properties\<close>

text \<open>
  C33: An origin is allowed exactly when a pattern of the list allows it in the sense of the
  documentation, has as many labels in its host name as the origin or is one of the universal ones,
  and every pattern before it was evaluated to no match. So nothing is allowed that the documentation
  does not allow, and what the code refuses beyond it are the deeper subdomains, and origins behind a
  pattern that cannot be evaluated. The host name of the origin has no wildcard label of its own and
  no pattern is empty.
\<close>

theorem origin_allowed_iff:
  assumes "Split parse origin = Ok (os, oh, op)" and "origin \<noteq> []" and "[] \<notin> set p" and "wildcard \<notin> set (host_labels oh)"
  shows "Patterns_Match parse p origin = Ok True \<longleftrightarrow>
     (\<exists>i < length p. documented_allows (p ! i) (os, oh, op) \<and> same_depth (p ! i) oh \<and> (\<forall>j < i. Match parse origin (p ! j) = Ok False))"
proof -
  have "Match parse origin (p ! i) = Ok True \<longleftrightarrow> documented_allows (p ! i) (os, oh, op) \<and> same_depth (p ! i) oh" if "i < length p" for i
    using Match_allows [OF assms(1)] pattern_allows_documented [OF assms(4)] assms(3) that by (metis nth_mem)
  then show ?thesis using assms(2) by (auto simp: Patterns_Match_def Patterns_loop_True)
qed

theorem origin_allowed_iff_witness:
  "Patterns_Match (\<lambda>_. Ok \<lparr>pu_Scheme = ''https'', pu_Hostname = ''app.example.com'', pu_Port = []\<rparr>)
     [''https://*.example.com''] ''https://app.example.com'' = Ok True"
proof (subst origin_allowed_iff)
  show "Split (\<lambda>_. Ok \<lparr>pu_Scheme = ''https'', pu_Hostname = ''app.example.com'', pu_Port = []\<rparr>) ''https://app.example.com'' =
      Ok (''https'', ''app.example.com'', ''443'')"
    by (simp add: Split_def knownPorts_def)
  have l: "host_labels ''*.example.com'' = [''*'', ''example'', ''com'']" "host_labels ''app.example.com'' = [''app'', ''example'', ''com'']"
    by code_simp+
  then show "wildcard \<notin> set (host_labels ''app.example.com'')" by (simp add: wildcard_def)
  have "splitPattern ''https://*.example.com'' = Ok (''https'', ''*.example.com'', ''443'')"
    by (simp add: splitPattern_def knownPorts_def wildcard_def)
  moreover have "documented_labels [''*'', ''example'', ''com''] [''app'', ''example'', ''com'']"
    by (auto simp: wildcard_def intro!: bexI [of _ 1])
  ultimately show "\<exists>i < length [''https://*.example.com'']. documented_allows ([''https://*.example.com''] ! i) (''https'', ''app.example.com'', ''443'') \<and>
      same_depth ([''https://*.example.com''] ! i) ''app.example.com'' \<and>
      (\<forall>j < i. Match (\<lambda>_. Ok \<lparr>pu_Scheme = ''https'', pu_Hostname = ''app.example.com'', pu_Port = []\<rparr>) ''https://app.example.com''
         ([''https://*.example.com''] ! j) = Ok False)"
    by (simp add: documented_allows_def same_depth_def l del: documented_labels.simps)
qed simp_all

end
