(* ===== verification/Venn_Gateway.thy ===== *)
theory Venn_Gateway
  imports Venn_Origin Venn_Ratelimit Venn_Config
begin

text \<open>
  \<open>svc/app/gateway/api.go\<close>: the gateway in front of a node. Its HTTP filter decides which address a
  request is counted for, which origins may ask, and what a browser is told; its JSON-RPC
  middlewares check size, method and rate limits, record metrics and telemetry, and hand the
  request to the proxy of its path. The router, the tracer, the limiter and the proxy are
  arguments; the first middleware given to the router is the outermost one.
\<close>

section \<open>JSON-RPC middlewares\<close>

definition maxRequestBodySize :: int where
  "maxRequestBodySize = 5 * 1024 * 1024"

text \<open>\<open>plen\<close> is the length of the parameters as text.\<close>

definition params_size_Middleware :: "(request \<Rightarrow> int) \<Rightarrow> 's middleware" where
  "params_size_Middleware plen next = (\<lambda>r s.
     if maxRequestBodySize < plen r then (send_err (ErrorText ''request body too large''), s) else next r s)"

definition whitelist_Middleware :: "string list \<Rightarrow> 's middleware" where
  "whitelist_Middleware methods next = (\<lambda>r s.
     if methods = [] then next r s
     else if rq_Method r \<notin> set methods then (send_err (ErrorText ''method not allowed''), s)
     else next r s)"

text \<open>
  Tracing: the request goes on with the response writer it came with, and the recorder that the span
  asks for an error is never written to, so that nothing is recorded for an error.
\<close>

definition gateway_trace_Middleware :: "'s middleware" where
  "gateway_trace_Middleware next = (\<lambda>r s. next r s)"

record gateway_metric =
  gm_Endpoint :: string
  gm_Target :: string
  gm_Method :: string
  gm_Success :: bool
  gm_duration :: int

text \<open>What is recorded: the latency of a request, and the beginning and the end of a subscription.\<close>

datatype gateway_event =
    RequestLatency gateway_metric
  | SubscriptionCreated string string string
  | SubscriptionClosed string string string

text \<open>
  \<open>rec\<close> is the error that \<open>ErrorRecorder\<close> has seen. The deferred functions run after a panic too.
\<close>

definition gateway_metrics_Middleware :: "(send list \<Rightarrow> gerror option) \<Rightarrow> ('s \<Rightarrow> int) \<Rightarrow> ('s, gateway_event list) cell \<Rightarrow> 's middleware" where
  "gateway_metrics_Middleware rec clk c fn = (\<lambda>r s.
     case GetEndpointSpec (rq_Ctx r) of
       Err e \<Rightarrow> (send_err e, s)
     | Panic m \<Rightarrow> (Crash m, s)
     | Ok endpoint \<Rightarrow>
         (case GetEndpointPath (rq_Ctx r) of
            Err e \<Rightarrow> (send_err e, s)
          | Panic m \<Rightarrow> (Crash m, s)
          | Ok target \<Rightarrow>
              (case IdentifierFromContext (rq_Ctx r) of
                 Err e \<Rightarrow> (send_err e, s)
               | Panic m \<Rightarrow> (Crash m, s)
               | Ok i \<Rightarrow>
                   if has_suffix (rq_Method r) ''_subscribe'' then
                     (case fn r (upd c (\<lambda>l. l @ [SubscriptionCreated (ep_Name endpoint) target (rq_Method r)]) s) of (x, s1) \<Rightarrow>
                        (x, upd c (\<lambda>l. l @ [SubscriptionClosed (ep_Name endpoint) target (rq_Method r)]) s1))
                   else
                     (case fn r s of (x, s1) \<Rightarrow>
                        let seen = (case x of Sends xs \<Rightarrow> rec xs | Crash m \<Rightarrow> rec []) in
                        (x, upd c (\<lambda>l. l @ [RequestLatency \<lparr>gm_Endpoint = ep_Name endpoint, gm_Target = target, gm_Method = rq_Method r,
                               gm_Success = (seen = None), gm_duration = clk s1 - clk s\<rparr>]) s1)))))"

record telemetry_entry =
  te_Timestamp :: int
  te_UsageKey :: string
  te_Method :: string
  te_Params :: raw
  te_RequestID :: string
  te_Duration :: int

text \<open>
  The entry is published after the response; an error of the telemetry is sent as another response.
  \<open>traceID\<close> is the trace that the tracer has put into the context. The maps \<open>Metadata\<close> and \<open>Extra\<close>
  of an entry stay empty.
\<close>

definition telemetry_Middleware :: "(ctx \<Rightarrow> string) \<Rightarrow> (telemetry_entry \<Rightarrow> 's \<Rightarrow> gerror option \<times> 's) \<Rightarrow> ('s \<Rightarrow> int) \<Rightarrow> 's middleware" where
  "telemetry_Middleware traceID publish clk next = (\<lambda>r s.
     case IdentifierFromContext (rq_Ctx r) of
       Err e \<Rightarrow> (send_err e, s)
     | Panic m \<Rightarrow> (Crash m, s)
     | Ok i \<Rightarrow>
         (case next r s of
            (Crash m, s1) \<Rightarrow> (Crash m, s1)
          | (Sends xs, s1) \<Rightarrow>
              (case publish \<lparr>te_Timestamp = clk s, te_UsageKey = Identifier_Key i, te_Method = rq_Method r,
                             te_Params = rq_Params r, te_RequestID = traceID (rq_Ctx r), te_Duration = clk s1 - clk s\<rparr> s1 of
                 (None, s2) \<Rightarrow> (Sends xs, s2)
               | (Some e, s2) \<Rightarrow> (Sends (xs @ [(ANil, Some e)]), s2))))"

section \<open>createBaseHandler\<close>

text \<open>The proxies of the paths of the node, made once each; \<open>mk\<close> is \<open>EndpointHandler\<close>.\<close>

fun endpoint_proxies :: "(string \<Rightarrow> 's handler outcome) \<Rightarrow> string list \<Rightarrow> (string \<rightharpoonup> 's handler) \<Rightarrow> (string \<rightharpoonup> 's handler) outcome" where
  "endpoint_proxies mk [] m = Ok m"
| "endpoint_proxies mk (to # ts) m =
     (if m to \<noteq> None then endpoint_proxies mk ts m
      else outcome_bind (mk to) (\<lambda>h. endpoint_proxies mk ts (m(to \<mapsto> h))))"

definition baseHandler :: "(string \<rightharpoonup> 's handler) \<Rightarrow> 's handler" where
  "baseHandler proxies = (\<lambda>r s.
     case GetEndpointPath (rq_Ctx r) of
       Err e \<Rightarrow> (send_err e, s)
     | Panic m \<Rightarrow> (Crash m, s)
     | Ok target \<Rightarrow>
         (case proxies target of
            None \<Rightarrow> (send_err (ErrorText (''no target proxy for '' @ target)), s)
          | Some h \<Rightarrow> h r s))"

definition createBaseHandler :: "(string \<Rightarrow> 's handler outcome) \<Rightarrow> EndpointSpec \<Rightarrow> 's handler outcome" where
  "createBaseHandler mk endpoint =
     outcome_bind (endpoint_proxies mk (map snd (ep_Paths endpoint)) Map.empty) (\<lambda>m. Ok (baseHandler m))"

section \<open>New\<close>

record 's gateway_parts =
  gp_Subscription :: "'s middleware"
  gp_plen :: "request \<Rightarrow> int"
  gp_allowN :: "AbuseLimit \<Rightarrow> string \<Rightarrow> int \<Rightarrow> 's \<Rightarrow> (bool \<times> int) outcome \<times> 's"
  gp_recorder :: "send list \<Rightarrow> gerror option"
  gp_clk :: "'s \<Rightarrow> int"
  gp_metrics :: "('s, gateway_event list) cell"
  gp_traceID :: "ctx \<Rightarrow> string"
  gp_publish :: "telemetry_entry \<Rightarrow> 's \<Rightarrow> gerror option \<times> 's"

definition gateway_middlewares :: "'s gateway_parts \<Rightarrow> EndpointSpec \<Rightarrow> 's middleware list" where
  "gateway_middlewares p e =
     [gp_Subscription p, params_size_Middleware (gp_plen p), MethodValidationMiddleware, whitelist_Middleware (ep_Methods e),
      gateway_trace_Middleware, WithIdentifier gateway_identifier] @
     map (\<lambda>l. RuedisRatelimiter (gp_allowN p l)) (ep_Abuse e) @
     [gateway_metrics_Middleware (gp_recorder p) (gp_clk p) (gp_metrics p), telemetry_Middleware (gp_traceID p) (gp_publish p) (gp_clk p)]"

definition gateway_handler :: "'s gateway_parts \<Rightarrow> EndpointSpec \<Rightarrow> 's handler \<Rightarrow> 's handler" where
  "gateway_handler p e base = foldr (\<lambda>m h. m h) (gateway_middlewares p e) base"

text \<open>The request of a path carries the path of the node and the endpoint.\<close>

definition endpoint_request :: "EndpointSpec \<Rightarrow> string \<Rightarrow> request \<Rightarrow> request" where
  "endpoint_request e to r = r\<lparr>rq_Ctx := WithEndpointSpec (WithEndpointPath (rq_Ctx r) to) e\<rparr>"

section \<open>The HTTP filter\<close>

record http_request =
  ht_Method :: string
  ht_RemoteAddr :: string
  ht_Header :: "string \<Rightarrow> string"
  ht_ContentLength :: int

text \<open>
  What the filter does with a request: refuse it with a status and a text, answer a preflight with
  headers, or pass it on, with the headers it has set.
\<close>

datatype http_result =
    HttpError int string
  | NoContent "(string \<times> string) list"
  | PassOn http_request "(string \<times> string) list"

text \<open>The set of trusted addresses: one prefix that does not parse is an error.\<close>

fun trusted_set :: "(string \<Rightarrow> ('a \<Rightarrow> bool) option) \<Rightarrow> string list \<Rightarrow> ('a \<Rightarrow> bool) outcome" where
  "trusted_set parsePrefix [] = Ok (\<lambda>_. False)"
| "trusted_set parsePrefix (v # vs) =
     (case parsePrefix v of
        None \<Rightarrow> Err (ErrorText (''invalid trusted origin '' @ v))
      | Some m \<Rightarrow> outcome_bind (trusted_set parsePrefix vs) (\<lambda>f. Ok (\<lambda>x. m x \<or> f x)))"

text \<open>The address the request is counted for; \<open>isIP\<close> is \<open>net.ParseIP\<close>.\<close>

definition client_address :: "(string \<Rightarrow> 'a option) \<Rightarrow> ('a \<Rightarrow> bool) \<Rightarrow> (string \<Rightarrow> bool) \<Rightarrow> string list \<Rightarrow> http_request \<Rightarrow> string" where
  "client_address parseAddr trusted isIP hdrs r =
     (case parseAddr (HostFromRemoteAddr (ht_RemoteAddr r)) of
        Some a \<Rightarrow>
          if trusted a then
            (case List.find (\<lambda>h. ht_Header r h \<noteq> [] \<and> isIP (ht_Header r h)) hdrs of
               Some h \<Rightarrow> ht_Header r h
             | None \<Rightarrow> ht_RemoteAddr r)
          else ht_RemoteAddr r
      | None \<Rightarrow> ht_RemoteAddr r)"

text \<open>\<open>strings.EqualFold\<close> on ASCII, and the merge of the requested with the allowed headers.\<close>

fun merge_headers :: "string list \<Rightarrow> string list \<Rightarrow> string list" where
  "merge_headers allowed [] = allowed"
| "merge_headers allowed (h # hs) =
     (let h' = trim_space h in
      if \<exists>a \<in> set allowed. to_lower h' = to_lower a then merge_headers allowed hs
      else merge_headers (allowed @ [h']) hs)"

definition allowed_headers :: "Security \<Rightarrow> http_request \<Rightarrow> string list" where
  "allowed_headers sec r =
     (let allowed = (if sec_CorsAllowedHeaders sec = [] then [''Content-Type'', ''Accept'', ''Authorization''] else sec_CorsAllowedHeaders sec);
          requested = ht_Header r ''Access-Control-Request-Headers''
      in if requested \<noteq> [] then merge_headers allowed (split_char (CHR '','') requested) else allowed)"

definition preflight :: "Security \<Rightarrow> http_request \<Rightarrow> (string \<times> string) list" where
  "preflight sec r =
     [(''Access-Control-Allow-Methods'',
        join_with '', '' (if sec_CorsAllowedMethods sec = [] then [''POST'', ''GET'', ''OPTIONS''] else sec_CorsAllowedMethods sec)),
      (''Access-Control-Allow-Headers'', join_with '', '' (allowed_headers sec r)),
      (''Access-Control-Max-Age'', Itoa (if sec_CorsMaxAge sec = 0 then 86400 else sec_CorsMaxAge sec))]"

definition cors_headers :: "Security \<Rightarrow> string \<Rightarrow> (string \<times> string) list" where
  "cors_headers sec o1 =
     [(''Access-Control-Allow-Origin'', o1)] @
     (if sec_CorsAllowCredentials sec then [(''Access-Control-Allow-Credentials'', ''true'')] else []) @
     (if sec_CorsExposeHeaders sec \<noteq> [] then [(''Access-Control-Expose-Headers'', join_with '', '' (sec_CorsExposeHeaders sec))] else [])"

definition security_filter :: "(string \<Rightarrow> parsed_url outcome) \<Rightarrow> (string \<Rightarrow> 'a option) \<Rightarrow> ('a \<Rightarrow> bool) \<Rightarrow> (string \<Rightarrow> bool) \<Rightarrow> Security
    \<Rightarrow> http_request \<Rightarrow> http_result outcome" where
  "security_filter parse parseAddr trusted isIP sec r0 =
     (let r = r0\<lparr>ht_RemoteAddr := client_address parseAddr trusted isIP (sec_TrustedIpHeaders sec) r0\<rparr>; o1 = ht_Header r ''Origin'' in
      if sec_AllowedOrigins sec = [] then Ok (PassOn r [])
      else
        (case Patterns_loop parse o1 (sec_AllowedOrigins sec) of
           Err e \<Rightarrow> Ok (HttpError 403 ''invalid origin'')
         | Panic m \<Rightarrow> Panic m
         | Ok matched \<Rightarrow>
             if \<not> matched then Ok (HttpError 403 ''origin not allowed'')
             else if sec_CorsEnabled sec \<and> o1 \<noteq> [] then
               (if ht_Method r = ''OPTIONS'' then Ok (NoContent (cors_headers sec o1 @ preflight sec r))
                else Ok (PassOn r (cors_headers sec o1)))
             else Ok (PassOn r [])))"

definition size_filter :: "http_request \<Rightarrow> bool" where
  "size_filter r \<longleftrightarrow> \<not> maxRequestBodySize < ht_ContentLength r"

section \<open>Lemmas\<close>

lemma Match_Split: "Match parse origin pattern = Ok True \<Longrightarrow> \<exists>o3. Split parse origin = Ok o3"
  by (cases "Split parse origin") (auto simp: Match_def)

lemma merge_headers_keeps: "a \<in> set allowed \<Longrightarrow> a \<in> set (merge_headers allowed hs)"
  by (induction allowed hs rule: merge_headers.induct) (auto simp: Let_def)

lemma merge_headers_adds:
  "h \<in> set hs \<Longrightarrow> \<exists>a \<in> set (merge_headers allowed hs). to_lower a = to_lower (trim_space h)"
proof (induction allowed hs rule: merge_headers.induct)
  case (2 allowed k hs)
  let ?k = "trim_space k"
  show ?case
  proof (cases "\<exists>a \<in> set allowed. to_lower ?k = to_lower a")
    case True
    then show ?thesis using 2 merge_headers_keeps [of _ allowed hs] by (auto simp: Let_def)
  next
    case False
    have "?k \<in> set (merge_headers (allowed @ [?k]) hs)" by (rule merge_headers_keeps) simp
    then show ?thesis using 2 False by (auto simp: Let_def)
  qed
qed simp

lemma cors_origin: "(''Access-Control-Allow-Origin'', v) \<in> set (cors_headers sec o1 @ preflight sec r) \<Longrightarrow> v = o1"
  "(''Access-Control-Allow-Origin'', v) \<in> set (cors_headers sec o1) \<Longrightarrow> v = o1"
  by (auto simp: cors_headers_def preflight_def split: if_splits)

text \<open>When the telemetry fails the client gets a second response.\<close>

lemma telemetry_failure_sends_again:
  assumes "IdentifierFromContext (rq_Ctx r) = Ok i" and "next r s = (Sends xs, s1)" and "\<And>entry. fst (publish entry s1) = Some e"
  shows "fst (telemetry_Middleware traceID publish clk next r s) = Sends (xs @ [(ANil, Some e)])"
proof -
  let ?entry = "\<lparr>te_Timestamp = clk s, te_UsageKey = Identifier_Key i, te_Method = rq_Method r, te_Params = rq_Params r, te_RequestID = traceID (rq_Ctx r), te_Duration = clk s1 - clk s\<rparr>"
  obtain s2 where "publish ?entry s1 = (Some e, s2)" using assms(3) [of ?entry] by (metis prod.collapse)
  then show ?thesis using assms(1,2) by (simp add: telemetry_Middleware_def)
qed

lemma endpoint_proxies_Some:
  "endpoint_proxies mk ts m = Ok m' \<Longrightarrow> m' to = (case m to of Some h \<Rightarrow> Some h | None \<Rightarrow> if to \<in> set ts then (case mk to of Ok h \<Rightarrow> Some h | _ \<Rightarrow> None) else None)"
  by (induction mk ts m rule: endpoint_proxies.induct)
    (auto simp: outcome_bind_Ok_iff split: if_splits option.splits outcome.splits)

text \<open>The part of the middlewares behind the identifier: the limits in their order.\<close>

lemma RuedisRatelimiter_cong: "(\<And>t. h r t = h' r t) \<Longrightarrow> RuedisRatelimiter allowN h r s = RuedisRatelimiter allowN h' r s"
  by (simp add: RuedisRatelimiter_def split: outcome.split prod.split)

lemma limits_refuse:
  assumes "l \<in> set ls" and "\<And>n s. \<exists>t s1. allowN l (Identifier_Key i) n s = (Ok (False, t), s1)"
    and "IdentifierFromContext (rq_Ctx r) = Ok i"
  shows "foldr (\<lambda>m h. m h) (map (\<lambda>l. RuedisRatelimiter (allowN l)) ls) base r s =
    foldr (\<lambda>m h. m h) (map (\<lambda>l. RuedisRatelimiter (allowN l)) ls) base' r s"
  using assms(1)
proof (induction ls arbitrary: s)
  case (Cons a ls)
  show ?case
  proof (cases "a = l")
    case True
    obtain t s1 where "allowN l (Identifier_Key i) (wrap64 (1 + id_ExtraCost i)) s = (Ok (False, t), s1)" using assms(2) by blast
    then show ?thesis using True assms(3) by (simp add: RuedisRatelimiter_def)
  next
    case False
    then have "foldr (\<lambda>m h. m h) (map (\<lambda>l. RuedisRatelimiter (allowN l)) ls) base r s1 =
      foldr (\<lambda>m h. m h) (map (\<lambda>l. RuedisRatelimiter (allowN l)) ls) base' r s1" for s1
      using Cons by simp
    then show ?thesis unfolding list.map foldr.simps comp_apply by (rule RuedisRatelimiter_cong)
  qed
qed simp

section \<open>Properties\<close>

text \<open>
  C29: Nothing gets past the gateway to the node that the endpoint does not allow: when the parameters
  are larger than 5 MiB, or the method is not on a list of allowed methods, or one of the
  endpoint's limits refuses the client, then the answer and the state do not depend on the proxy
  behind the gateway, which is not called.
\<close>

theorem gateway_guards_proxy:
  assumes "\<And>h. gp_Subscription p h r s = h r s" and "GetEndpointSpec (rq_Ctx r) = Ok e"
    and "maxRequestBodySize < gp_plen p r \<or> ep_Methods e \<noteq> [] \<and> rq_Method r \<notin> set (ep_Methods e) \<or>
      (\<exists>l key. l \<in> set (ep_Abuse e) \<and> limit_key gateway_identifier r = Some key \<and>
        (\<forall>n s. \<exists>t s1. gp_allowN p l key n s = (Ok (False, t), s1)))"
  shows "gateway_handler p e base r s = gateway_handler p e base' r s"
proof -
  let ?rest = "\<lambda>base. foldr (\<lambda>m h. m h) [gateway_metrics_Middleware (gp_recorder p) (gp_clk p) (gp_metrics p),
      telemetry_Middleware (gp_traceID p) (gp_publish p) (gp_clk p)] base"
  let ?lim = "\<lambda>base. foldr (\<lambda>m h. m h) (map (\<lambda>l. RuedisRatelimiter (gp_allowN p l)) (ep_Abuse e)) (?rest base)"
  have h: "gateway_handler p e b r s = params_size_Middleware (gp_plen p) (MethodValidationMiddleware
      (whitelist_Middleware (ep_Methods e) (gateway_trace_Middleware (WithIdentifier gateway_identifier (?lim b))))) r s" for b
    by (simp add: gateway_handler_def gateway_middlewares_def assms(1))
  show ?thesis
  proof (cases "maxRequestBodySize < gp_plen p r \<or> ep_Methods e \<noteq> [] \<and> rq_Method r \<notin> set (ep_Methods e)")
    case True
    then show ?thesis
      by (auto simp: h params_size_Middleware_def MethodValidationMiddleware_def whitelist_Middleware_def)
  next
    case False
    then obtain l key where l: "l \<in> set (ep_Abuse e)" "limit_key gateway_identifier r = Some key"
        "\<And>n s. \<exists>t s1. gp_allowN p l key n s = (Ok (False, t), s1)"
      using assms(3) by blast
    obtain i r1 where i: "gateway_identifier r = (Ok (Some i), r1)"
      using assms(2) by (auto simp: gateway_identifier_def Let_def)
    then have key: "key = Identifier_Key i" using l(2) by (simp add: limit_key_def)
    let ?r = "r1\<lparr>rq_Ctx := (rq_Ctx r1)\<lparr>ctx_Identifier := Some i\<rparr>\<rparr>"
    have "?lim base ?r s = ?lim base' ?r s"
      by (rule limits_refuse [OF l(1), where i = i]) (use l(3) key in \<open>auto simp: IdentifierFromContext_def\<close>)
    then have "WithIdentifier gateway_identifier (?lim base) r s = WithIdentifier gateway_identifier (?lim base') r s"
      using i by (simp add: WithIdentifier_def)
    then show ?thesis
      by (simp add: h params_size_Middleware_def MethodValidationMiddleware_def whitelist_Middleware_def gateway_trace_Middleware_def)
  qed
qed

definition demo_gateway :: "(nat \<times> gateway_event list) gateway_parts" where
  "demo_gateway = \<lparr>gp_Subscription = (\<lambda>h. h), gp_plen = (\<lambda>_. 2),
     gp_allowN = (\<lambda>l key n s. (Ok (fst s < nat (al_Total l), 0), (fst s + 1, snd s))),
     gp_recorder = (\<lambda>_. None), gp_clk = (\<lambda>_. 0), gp_metrics = \<lparr>rd = snd, wr = (\<lambda>v s. (fst s, v))\<rparr>,
     gp_traceID = (\<lambda>_. []), gp_publish = (\<lambda>_ s. (None, s))\<rparr>"

definition demo_endpoint :: EndpointSpec where
  "demo_endpoint = \<lparr>ep_Name = ''main'', ep_Paths = [(''eth'', ''ethereum'')],
     ep_Abuse = [\<lparr>al_Id = ''ip'', al_Total = 0, al_Window = 10\<rparr>], ep_Usage = [], ep_Methods = [''eth_call''], ep_VennUrl = ''http://venn''\<rparr>"

theorem gateway_guards_proxy_witness:
  "gateway_handler demo_gateway demo_endpoint (\<lambda>r s. (Crash ''called'', s))
       (endpoint_request demo_endpoint ''ethereum'' (NewRequest Background ''eth_call'' (JArr []))) (0, []) =
   gateway_handler demo_gateway demo_endpoint (\<lambda>r s. (send_ok ANil, s))
       (endpoint_request demo_endpoint ''ethereum'' (NewRequest Background ''eth_call'' (JArr []))) (0, [])"
proof (rule gateway_guards_proxy)
  let ?r = "endpoint_request demo_endpoint ''ethereum'' (NewRequest Background ''eth_call'' (JArr []))"
  show g: "GetEndpointSpec (rq_Ctx ?r) = Ok demo_endpoint"
    by (simp add: endpoint_request_def WithEndpointSpec_def WithEndpointPath_def GetEndpointSpec_def NewRequest_def)
  show "maxRequestBodySize < gp_plen demo_gateway ?r \<or> ep_Methods demo_endpoint \<noteq> [] \<and> rq_Method ?r \<notin> set (ep_Methods demo_endpoint) \<or>
      (\<exists>l key. l \<in> set (ep_Abuse demo_endpoint) \<and> limit_key gateway_identifier ?r = Some key \<and>
        (\<forall>n s. \<exists>t s1. gp_allowN demo_gateway l key n s = (Ok (False, t), s1)))"
    using gateway_key [OF g] by (auto simp: demo_endpoint_def demo_gateway_def)
qed (simp add: demo_gateway_def)


text \<open>
  C30: With a list of allowed origins, a request passes the gateway, or has its preflight answered,
  only when its own origin is allowed by one of the patterns, and the only origin the answer ever
  grants access to is that one.
\<close>

theorem gateway_origin_enforced:
  assumes "sec_AllowedOrigins sec \<noteq> []" and "[] \<notin> set (sec_AllowedOrigins sec)"
    and "security_filter parse parseAddr trusted isIP sec r0 = Ok res" and "res = PassOn r hs \<or> res = NoContent hs"
  shows "\<exists>o3 pattern. Split parse (ht_Header r0 ''Origin'') = Ok o3 \<and> pattern \<in> set (sec_AllowedOrigins sec) \<and>
     pattern_allows pattern o3 \<and> (\<forall>v. (''Access-Control-Allow-Origin'', v) \<in> set hs \<longrightarrow> v = ht_Header r0 ''Origin'')"
proof -
  let ?o = "ht_Header r0 ''Origin''"
  have "Patterns_loop parse ?o (sec_AllowedOrigins sec) = Ok True"
    using assms by (auto simp: security_filter_def Let_def split: outcome.splits if_splits)
  then obtain i where i: "i < length (sec_AllowedOrigins sec)" "Match parse ?o (sec_AllowedOrigins sec ! i) = Ok True"
    unfolding Patterns_loop_True by blast
  then obtain o3 where o3: "Split parse ?o = Ok o3" using Match_Split by blast
  have ne: "sec_AllowedOrigins sec ! i \<noteq> []" using assms(2) i(1) by (metis nth_mem)
  have "v = ?o" if "(''Access-Control-Allow-Origin'', v) \<in> set hs" for v
    using assms that cors_origin by (auto simp: security_filter_def Let_def split: outcome.splits if_splits)
  then show ?thesis
    using o3 i Match_allows [OF o3 ne] nth_mem [OF i(1)] by blast
qed

definition demo_security :: Security where
  "demo_security = Security_zero\<lparr>sec_AllowedOrigins := [''*''], sec_CorsEnabled := True, sec_TrustedIpHeaders := [''X-Real-Ip'']\<rparr>"

definition demo_http :: http_request where
  "demo_http = \<lparr>ht_Method = ''POST'', ht_RemoteAddr = ''10.0.0.1:80'',
     ht_Header = (\<lambda>h. if h = ''Origin'' then ''https://a.com'' else if h = ''X-Real-Ip'' then ''1.2.3.4'' else []), ht_ContentLength = 10\<rparr>"

definition demo_parse :: "string \<Rightarrow> parsed_url outcome" where
  "demo_parse _ = Ok \<lparr>pu_Scheme = ''https'', pu_Hostname = ''a.com'', pu_Port = []\<rparr>"

lemma demo_filter: "security_filter demo_parse (\<lambda>a. Some a) (\<lambda>_. False) (\<lambda>_. True) demo_security demo_http =
   Ok (PassOn demo_http [(''Access-Control-Allow-Origin'', ''https://a.com'')])"
  by (simp add: security_filter_def demo_security_def demo_http_def demo_parse_def Security_zero_def Match_def Split_def knownPorts_def
      wildcard_def cors_headers_def client_address_def Let_def)

theorem gateway_origin_enforced_witness:
  "\<exists>o3 pattern. Split demo_parse (ht_Header demo_http ''Origin'') = Ok o3 \<and> pattern \<in> set (sec_AllowedOrigins demo_security) \<and>
     pattern_allows pattern o3"
  using gateway_origin_enforced [OF _ _ demo_filter] by (simp add: demo_security_def) blast

text \<open>
  Only a trusted proxy can say for whom a request is counted: a request from an address that is
  not in the trusted set keeps the address of its connection, whatever headers it carries, and
  a request from a trusted one is counted for the first configured header that holds an IP
  address.
\<close>

theorem gateway_trusts_only_proxies:
  assumes "security_filter parse parseAddr trusted isIP sec r0 = Ok (PassOn r hs)"
  shows "ht_RemoteAddr r =
     (if \<exists>a. parseAddr (HostFromRemoteAddr (ht_RemoteAddr r0)) = Some a \<and> trusted a
      then (case filter (\<lambda>h. ht_Header r0 h \<noteq> [] \<and> isIP (ht_Header r0 h)) (sec_TrustedIpHeaders sec) of
              [] \<Rightarrow> ht_RemoteAddr r0 | h # _ \<Rightarrow> ht_Header r0 h)
      else ht_RemoteAddr r0)"
proof -
  have f: "(case List.find P xs of Some h \<Rightarrow> g h | None \<Rightarrow> d) = (case filter P xs of [] \<Rightarrow> d | h # _ \<Rightarrow> g h)" for P g d and xs :: "string list"
    by (induction xs) auto
  have "ht_RemoteAddr r = client_address parseAddr trusted isIP (sec_TrustedIpHeaders sec) r0"
    using assms by (auto simp: security_filter_def Let_def split: outcome.splits if_splits)
  then show ?thesis by (auto simp: client_address_def f split: option.splits)
qed

theorem gateway_trusts_only_proxies_witness:
  "\<exists>r hs. security_filter demo_parse (\<lambda>a. Some a) (\<lambda>_. False) (\<lambda>_. True) demo_security demo_http = Ok (PassOn r hs) \<and> ht_RemoteAddr r = ''10.0.0.1:80''"
proof (intro exI conjI)
  show "security_filter demo_parse (\<lambda>a. Some a) (\<lambda>_. False) (\<lambda>_. True) demo_security demo_http =
      Ok (PassOn demo_http [(''Access-Control-Allow-Origin'', ''https://a.com'')])" by (rule demo_filter)
  show "ht_RemoteAddr demo_http = ''10.0.0.1:80''"
    using gateway_trusts_only_proxies [OF demo_filter] by (simp add: demo_http_def)
qed

text \<open>
  The answer to a preflight allows every header that the request asks for, up to case and
  surrounding space: the configured list of headers only ever adds to them.
\<close>

theorem preflight_allows_requested:
  assumes "ht_Header r ''Access-Control-Request-Headers'' \<noteq> []" and "h \<in> set (split_char (CHR '','') (ht_Header r ''Access-Control-Request-Headers''))"
  shows "\<exists>a \<in> set (allowed_headers sec r). to_lower a = to_lower (trim_space h)"
  using assms merge_headers_adds [OF assms(2)] by (simp add: allowed_headers_def Let_def)

theorem preflight_allows_requested_witness:
  "\<exists>a \<in> set (allowed_headers demo_security (demo_http\<lparr>ht_Header := (\<lambda>_. ''x-evil'')\<rparr>)). to_lower a = to_lower (trim_space ''x-evil'')"
  by (rule preflight_allows_requested) simp_all

end
