(* ===== verification/Venn_Telemetry.thy ===== *)
theory Venn_Telemetry
  imports Venn_Gateway
begin

text \<open>
  \<open>svc/gateway/quarks/telemetry\<close>: publishing of telemetry entries. The futures of asynchronous
  publishes go through a buffered channel of 128 places to one goroutine. Encoding an entry and
  the answer of \<open>PublishAsync\<close> are arguments; what was handed to the stream, and the calls of \<open>Publish\<close>
  that block in the send on the full channel, are part of the state.
\<close>

section \<open>State\<close>

text \<open>The goroutine that \<open>New\<close> starts runs its \<open>select\<close> once.\<close>

datatype 'fut drainer = NotStarted | Receiving | Handling 'fut | Ended

text \<open>\<open>tm_stream\<close> lists what \<open>PublishAsync\<close> took, \<open>tm_blocked\<close> the futures of the calls that wait to send theirs.\<close>

record ('buf, 'fut) Telemetry =
  tm_enabled :: bool
  tm_subject :: string
  tm_pending :: "'fut list"
  tm_drainer :: "'fut drainer"
  tm_stream :: "(string \<times> 'buf) list"
  tm_blocked :: "'fut list"

definition pending_size :: nat where
  "pending_size = 128"

text \<open>
  \<open>New\<close>: \<open>cfg\<close> is the name of the stream when a stream is configured, \<open>js\<close> and \<open>create\<close> the errors of
  connecting to it and of creating it.
\<close>

definition Telemetry_New :: "bool \<Rightarrow> string option \<Rightarrow> gerror option \<Rightarrow> gerror option \<Rightarrow> ('buf, 'fut) Telemetry outcome" where
  "Telemetry_New enabled cfg js create =
     (let o1 = \<lparr>tm_enabled = enabled, tm_subject = [], tm_pending = [], tm_drainer = NotStarted, tm_stream = [], tm_blocked = []\<rparr> in
      if \<not> enabled then Ok o1
      else
        (case cfg of
           None \<Rightarrow> Err (ErrorText ''telemetry jetstream stream config is nil'')
         | Some name \<Rightarrow>
             (case js of
                Some e \<Rightarrow> Err e
              | None \<Rightarrow>
                  (case create of
                     Some e \<Rightarrow> Err e
                   | None \<Rightarrow> Ok (o1\<lparr>tm_subject := name, tm_drainer := Receiving\<rparr>)))))"

section \<open>Publish\<close>

text \<open>
  A call of \<open>Publish\<close> as far as it gets: \<open>None\<close> when it blocks in the send of the future, after the entry
  has been handed to the stream.
\<close>

definition Telemetry_Publish :: "(telemetry_entry \<Rightarrow> 'buf outcome) \<Rightarrow> (string \<Rightarrow> 'buf \<Rightarrow> 'fut outcome) \<Rightarrow> telemetry_entry \<Rightarrow> ('buf, 'fut) Telemetry
    \<Rightarrow> unit outcome option \<times> ('buf, 'fut) Telemetry" where
  "Telemetry_Publish marshal publishAsync e t =
     (if \<not> tm_enabled t then (Some (Ok ()), t)
      else
        (case marshal e of
           Err err \<Rightarrow> (Some (Err err), t)
         | Panic m \<Rightarrow> (Some (Panic m), t)
         | Ok buf \<Rightarrow>
             (case publishAsync (tm_subject t) buf of
                Err err \<Rightarrow> (Some (Err err), t)
              | Panic m \<Rightarrow> (Some (Panic m), t)
              | Ok fut \<Rightarrow>
                  let t1 = t\<lparr>tm_stream := tm_stream t @ [(tm_subject t, buf)]\<rparr> in
                  if length (tm_pending t) < pending_size then (Some (Ok ()), t1\<lparr>tm_pending := tm_pending t @ [fut]\<rparr>)
                  else (None, t1\<lparr>tm_blocked := tm_blocked t @ [fut]\<rparr>))))"

text \<open>
  A receive from the channel: it takes the oldest future, and the call that has waited longest sends its
  own and returns. The result says whether one did.
\<close>

definition Telemetry_receive :: "('buf, 'fut) Telemetry \<Rightarrow> (bool \<times> ('buf, 'fut) Telemetry) option" where
  "Telemetry_receive t =
     (case tm_pending t of
        [] \<Rightarrow> None
      | f # fs \<Rightarrow>
          (case tm_blocked t of
             [] \<Rightarrow> Some (False, t\<lparr>tm_drainer := Handling f, tm_pending := fs\<rparr>)
           | b # bs \<Rightarrow> Some (True, t\<lparr>tm_drainer := Handling f, tm_pending := fs @ [b], tm_blocked := bs\<rparr>)))"

section \<open>Runs\<close>

text \<open>
  The steps of a gateway with telemetry, with the number of calls of \<open>Publish\<close> that have handed over an
  entry and returned: calls in any interleaving with the goroutine, which receives, then waits for the
  future, then ends; it may also end with the context.
\<close>

inductive telemetry_step :: "(telemetry_entry \<Rightarrow> 'buf outcome) \<Rightarrow> (string \<Rightarrow> 'buf \<Rightarrow> 'fut outcome) \<Rightarrow> nat \<times> ('buf, 'fut) Telemetry
    \<Rightarrow> nat \<times> ('buf, 'fut) Telemetry \<Rightarrow> bool"
  for marshal publishAsync where
  step_publish: "Telemetry_Publish marshal publishAsync e t = (x, t') \<Longrightarrow>
    telemetry_step marshal publishAsync (n, t) (if x = Some (Ok ()) then n + 1 else n, t')"
| step_receive: "tm_drainer t = Receiving \<Longrightarrow> Telemetry_receive t = Some (woken, t') \<Longrightarrow>
    telemetry_step marshal publishAsync (n, t) (if woken then n + 1 else n, t')"
| step_handled: "tm_drainer t = Handling f \<Longrightarrow> telemetry_step marshal publishAsync (n, t) (n, t\<lparr>tm_drainer := Ended\<rparr>)"
| step_ctx_done: "tm_drainer t = Receiving \<Longrightarrow> telemetry_step marshal publishAsync (n, t) (n, t\<lparr>tm_drainer := Ended\<rparr>)"

definition telemetry_run :: "(telemetry_entry \<Rightarrow> 'buf outcome) \<Rightarrow> (string \<Rightarrow> 'buf \<Rightarrow> 'fut outcome) \<Rightarrow> nat \<times> ('buf, 'fut) Telemetry
    \<Rightarrow> nat \<times> ('buf, 'fut) Telemetry \<Rightarrow> bool" where
  "telemetry_run marshal publishAsync = (telemetry_step marshal publishAsync)\<^sup>*\<^sup>*"

section \<open>Lemmas\<close>

text \<open>
  What was handed over has returned or waits; calls wait only when the channel is full, and at most one
  future ever leaves the channel.
\<close>

definition telemetry_inv :: "nat \<times> ('buf, 'fut) Telemetry \<Rightarrow> bool" where
  "telemetry_inv x \<longleftrightarrow> (case x of (n, t) \<Rightarrow>
     tm_enabled t \<and> tm_drainer t \<noteq> NotStarted \<and> length (tm_pending t) \<le> pending_size \<and>
     length (tm_stream t) = n + length (tm_blocked t) \<and> (tm_blocked t = [] \<or> length (tm_pending t) = pending_size) \<and>
     length (tm_pending t) \<le> n \<and> n \<le> length (tm_pending t) + 1 \<and> (tm_drainer t = Receiving \<longrightarrow> n = length (tm_pending t)))"

lemma telemetry_inv_step:
  assumes "telemetry_step marshal publishAsync x y" and "telemetry_inv x"
  shows "telemetry_inv y"
  using assms
proof (induction rule: telemetry_step.induct)
  case (step_publish e t x t' n)
  then show ?case
    by (auto simp: telemetry_inv_def Telemetry_Publish_def Let_def split: outcome.splits if_splits)
next
  case (step_receive t woken t' n)
  then show ?case
    by (auto simp: telemetry_inv_def Telemetry_receive_def split: list.splits)
qed (auto simp: telemetry_inv_def)

lemma telemetry_inv_run: "telemetry_run marshal publishAsync x y \<Longrightarrow> telemetry_inv x \<Longrightarrow> telemetry_inv y"
  unfolding telemetry_run_def by (induction rule: rtranclp_induct) (auto intro: telemetry_inv_step)

lemma telemetry_inv_start: "Telemetry_New True (Some name) None None = Ok t \<Longrightarrow> telemetry_inv (0, t)"
  by (auto simp: telemetry_inv_def Telemetry_New_def Let_def)

text \<open>A full channel that nobody empties: from then on calls come to wait and none returns.\<close>

definition stuck :: "('buf, 'fut) Telemetry \<Rightarrow> bool" where
  "stuck t \<longleftrightarrow> tm_enabled t \<and> tm_drainer t \<noteq> Receiving \<and> length (tm_pending t) = pending_size"

lemma stuck_run:
  assumes "telemetry_run marshal publishAsync x y" and "stuck (snd x)"
  shows "fst y = fst x \<and> stuck (snd y) \<and> prefix (tm_blocked (snd x)) (tm_blocked (snd y))"
  using assms(1) unfolding telemetry_run_def
proof (induction rule: rtranclp_induct)
  case (step y z)
  have "fst z = fst y \<and> stuck (snd z) \<and> prefix (tm_blocked (snd y)) (tm_blocked (snd z))"
    using step.hyps(2) step.IH
    by (cases rule: telemetry_step.cases) (auto simp: stuck_def Telemetry_Publish_def Let_def split: outcome.splits if_splits)
  then show ?case using step.IH prefix_order.trans by auto
qed (simp add: assms(2))

lemma telemetry_fill:
  assumes "\<And>e. marshal e = Ok b" and "\<And>name. publishAsync name b = Ok f" and "tm_enabled t" and "tm_pending t = []" and "n \<le> pending_size"
  shows "\<exists>t'. telemetry_run marshal publishAsync (0, t) (n, t') \<and> tm_enabled t' \<and> tm_drainer t' = tm_drainer t \<and> tm_blocked t' = tm_blocked t \<and>
     tm_pending t' = replicate n f"
  using assms(5)
proof (induction n)
  case 0
  show ?case using assms(3,4) by (intro exI [of _ t]) (simp add: telemetry_run_def)
next
  case (Suc n)
  then obtain t1 where t1: "telemetry_run marshal publishAsync (0, t) (n, t1)" "tm_enabled t1" "tm_drainer t1 = tm_drainer t"
      "tm_blocked t1 = tm_blocked t" "tm_pending t1 = replicate n f"
    by auto
  let ?t2 = "t1\<lparr>tm_stream := tm_stream t1 @ [(tm_subject t1, b)], tm_pending := tm_pending t1 @ [f]\<rparr>"
  have p: "Telemetry_Publish marshal publishAsync e t1 = (Some (Ok ()), ?t2)" for e
    using t1 Suc.prems by (simp add: Telemetry_Publish_def assms(1,2) Let_def)
  have "telemetry_step marshal publishAsync (n, t1) (Suc n, ?t2)" using step_publish [OF p, of n] by simp
  then have "telemetry_run marshal publishAsync (0, t) (Suc n, ?t2)"
    using t1(1) unfolding telemetry_run_def by (rule rtranclp.rtrancl_into_rtrancl [rotated])
  then show ?case using t1 by (intro exI [of _ ?t2]) (simp add: replicate_append_same)
qed

section \<open>Properties\<close>

text \<open>
  C32: Telemetry comes to a standstill. Over the whole life of a gateway at most 129 calls of \<open>Publish\<close>
  hand over an entry and return, whatever the order of events, because the goroutine that empties the
  channel runs once and not in a loop; every other entry that was handed to the stream belongs to a
  call that is blocked. Once 129 calls have returned, every further call that can hand over its entry
  does so and then blocks, and no blocked call ever returns.
\<close>

theorem telemetry_stalls:
  assumes "Telemetry_New True (Some name) None None = Ok t0" and "telemetry_run marshal publishAsync (0, t0) (n, t)"
  shows "n \<le> 129 \<and> length (tm_stream t) = n + length (tm_blocked t) \<and>
     (n = 129 \<longrightarrow> marshal e = Ok buf \<longrightarrow> publishAsync (tm_subject t) buf = Ok fut \<longrightarrow>
       (\<exists>t1. Telemetry_Publish marshal publishAsync e t = (None, t1) \<and> tm_stream t1 = tm_stream t @ [(tm_subject t, buf)] \<and>
          tm_blocked t1 = tm_blocked t @ [fut] \<and>
          (\<forall>n' t'. telemetry_run marshal publishAsync (n, t1) (n', t') \<longrightarrow> n' = 129 \<and> prefix (tm_blocked t1) (tm_blocked t'))))"
proof -
  have inv: "telemetry_inv (n, t)" by (rule telemetry_inv_run [OF assms(2) telemetry_inv_start [OF assms(1)]])
  let ?t1 = "t\<lparr>tm_stream := tm_stream t @ [(tm_subject t, buf)], tm_blocked := tm_blocked t @ [fut]\<rparr>"
  have "Telemetry_Publish marshal publishAsync e t = (None, ?t1) \<and>
      (\<forall>n' t'. telemetry_run marshal publishAsync (n, ?t1) (n', t') \<longrightarrow> n' = 129 \<and> prefix (tm_blocked ?t1) (tm_blocked t'))"
    if "n = 129" "marshal e = Ok buf" "publishAsync (tm_subject t) buf = Ok fut"
  proof -
    have "stuck ?t1" using inv that(1) by (auto simp: telemetry_inv_def stuck_def pending_size_def)
    then have "telemetry_run marshal publishAsync (n, ?t1) (n', t') \<longrightarrow> n' = 129 \<and> prefix (tm_blocked ?t1) (tm_blocked t')" for n' t'
      using stuck_run [of marshal publishAsync "(n, ?t1)" "(n', t')"] that(1) by simp
    moreover have "Telemetry_Publish marshal publishAsync e t = (None, ?t1)"
      using inv that by (auto simp: telemetry_inv_def pending_size_def Telemetry_Publish_def Let_def)
    ultimately show ?thesis by blast
  qed
  moreover have "n \<le> 129 \<and> length (tm_stream t) = n + length (tm_blocked t)" using inv by (auto simp: telemetry_inv_def pending_size_def)
  ultimately show ?thesis by (auto intro!: exI [of _ ?t1])
qed

definition demo_telemetry :: telemetry_entry where
  "demo_telemetry = \<lparr>te_Timestamp = 0, te_UsageKey = [], te_Method = ''eth_call'', te_Params = RawDoc (JArr []), te_RequestID = [], te_Duration = 1\<rparr>"

theorem telemetry_stalls_witness:
  "\<exists>t0 t t1. Telemetry_New True (Some ''s'') None None = Ok t0 \<and> telemetry_run (\<lambda>_. Ok ()) (\<lambda>_ _. Ok ()) (0, t0) (129, t) \<and>
     Telemetry_Publish (\<lambda>_. Ok ()) (\<lambda>_ _. Ok ()) demo_telemetry t = (None, t1) \<and> length (tm_stream t1) = 130"
proof -
  let ?m = "\<lambda>_ :: telemetry_entry. Ok ()" and ?p = "\<lambda>_ _. Ok () :: unit outcome"
  obtain t0 :: "(unit, unit) Telemetry" where t0: "Telemetry_New True (Some ''s'') None None = Ok t0" "tm_enabled t0" "tm_pending t0 = []" "tm_drainer t0 = Receiving" "tm_blocked t0 = []"
    by (simp add: Telemetry_New_def Let_def)
  obtain t where t: "telemetry_run ?m ?p (0, t0) (128, t)" "tm_enabled t" "tm_drainer t = Receiving" "tm_blocked t = []" "tm_pending t = replicate 128 ()"
    using telemetry_fill [of ?m "()" ?p "()" t0 128] t0 by (auto simp: pending_size_def)
  let ?t1 = "t\<lparr>tm_drainer := Handling (), tm_pending := replicate 127 ()\<rparr>"
  have "Telemetry_receive t = Some (False, ?t1)" by (simp add: Telemetry_receive_def t(4,5) eval_nat_numeral)
  from step_receive [OF t(3) this, of ?m ?p 128] have r: "telemetry_step ?m ?p (128, t) (128, ?t1)" by simp
  let ?t2 = "?t1\<lparr>tm_stream := tm_stream t @ [(tm_subject t, ())], tm_pending := tm_pending ?t1 @ [()]\<rparr>"
  have "Telemetry_Publish ?m ?p demo_telemetry ?t1 = (Some (Ok ()), ?t2)"
    using t(2) by (simp add: Telemetry_Publish_def pending_size_def Let_def)
  from step_publish [OF this, of 128] have "telemetry_step ?m ?p (128, ?t1) (129, ?t2)" by simp
  with t(1) r have run: "telemetry_run ?m ?p (0, t0) (129, ?t2)"
    unfolding telemetry_run_def by (meson rtranclp.rtrancl_into_rtrancl)
  from telemetry_stalls [OF t0(1) run, where e = demo_telemetry and buf = "()" and fut = "()"] run t0(1) t(4) show ?thesis
    by auto
qed

end
