(* ===== verification/Venn_Proxy.thy ===== *)
theory Venn_Proxy
  imports Venn_Remote Venn_Subcenter
begin

text \<open>
  \<open>lib/callcenter/hybridproxy.go\<close>: the proxy of the gateway, which sends calls over HTTP and keeps
  subscriptions alive over a pool of websockets. What the world does in the rounds of a
  subscription is a list: which connections are closed, what dialling, upgrading and subscribing
  yield, and the data that the loop of the session receives until the session ends for some reason;
  a value that is still waiting in the channel at that moment is lost and is not part of it. The list
  may end while the subscription is still alive. The pause of a second between two rounds is not represented.
\<close>

section \<open>Construction\<close>

fun replace_first :: "string \<Rightarrow> string \<Rightarrow> string \<Rightarrow> string" where
  "replace_first old new [] = []"
| "replace_first old new (c # cs) =
     (if take (length old) (c # cs) = old then new @ drop (length old) (c # cs) else c # replace_first old new cs)"

record HybridProxy =
  hp_baseUrl :: string
  hp_websocketBaseUrl :: string

definition NewHybridProxy :: "string \<Rightarrow> HybridProxy" where
  "NewHybridProxy baseUrl = \<lparr>hp_baseUrl = baseUrl, hp_websocketBaseUrl = replace_first ''http'' ''ws'' baseUrl\<rparr>"

section \<open>Subscriptions\<close>

text \<open>One round: either the context or the notifier has ended, or a session is attempted.\<close>

datatype 'conn ws_round =
    RoundOver
  | Round "'conn \<Rightarrow> bool" "'conn outcome" "gerror option" "gerror option" "json list"

text \<open>The session passes its data on until a notification fails, as \<open>send_logs\<close> does.\<close>

fun subscription_rounds :: "'s notifier \<Rightarrow> ('s, 'conn socketPool) cell \<Rightarrow> bool \<Rightarrow> 'conn ws_round list \<Rightarrow> 's \<Rightarrow> reply \<times> 's" where
  "subscription_rounds nt c first [] s = (Sends [], s)"
| "subscription_rounds nt c first (RoundOver # rs) s = (Sends [], s)"
| "subscription_rounds nt c first (Round isClosed dial upgrade subscribe ds # rs) s =
     (case socketPool_get isClosed dial (rd c s) of
        (Panic m, p) \<Rightarrow> (Crash m, wr c p s)
      | (Err e, p) \<Rightarrow> if first then (send_err e, wr c p s) else subscription_rounds nt c first rs (wr c p s)
      | (Ok (i, conn), p) \<Rightarrow>
          let s1 = wr c p s in
          (case upgrade of
             Some e \<Rightarrow> (send_err e, s1)
           | None \<Rightarrow>
               (case subscribe of
                  Some e \<Rightarrow> if first then (send_err e, s1) else subscription_rounds nt c first rs s1
                | None \<Rightarrow> subscription_rounds nt c False rs (send_logs nt ds s1))))"

definition handleEthSubscription :: "'s notifier \<Rightarrow> ('s, 'conn socketPool) cell \<Rightarrow> 'conn ws_round list \<Rightarrow> 's handler" where
  "handleEthSubscription nt c rounds = (\<lambda>r s.
     if \<not> ctx_Notifier (rq_Ctx r) then (send_err (Sentinel ErrNotificationsUnsupported), s)
     else subscription_rounds nt c True rounds s)"

section \<open>EndpointHandler\<close>

text \<open>\<open>join\<close> is \<open>url.JoinPath\<close> and \<open>dial\<close> gives the calls of an HTTP client; the pool has eight places.\<close>

definition EndpointHandler :: "(string \<Rightarrow> string \<Rightarrow> string outcome) \<Rightarrow> (string \<Rightarrow> (string \<Rightarrow> raw \<Rightarrow> 's \<Rightarrow> json outcome \<times> 's) outcome)
    \<Rightarrow> 's notifier \<Rightarrow> ('s, 'conn socketPool) cell \<Rightarrow> 'conn ws_round list \<Rightarrow> HybridProxy \<Rightarrow> string \<Rightarrow> 's handler outcome" where
  "EndpointHandler join dial nt c rounds p to =
     outcome_bind (join (hp_baseUrl p) to) (\<lambda>joinedHttpUrl.
     outcome_bind (dial joinedHttpUrl) (\<lambda>httpClient.
     outcome_bind (join (hp_websocketBaseUrl p) to) (\<lambda>joinedWsUrl.
     Ok (\<lambda>r s. if rq_Method r = ''eth_subscribe'' then handleEthSubscription nt c rounds r s else handleHttp httpClient r s))))"

definition endpoint_pool :: "'conn socketPool" where
  "endpoint_pool = newSocketPool 8"

section \<open>Lemmas\<close>

text \<open>
  What the session of a round delivers, and whether the node can be dialled in it. Where it cannot, an
  open connection of the pool may still serve the round. Upgrading a connection does not fail, which
  the source relies on, and dialling may fail but does not panic.
\<close>

fun round_data :: "'conn ws_round \<Rightarrow> json list" where
  "round_data (Round isClosed dial upgrade None ds) = ds"
| "round_data _ = []"

fun dialled :: "'conn ws_round \<Rightarrow> bool" where
  "dialled RoundOver = False"
| "dialled (Round isClosed dial upgrade subscribe ds) = (\<exists>x. dial = Ok x)"

fun orderly_round :: "'conn ws_round \<Rightarrow> bool" where
  "orderly_round RoundOver = True"
| "orderly_round (Round isClosed dial upgrade subscribe ds) = (upgrade = None \<and> (\<forall>m. dial \<noteq> Panic m))"

text \<open>The rounds before the end, and what they may deliver: all of their data, or nothing where dialling fails.\<close>

definition live_rounds :: "'conn ws_round list \<Rightarrow> 'conn ws_round list" where
  "live_rounds rounds = takeWhile (\<lambda>x. x \<noteq> RoundOver) rounds"

definition round_delivers :: "'conn ws_round \<Rightarrow> json list \<Rightarrow> bool" where
  "round_delivers x ys \<longleftrightarrow> ys = round_data x \<or> ys = [] \<and> \<not> dialled x"

lemma socketPool_get_dialled: "\<exists>i conn. fst (socketPool_get isClosed (Ok x) p) = Ok (i, conn)"
  by (simp add: socketPool_get_def Let_def split: option.split)

lemma socketPool_get_no_panic: "dial \<noteq> Panic m \<Longrightarrow> fst (socketPool_get isClosed dial p) \<noteq> Panic m"
  by (auto simp: socketPool_get_def Let_def split: option.split outcome.splits)

lemma send_logs_recording:
  assumes "mem_cell d"
  shows "rd d (send_logs (recording sid d) ls s) = rd d s @ ls"
proof (induction ls arbitrary: s)
  case (Cons l ls)
  then show ?case using mem_cell.rd_upd [OF assms] by (simp add: recording_def)
qed simp

lemma send_logs_other:
  assumes "disjoint_cells c d"
  shows "rd c (send_logs (recording sid d) ls s) = rd c s"
proof (induction ls arbitrary: s)
  case (Cons l ls)
  then show ?case using disjoint_cells.rd_upd_left [OF assms] by (simp add: recording_def)
qed simp

text \<open>One round after the first: whatever happens in it, the loop goes on.\<close>

lemma round_goes_on:
  assumes "disjoint_cells c d" and "orderly_round x" and "x \<noteq> RoundOver" and "pool_inv (rd c s)"
  shows "\<exists>s1 ys. subscription_rounds (recording sid d) c False (x # rounds) s = subscription_rounds (recording sid d) c False rounds s1 \<and>
     pool_inv (rd c s1) \<and> rd d s1 = rd d s @ ys \<and> round_delivers x ys"
proof -
  have cell: "mem_cell c" "mem_cell d" using assms(1) by (simp_all add: disjoint_cells_def)
  obtain isClosed dial upgrade subscribe ds where x: "x = Round isClosed dial upgrade subscribe ds" using assms(3) by (cases x) auto
  obtain g p where g: "socketPool_get isClosed dial (rd c s) = (g, p)" by fastforce
  have p: "pool_inv p" using socketPool_get_inv [OF assms(4), of isClosed dial] g by simp
  let ?s = "wr c p s"
  have s: "pool_inv (rd c ?s)" "rd d ?s = rd d s" using p mem_cell.rd_wr [OF cell(1)] disjoint_cells.rd_wr_right [OF assms(1)] by simp_all
  show ?thesis
  proof (cases g)
    case (Err e)
    then have "\<not> dialled x" using socketPool_get_dialled [of isClosed _ "rd c s"] g x by (metis dialled.simps(2) fst_conv outcome.distinct(1))
    then show ?thesis using g Err x s by (intro exI [of _ ?s] exI [of _ "[]"]) (simp add: round_delivers_def)
  next
    case (Panic m)
    then show ?thesis using socketPool_get_no_panic [of dial m isClosed "rd c s"] g x assms(2) by simp
  next
    case (Ok y)
    obtain i conn where y: "y = (i, conn)" by fastforce
    show ?thesis
    proof (cases subscribe)
      case None
      let ?t = "send_logs (recording sid d) ds ?s"
      have "pool_inv (rd c ?t)" "rd d ?t = rd d s @ ds"
        using s send_logs_other [OF assms(1)] send_logs_recording [OF cell(2)] by simp_all
      then show ?thesis using g Ok y x None assms(2)
        by (intro exI [of _ ?t] exI [of _ ds]) (simp add: round_delivers_def Let_def)
    next
      case (Some e)
      then show ?thesis using g Ok y x assms(2) s
        by (intro exI [of _ ?s] exI [of _ "[]"]) (simp add: round_delivers_def Let_def)
    qed
  qed
qed

lemma rounds_after_first:
  assumes "disjoint_cells c d" and "list_all orderly_round rounds" and "pool_inv (rd c s)"
  shows "\<exists>s' yss. subscription_rounds (recording sid d) c False rounds s = (Sends [], s') \<and> pool_inv (rd c s') \<and>
     list_all2 round_delivers (live_rounds rounds) yss \<and> rd d s' = rd d s @ concat yss"
  using assms(2,3)
proof (induction rounds arbitrary: s)
  case Nil
  then show ?case by (auto simp: live_rounds_def)
next
  case (Cons x rounds)
  show ?case
  proof (cases "x = RoundOver")
    case True
    then show ?thesis using Cons.prems by (auto simp: live_rounds_def)
  next
    case False
    have x: "orderly_round x" and xs: "list_all orderly_round rounds" using Cons.prems(1) by simp_all
    obtain s1 ys where s1: "subscription_rounds (recording sid d) c False (x # rounds) s = subscription_rounds (recording sid d) c False rounds s1"
        "pool_inv (rd c s1)" "rd d s1 = rd d s @ ys" "round_delivers x ys"
      using round_goes_on [OF assms(1) x False Cons.prems(2)] by blast
    obtain s' yss where "subscription_rounds (recording sid d) c False rounds s1 = (Sends [], s')" "pool_inv (rd c s')"
        "list_all2 round_delivers (live_rounds rounds) yss" "rd d s' = rd d s1 @ concat yss"
      using Cons.IH [OF xs s1(2)] by blast
    then show ?thesis using s1 False by (intro exI [of _ s'] exI [of _ "ys # yss"]) (simp add: live_rounds_def)
  qed
qed

section \<open>Properties\<close>

text \<open>
  C31: A subscription of the gateway survives the loss of its websocket. Once it has been set up, the
  client sees no error, neither when a session ends, nor when redialling fails, nor when subscribing
  again fails: the loop tries again until the context or the notifier has ended. As long as the client
  accepts notifications it is notified of what the sessions hand over, in their order: every round
  in which the node can be dialled and subscribed contributes all of its data, a round in which it
  cannot be dialled contributes the data of a connection that is still open or nothing. The pool stays
  well-formed. If the first session cannot be dialled or subscribed the client gets that error and
  nothing else. Upgrading a connection does not fail and dialling does not panic.
\<close>

theorem subscription_survives:
  assumes "disjoint_cells c d" and "ctx_Notifier (rq_Ctx r)" and "pool_inv (rd c s)"
    and "list_all orderly_round (Round isClosed dial None subscribe ds # rounds)"
  shows "\<exists>s'. case (fst (socketPool_get isClosed dial (rd c s)), subscribe) of
       (Ok _, None) \<Rightarrow>
         handleEthSubscription (recording sid d) c (Round isClosed dial None subscribe ds # rounds) r s = (Sends [], s') \<and> pool_inv (rd c s') \<and>
         (\<exists>yss. list_all2 round_delivers (live_rounds rounds) yss \<and> rd d s' = rd d s @ ds @ concat yss)
     | (Ok _, Some e) \<Rightarrow>
         handleEthSubscription (recording sid d) c (Round isClosed dial None subscribe ds # rounds) r s = (send_err e, s') \<and> rd d s' = rd d s
     | (Err e, _) \<Rightarrow>
         handleEthSubscription (recording sid d) c (Round isClosed dial None subscribe ds # rounds) r s = (send_err e, s') \<and> rd d s' = rd d s
     | (Panic m, _) \<Rightarrow> False"
proof -
  have cell: "mem_cell c" "mem_cell d" using assms(1) by (simp_all add: disjoint_cells_def)
  obtain g p where g: "socketPool_get isClosed dial (rd c s) = (g, p)" by fastforce
  let ?s = "send_logs (recording sid d) ds (wr c p s)"
  have "pool_inv (rd c ?s)"
    using socketPool_get_inv [OF assms(3), of isClosed dial] g send_logs_other [OF assms(1)] mem_cell.rd_wr [OF cell(1)] by simp
  then obtain s' yss where rest: "subscription_rounds (recording sid d) c False rounds ?s = (Sends [], s')" "pool_inv (rd c s')"
      "list_all2 round_delivers (live_rounds rounds) yss" "rd d s' = rd d ?s @ concat yss"
    using rounds_after_first [OF assms(1), of rounds ?s sid] assms(4) by auto
  have d: "rd d ?s = rd d s @ ds" "rd d (wr c p s) = rd d s"
    using send_logs_recording [OF cell(2)] disjoint_cells.rd_wr_right [OF assms(1)] by simp_all
  have "g \<noteq> Panic m" for m using socketPool_get_no_panic [of dial m isClosed "rd c s"] g assms(4) by auto
  then show ?thesis
    using assms(2) g rest d by (cases g; cases subscribe) (auto simp: handleEthSubscription_def Let_def)
qed

theorem subscription_survives_witness:
  "\<exists>s'. handleEthSubscription (recording ''0x1'' (\<lparr>rd = snd, wr = (\<lambda>v s. (fst s, v))\<rparr>)) (\<lparr>rd = fst, wr = (\<lambda>v s. (v, snd s))\<rparr>)
      [Round (\<lambda>_. False) (Ok ()) None None [JStr ''a''], Round (\<lambda>_. True) (Err (ErrorText ''down'')) None None [],
       Round (\<lambda>_. True) (Ok ()) None None [JStr ''b''], RoundOver]
      (NewRequest (Background\<lparr>ctx_Notifier := True\<rparr>) ''eth_subscribe'' (JArr [])) (endpoint_pool, []) = (Sends [], s') \<and>
    snd s' = [JStr ''a'', JStr ''b'']"
proof -
  let ?c = "\<lparr>rd = fst, wr = (\<lambda>v s. (v, snd s))\<rparr> :: (unit socketPool \<times> json list, unit socketPool) cell"
  let ?d = "\<lparr>rd = snd, wr = (\<lambda>v s. (fst s, v))\<rparr> :: (unit socketPool \<times> json list, json list) cell"
  have "disjoint_cells ?c ?d" by unfold_locales simp_all
  from subscription_survives [OF this, where subscribe = None and dial = "Ok ()" and r = "NewRequest (Background\<lparr>ctx_Notifier := True\<rparr>) ''eth_subscribe'' (JArr [])"
      and s = "(endpoint_pool, [])" and sid = "''0x1''" and isClosed = "\<lambda>_. False" and ds = "[JStr ''a'']"
      and rounds = "[Round (\<lambda>_. True) (Err (ErrorText ''down'')) None None [], Round (\<lambda>_. True) (Ok ()) None None [JStr ''b''], RoundOver]"]
  show ?thesis
    by (simp add: NewRequest_def pool_inv_def endpoint_pool_def newSocketPool_def socketPool_get_def live_rounds_def list_all2_Cons1 round_delivers_def)
      auto
qed

end
