(* ===== verification/Venn_Subscribe.thy ===== *)
theory Venn_Subscribe
  imports Venn_Util
begin

text \<open>
  \<open>lib/jrpcutil/subscribe.go\<close>: subscriptions within the process. A subscription owns a channel of
  values, given by its user, and an unbuffered channel of errors; both are sent to without waiting,
  so that what nobody receives at that moment is lost. Whether a receiver is ready is an argument.
  The engine that keeps the subscriptions is an argument too, as are the decoder of the channel's
  elements and the checks of the kind of the channel.
\<close>

section \<open>State\<close>

text \<open>
  \<open>sb_received\<close> and \<open>sb_errors\<close> list what was received from the two channels; \<open>sb_channelClosed\<close> says
  whether the user has closed the channel of values, which no operation of the subscription does.
\<close>

record 'a Subscription =
  sb_namespace :: string
  sb_id :: string
  sb_received :: "'a list"
  sb_channelClosed :: bool
  sb_errors :: "gerror list"
  sb_errorClosed :: bool
  sb_closed :: bool

definition Subscription_new :: "string \<Rightarrow> 'a Subscription" where
  "Subscription_new ns = \<lparr>sb_namespace = ns, sb_id = [], sb_received = [], sb_channelClosed = False, sb_errors = [], sb_errorClosed = False, sb_closed = False\<rparr>"

section \<open>Operations\<close>

text \<open>A send on a closed channel and closing it again panic.\<close>

definition Subscription_err :: "bool \<Rightarrow> gerror \<Rightarrow> 'a Subscription \<Rightarrow> unit outcome \<times> 'a Subscription" where
  "Subscription_err ready e t =
     (if sb_closed t then (Ok (), t)
      else if sb_errorClosed t then (Panic ''send on closed channel'', t)
      else (Ok (), if ready then t\<lparr>sb_errors := sb_errors t @ [e]\<rparr> else t))"

text \<open>The part of \<open>Unsubscribe\<close> under the lock: whether the request to the engine is still to be made.\<close>

definition Unsubscribe_close :: "'a Subscription \<Rightarrow> bool outcome \<times> 'a Subscription" where
  "Unsubscribe_close t =
     (if sb_closed t then (Ok False, t)
      else if sb_errorClosed t then (Panic ''close of closed channel'', t\<lparr>sb_closed := True\<rparr>)
      else (Ok True, t\<lparr>sb_closed := True, sb_errorClosed := True\<rparr>))"

definition Unsubscribe :: "('s handler option \<Rightarrow> 's handler) \<Rightarrow> ('s, 'a Subscription) cell \<Rightarrow> 's \<Rightarrow> unit outcome \<times> 's" where
  "Unsubscribe engine c s =
     (let t = rd c s in
      case Unsubscribe_close t of
        (Ok False, t1) \<Rightarrow> (Ok (), wr c t1 s)
      | (Panic m, t1) \<Rightarrow> (Panic m, wr c t1 s)
      | (Err e, t1) \<Rightarrow> (Err e, wr c t1 s)
      | (Ok True, t1) \<Rightarrow>
          (case serve_icept (engine None) Interceptor_zero
                  (NewRequest (WithInternal Background True) (sb_namespace t @ ''_unsubscribe'') (JArr [JStr (sb_id t)])) (wr c t1 s) of
             (Ok ic, s1) \<Rightarrow> ((case ic_Error ic of Some e \<Rightarrow> Err e | None \<Rightarrow> Ok ()), s1)
           | (Err e, s1) \<Rightarrow> (Err e, s1)
           | (Panic m, s1) \<Rightarrow> (Panic m, s1)))"

text \<open>\<open>notify\<close>: the member \<open>result\<close> of the value is decoded and offered to the channel.\<close>

definition notify_value :: "codec \<Rightarrow> (json \<Rightarrow> 'a outcome) \<Rightarrow> any \<Rightarrow> 'a outcome" where
  "notify_value cdc dec v =
     outcome_bind (struct_fields (marshal_any cdc v)) (\<lambda>fs.
     outcome_bind (dec_field ''result'' (\<lambda>j. Ok (RawDoc j)) RawNil fs) (unmarshal_raw dec))"

definition Subscription_notify :: "codec \<Rightarrow> (json \<Rightarrow> 'a outcome) \<Rightarrow> bool \<Rightarrow> bool \<Rightarrow> any \<Rightarrow> 'a Subscription \<Rightarrow> unit outcome \<times> 'a Subscription" where
  "Subscription_notify cdc dec ready errReady v t =
     (case notify_value cdc dec v of
        Ok x \<Rightarrow>
          if sb_channelClosed t then (Panic ''send on closed channel'', t)
          else (Ok (), if ready then t\<lparr>sb_received := sb_received t @ [x]\<rparr> else t)
      | Err e \<Rightarrow> Subscription_err errReady e t
      | Panic m \<Rightarrow> (Panic m, t))"

text \<open>\<open>subscriptionInterceptor.Send\<close>: an error is kept, anything else is the id; a null leaves the id.\<close>

definition intercept_send :: "codec \<Rightarrow> send \<Rightarrow> gerror option \<times> 'a Subscription \<Rightarrow> gerror option \<times> 'a Subscription" where
  "intercept_send cdc x = (\<lambda>(err, t).
     case snd x of
       Some e \<Rightarrow> (Some e, t)
     | None \<Rightarrow>
         (case marshal_any cdc (fst x) of
            JStr i \<Rightarrow> (err, t\<lparr>sb_id := i\<rparr>)
          | _ \<Rightarrow> (err, t)))"

text \<open>\<open>Subscribe\<close>, for a channel that can be sent to.\<close>

definition Subscribe :: "codec \<Rightarrow> ('s handler option \<Rightarrow> 's handler) \<Rightarrow> ctx \<Rightarrow> 's handler \<Rightarrow> string \<Rightarrow> json \<Rightarrow> 's \<Rightarrow> 'a Subscription outcome \<times> 's" where
  "Subscribe cdc engine cx h namespace args s =
     (case engine (Some h) (NewRequest (WithInternal cx True) (namespace @ ''_subscribe'') args) s of
        (Crash m, s1) \<Rightarrow> (Panic m, s1)
      | (Sends xs, s1) \<Rightarrow>
          (case foldl (\<lambda>a x. intercept_send cdc x a) (None, Subscription_new namespace) xs of
             (Some e, _) \<Rightarrow> (Err e, s1)
           | (None, t) \<Rightarrow> (Ok t, s1)))"

section \<open>Steps\<close>

text \<open>
  The critical sections that may follow each other in any order: errors, notifications and requests
  to end the subscription, from any number of goroutines. The user leaves its channel open.
\<close>

inductive sub_step :: "codec \<Rightarrow> (json \<Rightarrow> 'a outcome) \<Rightarrow> 'a Subscription \<Rightarrow> unit outcome \<Rightarrow> 'a Subscription \<Rightarrow> bool" for cdc dec where
  step_err: "Subscription_err ready e t = (x, t') \<Longrightarrow> sub_step cdc dec t x t'"
| step_close: "Unsubscribe_close t = (b, t') \<Longrightarrow> sub_step cdc dec t (outcome_bind b (\<lambda>_. Ok ())) t'"
| step_notify: "Subscription_notify cdc dec ready errReady v t = (x, t') \<Longrightarrow> sub_step cdc dec t x t'"

inductive sub_reachable :: "codec \<Rightarrow> (json \<Rightarrow> 'a outcome) \<Rightarrow> 'a Subscription \<Rightarrow> bool" for cdc dec where
  sub_init: "sub_reachable cdc dec (Subscription_new ns)"
| sub_next: "sub_reachable cdc dec t \<Longrightarrow> sub_step cdc dec t x t' \<Longrightarrow> sub_reachable cdc dec t'"

inductive_cases sub_stepE: "sub_step cdc dec t x t'"

lemmas sub_defs = Subscription_err_def Unsubscribe_close_def Subscription_notify_def

lemma sub_inv: "sub_reachable cdc dec t \<Longrightarrow> sb_errorClosed t = sb_closed t \<and> \<not> sb_channelClosed t"
proof (induction rule: sub_reachable.induct)
  case (sub_next t x t')
  from sub_next.hyps(2) sub_next.IH show ?case
    by (elim sub_stepE) (auto simp: sub_defs split: if_splits outcome.splits)
qed (simp add: Subscription_new_def)

lemma notify_value_no_panic:
  assumes "\<And>j m. dec j \<noteq> Panic m"
  shows "notify_value cdc dec v \<noteq> Panic m"
proof -
  have f: "\<exists>y. dec_field name (\<lambda>j. Ok (RawDoc j)) r fs = Ok y" for name r fs
    by (induction fs arbitrary: r) auto
  have "unmarshal_raw dec y \<noteq> Panic m" for y using assms by (cases y) auto
  moreover have "struct_fields j \<noteq> Panic m" for j by (cases j) auto
  ultimately show ?thesis
    using f unfolding notify_value_def
    by (cases "struct_fields (marshal_any cdc v)") (auto, metis outcome_bind.simps(1))
qed

section \<open>Properties\<close>

text \<open>
  C40: However errors, notifications and unsubscriptions interleave, a subscription whose user leaves
  its channel of values open never sends on a closed channel and never closes one twice: no step
  panics unless the decoder does, once closed it stays closed, and after that no error is delivered
  any more.
\<close>

theorem subscription_never_panics:
  assumes "sub_reachable cdc dec t" and "sub_step cdc dec t x t'" and "\<And>j m. dec j \<noteq> Panic m"
  shows "(\<exists>y. x = Ok y) \<and> (sb_closed t \<longrightarrow> sb_closed t' \<and> sb_errors t' = sb_errors t)"
  using assms(2) sub_inv [OF assms(1)] notify_value_no_panic [OF assms(3)]
  by (elim sub_stepE) (auto simp: sub_defs split: if_splits outcome.splits)

theorem subscription_never_panics_witness:
  "fst (Unsubscribe_close (snd (Unsubscribe_close (Subscription_new ''eth'' :: json Subscription)))) = Ok False \<and>
   sb_closed (snd (Unsubscribe_close (snd (Unsubscribe_close (Subscription_new ''eth'' :: json Subscription)))))"
proof -
  let ?t = "snd (Unsubscribe_close (Subscription_new ''eth'' :: json Subscription))"
  have r: "sub_reachable eth_codec Ok ?t"
    by (rule sub_next [OF sub_init [of _ _ "''eth''"] step_close]) (rule prod.collapse [symmetric])
  have s: "sub_step eth_codec Ok ?t (outcome_bind (fst (Unsubscribe_close ?t)) (\<lambda>_. Ok ())) (snd (Unsubscribe_close ?t))"
    by (rule step_close) simp
  from subscription_never_panics [OF r s] show ?thesis by (simp add: Unsubscribe_close_def Subscription_new_def)
qed

end
