(* ===== verification/Venn_Always.thy ===== *)
theory Venn_Always
  imports Venn_Election
begin

text \<open>
  The strategy of a single node, \<open>AlwaysLeader\<close> (\<open>lib/election/strategy.go\<close>), as the goroutines that
  meet in it: the one that runs \<open>Join\<close>, the one that calls \<open>AcquireLease\<close> and, through it,
  \<open>RunWithLease\<close>, and the one that \<open>AcquireLease\<close> starts. A send on an unbuffered channel is one step of
  sender and receiver together; a channel can be received from only by who holds it.
\<close>

section \<open>State\<close>

text \<open>Where the caller of \<open>AcquireLease\<close> is: before the goroutine is started, at the send, at the close, returned.\<close>

datatype lease_pc = LeaseStart | LeaseSend | LeaseClose | LeaseReturned

text \<open>The goroutine: not started, about to evaluate its two channels, waiting on them, ended, or dead of a nil context.\<close>

datatype watch_pc = WatchNone | WatchStart | WatchWait | WatchEnded | WatchPanicked

datatype join_pc = JoinBefore | JoinWaiting | JoinReturned

text \<open>
  \<open>al_ctx\<close> is the field \<open>ctx\<close>: nil, or whether that context has ended; \<open>al_sctx\<close> says whether the context of
  the lease has ended. \<open>al_parent\<close> and \<open>al_jparent\<close> say so of the arguments of \<open>AcquireLease\<close> and \<open>Join\<close>.
  \<open>al_run\<close> and \<open>al_actions\<close> are the phase of \<open>RunWithLease\<close> and what it has started and stopped.
\<close>

record always_state =
  al_ctx :: "bool option"
  al_join :: join_pc
  al_jparent :: bool
  al_parent :: bool
  al_lease :: lease_pc
  al_watch :: watch_pc
  al_sctx :: bool
  al_run :: run_phase
  al_actions :: "run_action list"

definition AlwaysLeader_new :: always_state where
  "AlwaysLeader_new = \<lparr>al_ctx = None, al_join = JoinBefore, al_jparent = False, al_parent = False, al_lease = LeaseStart,
     al_watch = WatchNone, al_sctx = False, al_run = Asking, al_actions = []\<rparr>"

definition AlwaysLeader_IsLeader :: "always_state \<Rightarrow> bool" where
  "AlwaysLeader_IsLeader a = True"

section \<open>Steps\<close>

text \<open>The context the caller passes ends, and with it the one of the lease.\<close>

definition end_parent :: "always_state \<Rightarrow> always_state" where
  "end_parent a = a\<lparr>al_parent := True, al_sctx := True\<rparr>"

text \<open>The context of \<open>Join\<close> ends, and with it the one kept in the field.\<close>

definition end_join_parent :: "always_state \<Rightarrow> always_state" where
  "end_join_parent a = a\<lparr>al_jparent := True, al_ctx := map_option (\<lambda>_. True) (al_ctx a)\<rparr>"

fun join_step :: "always_state \<Rightarrow> always_state option" where
  "join_step a =
     (case al_join a of
        JoinBefore \<Rightarrow> Some (a\<lparr>al_join := JoinWaiting, al_ctx := Some (al_jparent a)\<rparr>)
      | JoinWaiting \<Rightarrow> if al_jparent a then Some (a\<lparr>al_join := JoinReturned, al_ctx := Some True\<rparr>) else None
      | JoinReturned \<Rightarrow> None)"

text \<open>\<open>AcquireLease\<close>: \<open>receiver\<close> says whether somebody is receiving from the channel.\<close>

fun lease_send_step :: "bool \<Rightarrow> always_state \<Rightarrow> always_state option" where
  "lease_send_step receiver a =
     (case al_lease a of
        LeaseStart \<Rightarrow> Some (a\<lparr>al_lease := LeaseSend, al_watch := WatchStart, al_sctx := al_parent a\<rparr>)
      | LeaseSend \<Rightarrow> if receiver then Some (a\<lparr>al_lease := LeaseClose\<rparr>) else None
      | LeaseClose \<Rightarrow> Some (a\<lparr>al_lease := LeaseReturned\<rparr>)
      | LeaseReturned \<Rightarrow> None)"

text \<open>The goroutine: entering the select evaluates \<open>a.ctx.Done()\<close>, on a nil context too.\<close>

fun watch_step :: "always_state \<Rightarrow> always_state option" where
  "watch_step a =
     (case al_watch a of
        WatchStart \<Rightarrow> Some (a\<lparr>al_watch := (if al_ctx a = None then WatchPanicked else WatchWait)\<rparr>)
      | WatchWait \<Rightarrow>
          if al_ctx a = Some True then Some (a\<lparr>al_watch := WatchEnded, al_sctx := True\<rparr>)
          else if al_parent a then Some (a\<lparr>al_watch := WatchEnded\<rparr>) else None
      | _ \<Rightarrow> None)"

text \<open>\<open>RunWithLease\<close> goes on once it has the channel, and asks again when leadership was lost.\<close>

definition always_run_step :: "run_event \<Rightarrow> always_state \<Rightarrow> always_state option" where
  "always_run_step e a =
     (if al_lease a \<noteq> LeaseReturned then None
      else map_option (\<lambda>(p, bs). a\<lparr>al_run := p, al_actions := al_actions a @ bs, al_lease := (if p = Asking then LeaseStart else LeaseReturned)\<rparr>)
        (run_step (al_run a) e))"

text \<open>The process; a panic of the goroutine ends it. Receiving needs the channel, which the caller gets when \<open>AcquireLease\<close> returns.\<close>

inductive always_step :: "always_state \<Rightarrow> always_state \<Rightarrow> bool" where
  step_end: "al_watch a \<noteq> WatchPanicked \<Longrightarrow> always_step a (end_parent a)"
| step_end_join: "al_watch a \<noteq> WatchPanicked \<Longrightarrow> always_step a (end_join_parent a)"
| step_join: "al_watch a \<noteq> WatchPanicked \<Longrightarrow> join_step a = Some a' \<Longrightarrow> always_step a a'"
| step_lease: "al_watch a \<noteq> WatchPanicked \<Longrightarrow> receiver \<longrightarrow> al_lease a = LeaseReturned \<Longrightarrow>
    lease_send_step receiver a = Some a' \<Longrightarrow> always_step a a'"
| step_watch: "al_watch a \<noteq> WatchPanicked \<Longrightarrow> watch_step a = Some a' \<Longrightarrow> always_step a a'"
| step_run: "al_watch a \<noteq> WatchPanicked \<Longrightarrow> always_run_step e a = Some a' \<Longrightarrow> always_step a a'"

inductive always_reachable :: "always_state \<Rightarrow> bool" where
  always_new: "always_reachable AlwaysLeader_new"
| always_next: "always_reachable a \<Longrightarrow> always_step a a' \<Longrightarrow> always_reachable a'"

inductive_cases always_stepE: "always_step a a'"

lemmas always_steps = join_step.simps lease_send_step.simps watch_step.simps always_run_step_def end_parent_def end_join_parent_def

section \<open>Invariant\<close>

text \<open>
  The caller never gets past the send, \<open>RunWithLease\<close> has started nothing, and \<open>Join\<close> returns only
  when its context has ended.
\<close>

definition always_inv :: "always_state \<Rightarrow> bool" where
  "always_inv a \<longleftrightarrow> al_lease a \<in> {LeaseStart, LeaseSend} \<and> al_run a = Asking \<and> al_actions a = [] \<and>
     (al_join a = JoinReturned \<longrightarrow> al_jparent a) \<and> (al_join a \<noteq> JoinBefore \<longrightarrow> al_ctx a \<noteq> None) \<and>
     (al_watch a \<noteq> WatchNone \<longrightarrow> al_lease a = LeaseSend) \<and> (al_ctx a = Some True \<longrightarrow> al_jparent a)"

lemma always_step_inv:
  assumes "always_inv a" and "always_step a a'"
  shows "always_inv a'"
  using assms(2,1)
proof cases
  case step_join
  then show ?thesis using assms(1) by (auto simp: always_inv_def always_steps split: join_pc.splits if_splits)
next
  case (step_lease receiver)
  then show ?thesis using assms(1) by (auto simp: always_inv_def always_steps split: lease_pc.splits if_splits)
next
  case step_watch
  then show ?thesis using assms(1) by (auto simp: always_inv_def always_steps split: watch_pc.splits if_splits)
next
  case (step_run e)
  then show ?thesis using assms(1) by (auto simp: always_inv_def always_steps)
qed (use assms(1) in \<open>auto simp: always_inv_def always_steps\<close>)

lemma always_reachable_inv: "always_reachable a \<Longrightarrow> always_inv a"
  by (induction rule: always_reachable.induct) (simp_all add: always_step_inv, simp add: always_inv_def AlwaysLeader_new_def)

text \<open>
  A node that asks for a lease before \<open>Join\<close> has run dies of it: the goroutine reads the context of
  the strategy, which is nil.
\<close>

lemma always_lease_before_join_panics:
  "\<exists>a. always_reachable a \<and> al_join a = JoinBefore \<and> al_watch a = WatchPanicked"
proof -
  let ?b = "AlwaysLeader_new\<lparr>al_lease := LeaseSend, al_watch := WatchStart, al_sctx := False\<rparr>"
  let ?c = "?b\<lparr>al_watch := WatchPanicked\<rparr>"
  have "always_step AlwaysLeader_new ?b" by (rule step_lease [where receiver = False]) (simp_all add: AlwaysLeader_new_def)
  then have "always_reachable ?b" by (rule always_next [OF always_new])
  moreover have "always_step ?b ?c" by (rule step_watch) (simp_all add: AlwaysLeader_new_def)
  ultimately have "always_reachable ?c" by (rule always_next)
  then show ?thesis by (intro exI [of _ ?c]) (simp add: AlwaysLeader_new_def)
qed

section \<open>Properties\<close>

text \<open>
  C38: The strategy for a single node never leads. Although it always claims to be the leader, no
  interleaving of the goroutines lets \<open>AcquireLease\<close> return, so that \<open>RunWithLease\<close> starts neither the
  leader nor the follower; and \<open>Join\<close>, on which the start of the node waits, returns only when its
  context has ended.
\<close>

theorem always_leader_never_leads:
  assumes "always_reachable a"
  shows "AlwaysLeader_IsLeader a \<and> al_lease a \<noteq> LeaseReturned \<and> al_run a = Asking \<and> al_actions a = [] \<and>
     (al_join a = JoinReturned \<longrightarrow> al_jparent a)"
  using always_reachable_inv [OF assms] by (auto simp: always_inv_def AlwaysLeader_IsLeader_def)

theorem always_leader_never_leads_witness:
  "AlwaysLeader_IsLeader (the (join_step AlwaysLeader_new)) \<and> al_actions (the (join_step AlwaysLeader_new)) = []"
proof -
  have "always_step AlwaysLeader_new (the (join_step AlwaysLeader_new))"
    by (rule step_join) (simp_all add: AlwaysLeader_new_def)
  from always_leader_never_leads [OF always_next [OF always_new this]] show ?thesis by simp
qed

end
