(* ===== verification/Venn_Blocks.thy ===== *)
theory Venn_Blocks
  imports Venn_Chainblock
begin

text \<open>
  Blocks, transactions, receipts and logs as structs (\<open>lib/ethtypes/block.go\<close>, \<open>logs.go\<close>) with their
  decoders. An embedded struct is a field of the record; its members are read from the same
  object. A slice that may be nil is an option, a pointer as well. Decoding starts from the zero
  value. 256-bit numbers and byte strings have codecs of their own, arguments like those of
  \<open>Venn_Ethtypes\<close>.
\<close>

section \<open>Codecs\<close>

type_synonym u256 = "256 word"

record block_codec =
  bc_eth :: codec
  bc_u256_Hex :: "u256 \<Rightarrow> string"
  bc_dec_u256 :: "json \<Rightarrow> u256 outcome"
  bc_dec_Bytes :: "json \<Rightarrow> nat list outcome"

definition Uint256_MarshalJSON :: "block_codec \<Rightarrow> u256 \<Rightarrow> string" where
  "Uint256_MarshalJSON c x = quoted (bc_u256_Hex c x)"

definition Uint256_UnmarshalJSON :: "block_codec \<Rightarrow> json \<Rightarrow> u256 outcome" where
  "Uint256_UnmarshalJSON c j = bc_dec_u256 c j"

text \<open>A member of the object, zero when it is absent; a slice that is nil when it is absent or null.\<close>

definition fld_u256 :: "block_codec \<Rightarrow> string \<Rightarrow> (string \<times> json) list \<Rightarrow> u256 outcome" where
  "fld_u256 c name = dec_field name (Uint256_UnmarshalJSON c) 0"

definition fld_u64 :: "block_codec \<Rightarrow> string \<Rightarrow> (string \<times> json) list \<Rightarrow> u64 outcome" where
  "fld_u64 c name = dec_field name (dec_Uint64 (bc_eth c)) 0"

definition fld_hash :: "block_codec \<Rightarrow> string \<Rightarrow> (string \<times> json) list \<Rightarrow> hash outcome" where
  "fld_hash c name = dec_field name (dec_Hash (bc_eth c)) 0"

definition fld_addr :: "block_codec \<Rightarrow> string \<Rightarrow> (string \<times> json) list \<Rightarrow> address outcome" where
  "fld_addr c name = dec_field name (dec_Address (bc_eth c)) 0"

definition fld_addr_ptr :: "block_codec \<Rightarrow> string \<Rightarrow> (string \<times> json) list \<Rightarrow> address option outcome" where
  "fld_addr_ptr c name = dec_field name (dec_ptr (dec_Address (bc_eth c))) None"

definition fld_bytes :: "block_codec \<Rightarrow> string \<Rightarrow> (string \<times> json) list \<Rightarrow> nat list outcome" where
  "fld_bytes c name = dec_field name (bc_dec_Bytes c) []"

definition fld_slice :: "string \<Rightarrow> (json \<Rightarrow> 'a outcome) \<Rightarrow> (string \<times> json) list \<Rightarrow> 'a list option outcome" where
  "fld_slice name dec = dec_field name (dec_ptr (dec_slice dec)) None"

lemmas fld_defs = fld_u256_def fld_u64_def fld_hash_def fld_addr_def fld_addr_ptr_def fld_bytes_def fld_slice_def

section \<open>Transactions\<close>

record TransactionAccess =
  ta_Address :: address
  ta_StorageKeys :: "hash list option"

definition dec_TransactionAccess :: "block_codec \<Rightarrow> json \<Rightarrow> TransactionAccess outcome" where
  "dec_TransactionAccess c j =
     outcome_bind (struct_fields j) (\<lambda>fs.
     outcome_bind (fld_addr c ''address'' fs) (\<lambda>a.
     outcome_bind (fld_slice ''storageKeys'' (dec_Hash (bc_eth c)) fs) (\<lambda>ks.
     Ok \<lparr>ta_Address = a, ta_StorageKeys = ks\<rparr>)))"

record Transaction =
  tx_GasPrice :: u256
  tx_ChainID :: u64
  tx_BlockHash :: hash
  tx_Type :: u64
  tx_Gas :: u256
  tx_S :: u256
  tx_From :: address
  tx_Hash :: hash
  tx_TransactionIndex :: u64
  tx_Nonce :: u64
  tx_Input :: "nat list"
  tx_BlockNumber :: u64
  tx_To :: "address option"
  tx_V :: u256
  tx_R :: u256
  tx_Value :: u256
  tx_AccessList :: "TransactionAccess list option"
  tx_MaxFeePerGas :: u256
  tx_MaxPriorityFeePerGas :: u256

definition dec_Transaction :: "block_codec \<Rightarrow> json \<Rightarrow> Transaction outcome" where
  "dec_Transaction c j =
     outcome_bind (struct_fields j) (\<lambda>fs.
     outcome_bind (fld_u256 c ''gasPrice'' fs) (\<lambda>gasPrice.
     outcome_bind (fld_u64 c ''chainId'' fs) (\<lambda>chainId.
     outcome_bind (fld_hash c ''blockHash'' fs) (\<lambda>blockHash.
     outcome_bind (fld_u64 c ''type'' fs) (\<lambda>ty.
     outcome_bind (fld_u256 c ''gas'' fs) (\<lambda>gas.
     outcome_bind (fld_u256 c ''s'' fs) (\<lambda>s.
     outcome_bind (fld_addr c ''from'' fs) (\<lambda>from.
     outcome_bind (fld_hash c ''hash'' fs) (\<lambda>h.
     outcome_bind (fld_u64 c ''transactionIndex'' fs) (\<lambda>idx.
     outcome_bind (fld_u64 c ''nonce'' fs) (\<lambda>nonce.
     outcome_bind (fld_bytes c ''input'' fs) (\<lambda>input.
     outcome_bind (fld_u64 c ''blockNumber'' fs) (\<lambda>number.
     outcome_bind (fld_addr_ptr c ''to'' fs) (\<lambda>to.
     outcome_bind (fld_u256 c ''v'' fs) (\<lambda>v.
     outcome_bind (fld_u256 c ''r'' fs) (\<lambda>r.
     outcome_bind (fld_u256 c ''value'' fs) (\<lambda>val.
     outcome_bind (fld_slice ''accessList'' (dec_TransactionAccess c) fs) (\<lambda>acc.
     outcome_bind (fld_u256 c ''maxFeePerGas'' fs) (\<lambda>maxFee.
     outcome_bind (fld_u256 c ''maxPriorityFeePerGas'' fs) (\<lambda>maxPrio.
     Ok \<lparr>tx_GasPrice = gasPrice, tx_ChainID = chainId, tx_BlockHash = blockHash, tx_Type = ty, tx_Gas = gas, tx_S = s,
       tx_From = from, tx_Hash = h, tx_TransactionIndex = idx, tx_Nonce = nonce, tx_Input = input, tx_BlockNumber = number,
       tx_To = to, tx_V = v, tx_R = r, tx_Value = val, tx_AccessList = acc, tx_MaxFeePerGas = maxFee,
       tx_MaxPriorityFeePerGas = maxPrio\<rparr>))))))))))))))))))))"

section \<open>Blocks\<close>

record block_head =
  hd_Hash :: hash
  hd_Number :: u64

definition dec_Head :: "block_codec \<Rightarrow> (string \<times> json) list \<Rightarrow> block_head outcome" where
  "dec_Head c fs =
     outcome_bind (fld_hash c ''hash'' fs) (\<lambda>h.
     outcome_bind (fld_u64 c ''number'' fs) (\<lambda>n. Ok \<lparr>hd_Hash = h, hd_Number = n\<rparr>))"

record BlockWithdrawal =
  bw_Amount :: u256
  bw_Address :: address
  bw_Index :: u64
  bw_ValidatorIndex :: u64

definition dec_BlockWithdrawal :: "block_codec \<Rightarrow> json \<Rightarrow> BlockWithdrawal outcome" where
  "dec_BlockWithdrawal c j =
     outcome_bind (struct_fields j) (\<lambda>fs.
     outcome_bind (fld_u256 c ''amount'' fs) (\<lambda>amount.
     outcome_bind (fld_addr c ''address'' fs) (\<lambda>addr.
     outcome_bind (fld_u64 c ''index'' fs) (\<lambda>idx.
     outcome_bind (fld_u64 c ''validatorIndex'' fs) (\<lambda>v.
     Ok \<lparr>bw_Amount = amount, bw_Address = addr, bw_Index = idx, bw_ValidatorIndex = v\<rparr>)))))"

text \<open>The uncles are documents of any kind.\<close>

record blockHeader =
  bh_Head :: block_head
  bh_ParentHash :: hash
  bh_ExtraData :: "nat list"
  bh_Nonce :: "nat list"
  bh_LogsBloom :: "nat list"
  bh_GasLimit :: u256
  bh_WithdrawalsRoot :: "hash option"
  bh_Timestamp :: u64
  bh_ReceiptsRoot :: hash
  bh_Difficulty :: u256
  bh_GasUsed :: u256
  bh_StateRoot :: hash
  bh_Miner :: address
  bh_MixHash :: hash
  bh_Sha3Uncles :: hash
  bh_TransactionsRoot :: hash
  bh_BaseFeePerGas :: u256
  bh_Size :: u256
  bh_Uncles :: "json list option"
  bh_Withdrawals :: "BlockWithdrawal list option"
  bh_TotalDifficulty :: u256

definition dec_blockHeader :: "block_codec \<Rightarrow> (string \<times> json) list \<Rightarrow> blockHeader outcome" where
  "dec_blockHeader c fs =
     outcome_bind (dec_Head c fs) (\<lambda>head.
     outcome_bind (fld_hash c ''parentHash'' fs) (\<lambda>parent.
     outcome_bind (fld_bytes c ''extraData'' fs) (\<lambda>extra.
     outcome_bind (fld_bytes c ''nonce'' fs) (\<lambda>nonce.
     outcome_bind (fld_bytes c ''logsBloom'' fs) (\<lambda>bloom.
     outcome_bind (fld_u256 c ''gasLimit'' fs) (\<lambda>gasLimit.
     outcome_bind (dec_field ''withdrawalsRoot'' (dec_ptr (dec_Hash (bc_eth c))) None fs) (\<lambda>wroot.
     outcome_bind (fld_u64 c ''timestamp'' fs) (\<lambda>ts.
     outcome_bind (fld_hash c ''receiptsRoot'' fs) (\<lambda>rroot.
     outcome_bind (fld_u256 c ''difficulty'' fs) (\<lambda>diff.
     outcome_bind (fld_u256 c ''gasUsed'' fs) (\<lambda>gasUsed.
     outcome_bind (fld_hash c ''stateRoot'' fs) (\<lambda>sroot.
     outcome_bind (fld_addr c ''miner'' fs) (\<lambda>miner.
     outcome_bind (fld_hash c ''mixHash'' fs) (\<lambda>mix.
     outcome_bind (fld_hash c ''sha3Uncles'' fs) (\<lambda>sha3.
     outcome_bind (fld_hash c ''transactionsRoot'' fs) (\<lambda>troot.
     outcome_bind (fld_u256 c ''baseFeePerGas'' fs) (\<lambda>baseFee.
     outcome_bind (fld_u256 c ''size'' fs) (\<lambda>sz.
     outcome_bind (fld_slice ''uncles'' Ok fs) (\<lambda>uncles.
     outcome_bind (fld_slice ''withdrawals'' (dec_BlockWithdrawal c) fs) (\<lambda>ws.
     outcome_bind (fld_u256 c ''totalDifficulty'' fs) (\<lambda>total.
     Ok \<lparr>bh_Head = head, bh_ParentHash = parent, bh_ExtraData = extra, bh_Nonce = nonce, bh_LogsBloom = bloom, bh_GasLimit = gasLimit,
       bh_WithdrawalsRoot = wroot, bh_Timestamp = ts, bh_ReceiptsRoot = rroot, bh_Difficulty = diff, bh_GasUsed = gasUsed,
       bh_StateRoot = sroot, bh_Miner = miner, bh_MixHash = mix, bh_Sha3Uncles = sha3, bh_TransactionsRoot = troot,
       bh_BaseFeePerGas = baseFee, bh_Size = sz, bh_Uncles = uncles, bh_Withdrawals = ws,
       bh_TotalDifficulty = total\<rparr>)))))))))))))))))))))"

record BlockHeader =
  bl_header :: blockHeader
  bl_Transactions :: "Transaction option list option"
  bl_TransactionHashes :: "hash list option"

text \<open>The loop over the transactions, which are pointers.\<close>

fun header_hashes :: "Transaction option list \<Rightarrow> hash list outcome" where
  "header_hashes [] = Ok []"
| "header_hashes (None # txs) = Panic ''nil pointer dereference''"
| "header_hashes (Some tx # txs) = outcome_bind (header_hashes txs) (\<lambda>hs. Ok (tx_Hash tx # hs))"

definition BlockHeader_UnmarshalJSON :: "block_codec \<Rightarrow> json \<Rightarrow> BlockHeader outcome" where
  "BlockHeader_UnmarshalJSON c j =
     outcome_bind (struct_fields j) (\<lambda>fs.
     outcome_bind (dec_blockHeader c fs) (\<lambda>h.
     outcome_bind (fld_slice ''transactions'' (dec_ptr (dec_Transaction c)) fs) (\<lambda>txs.
     case txs of
       None \<Rightarrow> Ok \<lparr>bl_header = h, bl_Transactions = None, bl_TransactionHashes = None\<rparr>
     | Some ts \<Rightarrow> outcome_bind (header_hashes ts) (\<lambda>hs.
         Ok \<lparr>bl_header = h, bl_Transactions = Some ts, bl_TransactionHashes = Some hs\<rparr>))))"

text \<open>The same fields with the other one of the last two in the document.\<close>

type_synonym TruncatedBlockHeader = BlockHeader

definition dec_TruncatedBlockHeader :: "block_codec \<Rightarrow> json \<Rightarrow> TruncatedBlockHeader outcome" where
  "dec_TruncatedBlockHeader c j =
     outcome_bind (struct_fields j) (\<lambda>fs.
     outcome_bind (dec_blockHeader c fs) (\<lambda>h.
     outcome_bind (fld_slice ''transactions'' (dec_Hash (bc_eth c)) fs) (\<lambda>hs.
     Ok \<lparr>bl_header = h, bl_Transactions = None, bl_TransactionHashes = hs\<rparr>)))"

definition dec_TransactionlessBlockHeader :: "block_codec \<Rightarrow> json \<Rightarrow> blockHeader outcome" where
  "dec_TransactionlessBlockHeader c j = outcome_bind (struct_fields j) (dec_blockHeader c)"

section \<open>Logs and receipts\<close>

record Log =
  lg_LogAddressTopics :: LogAddressTopics
  lg_Data :: "nat list"
  lg_TransactionHash :: hash
  lg_TransactionIndex :: u64
  lg_BlockHash :: hash
  lg_BlockNumber :: u64
  lg_LogIndex :: u64
  lg_Removed :: bool
  lg_Timestamp :: u64

definition dec_Log :: "block_codec \<Rightarrow> json \<Rightarrow> Log outcome" where
  "dec_Log c j =
     outcome_bind (struct_fields j) (\<lambda>fs.
     outcome_bind (fld_addr c ''address'' fs) (\<lambda>addr.
     outcome_bind (dec_field ''topics'' (dec_slice (dec_Hash (bc_eth c))) [] fs) (\<lambda>topics.
     outcome_bind (fld_bytes c ''data'' fs) (\<lambda>data.
     outcome_bind (fld_hash c ''transactionHash'' fs) (\<lambda>th.
     outcome_bind (fld_u64 c ''transactionIndex'' fs) (\<lambda>ti.
     outcome_bind (fld_hash c ''blockHash'' fs) (\<lambda>bh.
     outcome_bind (fld_u64 c ''blockNumber'' fs) (\<lambda>bn.
     outcome_bind (fld_u64 c ''logIndex'' fs) (\<lambda>li.
     outcome_bind (dec_field ''removed'' dec_bool False fs) (\<lambda>removed.
     outcome_bind (fld_u64 c ''timestamp'' fs) (\<lambda>ts.
     Ok \<lparr>lg_LogAddressTopics = \<lparr>log_Address = addr, log_Topics = topics\<rparr>, lg_Data = data, lg_TransactionHash = th,
       lg_TransactionIndex = ti, lg_BlockHash = bh, lg_BlockNumber = bn, lg_LogIndex = li, lg_Removed = removed,
       lg_Timestamp = ts\<rparr>)))))))))))"

record TransactionReceipt =
  tr_BlockHash :: hash
  tr_BlockNumber :: u64
  tr_ContractAddress :: "address option"
  tr_CumulativeGasUsed :: u256
  tr_EffectiveGasPrice :: u256
  tr_From :: address
  tr_GasUsed :: u256
  tr_Logs :: "Log option list option"
  tr_LogsBloom :: "nat list"
  tr_Status :: u64
  tr_To :: "address option"
  tr_TransactionHash :: hash
  tr_TransactionIndex :: u64
  tr_Type :: u64

definition dec_TransactionReceipt :: "block_codec \<Rightarrow> json \<Rightarrow> TransactionReceipt outcome" where
  "dec_TransactionReceipt c j =
     outcome_bind (struct_fields j) (\<lambda>fs.
     outcome_bind (fld_hash c ''blockHash'' fs) (\<lambda>bh.
     outcome_bind (fld_u64 c ''blockNumber'' fs) (\<lambda>bn.
     outcome_bind (fld_addr_ptr c ''contractAddress'' fs) (\<lambda>contract.
     outcome_bind (fld_u256 c ''cumulativeGasUsed'' fs) (\<lambda>cumulative.
     outcome_bind (fld_u256 c ''effectiveGasPrice'' fs) (\<lambda>price.
     outcome_bind (fld_addr c ''from'' fs) (\<lambda>from.
     outcome_bind (fld_u256 c ''gasUsed'' fs) (\<lambda>gas.
     outcome_bind (fld_slice ''logs'' (dec_ptr (dec_Log c)) fs) (\<lambda>logs.
     outcome_bind (fld_bytes c ''logsBloom'' fs) (\<lambda>bloom.
     outcome_bind (fld_u64 c ''status'' fs) (\<lambda>status.
     outcome_bind (fld_addr_ptr c ''to'' fs) (\<lambda>to.
     outcome_bind (fld_hash c ''transactionHash'' fs) (\<lambda>th.
     outcome_bind (fld_u64 c ''transactionIndex'' fs) (\<lambda>ti.
     outcome_bind (fld_u64 c ''type'' fs) (\<lambda>ty.
     Ok \<lparr>tr_BlockHash = bh, tr_BlockNumber = bn, tr_ContractAddress = contract, tr_CumulativeGasUsed = cumulative,
       tr_EffectiveGasPrice = price, tr_From = from, tr_GasUsed = gas, tr_Logs = logs, tr_LogsBloom = bloom, tr_Status = status,
       tr_To = to, tr_TransactionHash = th, tr_TransactionIndex = ti, tr_Type = ty\<rparr>)))))))))))))))"

section \<open>Lemmas\<close>

text \<open>A field that decodes has only members that decode.\<close>

lemma dec_field_members:
  "dec_field name dec x fs = Ok y \<Longrightarrow> (k, v) \<in> set fs \<Longrightarrow> fold_name k = fold_name name \<Longrightarrow> \<exists>z. dec v = Ok z"
  by (induction name dec x fs rule: dec_field.induct) (auto simp: outcome_bind_Ok_iff split: if_splits)

lemma header_hashes_Ok:
  "header_hashes txs = Ok hs \<longleftrightarrow> None \<notin> set txs \<and> hs = map (\<lambda>tx. tx_Hash (the tx)) txs"
  by (induction txs arbitrary: hs rule: header_hashes.induct) (auto simp: outcome_bind_Ok_iff)

lemma header_hashes_nil: "None \<in> set txs \<Longrightarrow> \<exists>m. header_hashes txs = Panic m"
  by (induction txs rule: header_hashes.induct) auto

text \<open>The header reads the same hash, number, parent and time as the partial decoders of the stores and the stalker.\<close>

lemma blockHeader_partial:
  assumes "struct_fields j = Ok fs" and "dec_blockHeader c fs = Ok h"
  shows "dec_hash_field (bc_eth c) ''hash'' j = Ok (hd_Hash (bh_Head h)) \<and>
     dec_number_field (bc_eth c) ''number'' j = Ok (hd_Number (bh_Head h)) \<and>
     dec_hash_field (bc_eth c) ''parentHash'' j = Ok (bh_ParentHash h) \<and>
     dec_number_field (bc_eth c) ''timestamp'' j = Ok (bh_Timestamp h)"
  using assms by (auto simp: dec_blockHeader_def dec_Head_def fld_u64_def fld_hash_def dec_hash_field_def dec_number_field_def outcome_bind_Ok_iff)

text \<open>
  A decoded block lists the hashes of its transactions in order, none of them is null, and its
  header is what the stores and the stalker read of the document.
\<close>

lemma block_header_hashes:
  assumes "BlockHeader_UnmarshalJSON c j = Ok b"
  shows "bl_TransactionHashes b = map_option (map (\<lambda>tx. tx_Hash (the tx))) (bl_Transactions b) \<and>
     None \<notin> set (case bl_Transactions b of None \<Rightarrow> [] | Some ts \<Rightarrow> ts) \<and>
     dec_hash_field (bc_eth c) ''hash'' j = Ok (hd_Hash (bh_Head (bl_header b))) \<and>
     dec_number_field (bc_eth c) ''number'' j = Ok (hd_Number (bh_Head (bl_header b)))"
proof -
  from assms obtain fs h txs where j: "struct_fields j = Ok fs" and h: "dec_blockHeader c fs = Ok h"
    and txs: "fld_slice ''transactions'' (dec_ptr (dec_Transaction c)) fs = Ok txs"
    by (auto simp: BlockHeader_UnmarshalJSON_def outcome_bind_Ok_iff)
  have b: "bl_header b = h" "bl_Transactions b = txs" "bl_TransactionHashes b = map_option (map (\<lambda>tx. tx_Hash (the tx))) txs"
      "None \<notin> set (case txs of None \<Rightarrow> [] | Some ts \<Rightarrow> ts)"
    using assms by (cases txs; auto simp: BlockHeader_UnmarshalJSON_def j h txs outcome_bind_Ok_iff header_hashes_Ok)+
  then show ?thesis using blockHeader_partial [OF j h] by simp
qed

text \<open>A null among the transactions is decoded to a nil pointer, which the loop dereferences.\<close>

lemma null_transaction_panics:
  assumes "struct_fields j = Ok fs" and "dec_blockHeader c fs = Ok h"
    and "fld_slice ''transactions'' (dec_ptr (dec_Transaction c)) fs = Ok (Some txs)" and "None \<in> set txs"
  shows "\<exists>m. BlockHeader_UnmarshalJSON c j = Panic m"
  using header_hashes_nil [OF assms(4)] by (auto simp: BlockHeader_UnmarshalJSON_def assms(1-3))

text \<open>A block that was fetched without its transactions, and has some, is no \<open>BlockHeader\<close>.\<close>

lemma truncated_block_refused:
  assumes "(k, JArr xs) \<in> set fs" and "fold_name k = fold_name ''transactions''" and "JStr t \<in> set xs"
  shows "BlockHeader_UnmarshalJSON c (JObj fs) \<noteq> Ok b"
proof
  assume "BlockHeader_UnmarshalJSON c (JObj fs) = Ok b"
  then obtain txs where "fld_slice ''transactions'' (dec_ptr (dec_Transaction c)) fs = Ok txs"
    by (auto simp: BlockHeader_UnmarshalJSON_def outcome_bind_Ok_iff)
  from dec_field_members [OF this [unfolded fld_slice_def] assms(1,2)]
  obtain ts where "map_outcome (dec_ptr (dec_Transaction c)) xs = Ok ts" by (auto simp: outcome_bind_Ok_iff)
  then obtain tx where "dec_ptr (dec_Transaction c) (JStr t) = Ok tx"
    using assms(3) by (auto simp: map_outcome_Ok_iff in_set_conv_nth)
  then show False by (simp add: dec_Transaction_def)
qed

end
