(* ===== verification/Venn_Services.thy ===== *)
theory Venn_Services
  imports Venn_Stalker Venn_Config
begin

text \<open>
  The services a node and a gateway are started with: the Redis clients with the embedded server
  and its clock (\<open>svc/shared/services/redi\<close>), the NATS connection (\<open>svc/gateway/services/gnat\<close>), the choice of
  the head store (\<open>svc/node/atoms/headstoreProvider\<close>) and the address of the metrics server
  (\<open>cmd/venn\<close>). The client libraries are arguments.
\<close>

section \<open>Redis (redi.go)\<close>

record ('c, 'r, 'o) redis_lib =
  rb_Start :: "string outcome"
  rb_ParseURL :: "string \<Rightarrow> 'o outcome"
  rb_NewClient :: "string + 'o \<Rightarrow> 'c"
  rb_rueidis_ParseURL :: "string \<Rightarrow> 'o outcome"
  rb_rueidis_NewClient :: "string + 'o \<Rightarrow> 'r outcome"

text \<open>\<open>rsv_rueidis\<close> is nil when the client could not be made.\<close>

record ('c, 'r) redis_service =
  rsv_c :: 'c
  rsv_cfg :: Redis
  rsv_rueidis :: "'r option"

definition redis_embedded :: "Redis \<Rightarrow> bool" where
  "redis_embedded cfg \<longleftrightarrow> rdc_URI cfg = ''embedded'' \<or> rdc_URI cfg = []"

text \<open>The embedded server: its address takes the place of a URL. The error of the second client is overwritten.\<close>

definition redis_start_embedded :: "('c, 'r, 'o) redis_lib \<Rightarrow> Redis \<Rightarrow> ('c, 'r) redis_service outcome" where
  "redis_start_embedded lib cfg =
     outcome_bind (rb_Start lib) (\<lambda>addr.
       case rb_rueidis_NewClient lib (Inl addr) of
         Panic m \<Rightarrow> Panic m
       | Err e \<Rightarrow> Ok \<lparr>rsv_c = rb_NewClient lib (Inl addr), rsv_cfg = cfg, rsv_rueidis = None\<rparr>
       | Ok r \<Rightarrow> Ok \<lparr>rsv_c = rb_NewClient lib (Inl addr), rsv_cfg = cfg, rsv_rueidis = Some r\<rparr>)"

definition Redis_New :: "('c, 'r, 'o) redis_lib \<Rightarrow> Redis \<Rightarrow> ('c, 'r) redis_service outcome" where
  "Redis_New lib cfg =
     (if redis_embedded cfg then redis_start_embedded lib cfg
      else
        outcome_bind (rb_ParseURL lib (rdc_URI cfg)) (\<lambda>opts.
        outcome_bind (rb_rueidis_ParseURL lib (rdc_URI cfg)) (\<lambda>ropts.
        outcome_bind (rb_rueidis_NewClient lib (Inr ropts)) (\<lambda>r.
        Ok \<lparr>rsv_c = rb_NewClient lib (Inr opts), rsv_cfg = cfg, rsv_rueidis = Some r\<rparr>))))"

definition Redis_Namespace :: "('c, 'r) redis_service \<Rightarrow> string" where
  "Redis_Namespace r = rdc_Namespace (rsv_cfg r)"

text \<open>
  The goroutine that moves the clock of the embedded server: at every tick it advances it by the
  time since the tick before. \<open>ff\<close> is \<open>FastForward\<close>.
\<close>

fun embedded_clock :: "(int \<Rightarrow> 'm \<Rightarrow> 'm) \<Rightarrow> int \<Rightarrow> int list \<Rightarrow> 'm \<Rightarrow> 'm" where
  "embedded_clock ff prev [] mr = mr"
| "embedded_clock ff prev (next # ticks) mr = embedded_clock ff next ticks (ff (time_Sub next prev) mr)"

section \<open>NATS (nats.go)\<close>

record ('conn, 'srv) nats_lib =
  nl_Connect :: "string \<Rightarrow> 'conn outcome"
  nl_NewServer :: "'srv outcome"
  nl_Ready :: "'srv \<Rightarrow> bool"
  nl_ClientURL :: "'srv \<Rightarrow> string"
  nl_IsConnected :: "'conn \<Rightarrow> bool"

definition Gnat_New :: "('conn, 'srv) nats_lib \<Rightarrow> string \<Rightarrow> 'conn outcome" where
  "Gnat_New lib uri =
     (if uri \<noteq> [] then nl_Connect lib uri
      else
        outcome_bind (nl_NewServer lib) (\<lambda>ns.
        if \<not> nl_Ready lib ns then Err (ErrorText ''failed to start embedded nats server'')
        else nl_Connect lib (nl_ClientURL lib ns)))"

definition Gnat_Health :: "('conn, 'srv) nats_lib \<Rightarrow> 'conn \<Rightarrow> gerror option" where
  "Gnat_Health lib conn = (if \<not> nl_IsConnected lib conn then Some (ErrorText ''not connected to nats server'') else None)"

section \<open>The head store of a node (provider.go)\<close>

definition headstore_provider :: "'r option \<Rightarrow> 'r + Atomic" where
  "headstore_provider redihead = (case redihead of Some r \<Rightarrow> Inl r | None \<Rightarrow> Inr NewAtomic)"

section \<open>The metrics server (node.go)\<close>

record Metrics =
  mt_Disabled :: bool
  mt_Bind :: string

text \<open>The address the metrics server listens on, if it is started.\<close>

definition metrics_bind :: "Metrics option \<Rightarrow> string option" where
  "metrics_bind m =
     (case m of
        None \<Rightarrow> Some '':6060''
      | Some m \<Rightarrow> if mt_Disabled m then None else if mt_Bind m \<noteq> [] then Some (mt_Bind m) else Some '':6060'')"

section \<open>Lemmas\<close>

text \<open>
  A node that connects to a Redis server has both of its clients; one with the embedded server may
  lack the second, and nothing tells.
\<close>

lemma redis_new_clients:
  "Redis_New lib cfg = Ok r \<Longrightarrow> \<not> redis_embedded cfg \<Longrightarrow> rsv_rueidis r \<noteq> None"
  by (auto simp: Redis_New_def outcome_bind_Ok_iff)

lemma redis_embedded_hides_error:
  assumes "redis_embedded cfg" and "rb_Start lib = Ok addr" and "rb_rueidis_NewClient lib (Inl addr) = Err e"
  shows "\<exists>r. Redis_New lib cfg = Ok r \<and> rsv_rueidis r = None"
  using assms by (simp add: Redis_New_def redis_start_embedded_def)

text \<open>
  The clock of the embedded server follows the wall clock: after any number of ticks in order it
  has advanced by the time from the start to the last of them.
\<close>

lemma embedded_clock_follows:
  assumes "\<And>d mr. now (ff d mr) = now mr + d"
  shows "sorted (prev # ticks) \<Longrightarrow> last (prev # ticks) - prev < 2 ^ 63 \<Longrightarrow>
    now (embedded_clock ff prev ticks mr) = now mr + (last (prev # ticks) - prev)"
proof (induction ticks arbitrary: prev mr)
  case (Cons t ticks)
  have le: "prev \<le> t" "t \<le> last (t # ticks)" using Cons.prems(1) last_in_set [of "t # ticks"] by auto
  have "time_Sub t prev = t - prev" using le Cons.prems(2) by (simp add: time_Sub_def)
  then show ?case using Cons.IH [of t "ff (time_Sub t prev) mr"] Cons.prems le assms by simp
qed simp

text \<open>
  Without Redis the first block that the stalker sees ends the process: the head store of the
  node is then the one in memory, which cannot store a head.
\<close>

lemma stalker_without_redis_panics:
  assumes store: "headstore_provider (None :: unit option) = Inr st" and st: "rd hs s1 = st"
    and block: "Do cdc ctx cluster ''eth_getBlockByNumber'' (JArr [JStr ''latest'', JBool False]) s = (Ok block, s1)" "block \<noteq> JNull"
    and head: "dec_stalk_head cdc block = Ok (number, timestamp)" "0 < number"
  defines "put \<equiv> \<lambda>name n s. (case Atomic_Put name n (rd hs s) of (res, t) \<Rightarrow> (res, wr hs t s))"
  shows "\<exists>m. fst (Stalker_tick cdc dts now put ctx chain cluster s) = Panic m"
proof -
  have "at_heads (rd hs s1) = None" using store st by (auto simp: headstore_provider_def NewAtomic_def)
  then have "Atomic_Put (ch_Name chain) number (rd hs s1) =
      (Panic ''assignment to entry in nil map'', (rd hs s1)\<lparr>at_subs := notify_subs (ch_Name chain) number (at_subs (rd hs s1))\<rparr>)"
    using head(2) by (auto simp: Atomic_Put_def Atomic_Get_def Let_def)
  then show ?thesis by (simp add: Stalker_tick_def Let_def block head put_def)
qed

end
