(* ===== verification/Venn_Failover.thy ===== *)
theory Venn_Failover
  imports Venn_Remote
begin

text \<open>
  What \<open>Cluster.ServeRPC\<close> (\<open>lib/callcenter/cluster.go\<close>) does with the remotes that were added to a cluster:
  how the round counters move over many requests, in which order a request is tried, which remote
  comes first, and what a method filter on a remote does to the whole cluster.
\<close>

section \<open>The counters over many requests\<close>

text \<open>The groups of a cluster without their counters, and a bound on the counters.\<close>

definition cluster_shape :: "Cluster \<Rightarrow> (int \<times> RemoteWithConfig list) list" where
  "cluster_shape cl = map (\<lambda>p. (cp_priority p, cp_remotes p)) (cl_priorities cl)"

lemma shape_group:
  assumes "cluster_shape cl = cluster_shape cl'" and "p \<in> set (cl_priorities cl)"
  shows "\<exists>q \<in> set (cl_priorities cl'). cp_priority q = cp_priority p \<and> cp_remotes q = cp_remotes p"
proof -
  have "(cp_priority p, cp_remotes p) \<in> set (cluster_shape cl)" using assms(2) by (auto simp: cluster_shape_def)
  then have "(cp_priority p, cp_remotes p) \<in> set (cluster_shape cl')" by (simp only: assms(1))
  then show ?thesis by (auto simp: cluster_shape_def)
qed

definition rounds_upto :: "nat \<Rightarrow> Cluster \<Rightarrow> bool" where
  "rounds_upto n cl \<longleftrightarrow> (\<forall>p \<in> set (cl_priorities cl). 0 \<le> cp_round p \<and> cp_round p \<le> int n)"

lemma rounds_upto_mono: "rounds_upto m cl \<Longrightarrow> m \<le> n \<Longrightarrow> rounds_upto n cl"
  by (force simp: rounds_upto_def)

text \<open>One request counts every group at most once and changes nothing else of the cluster.\<close>

definition counted_once :: "clustererPriority \<Rightarrow> clustererPriority \<Rightarrow> bool" where
  "counted_once p q \<longleftrightarrow> q = p \<or> q = p\<lparr>cp_round := wrap64 (cp_round p + 1)\<rparr>"

lemma try_priorities_counts:
  assumes c: "mem_cell c" and k: "\<And>h. keeps_cell c (serve h)"
  shows "distinct is \<Longrightarrow> \<forall>i \<in> set is. i < length (cl_priorities (rd c s)) \<Longrightarrow>
    list_all2 counted_once (cl_priorities (rd c s)) (cl_priorities (rd c (snd (try_priorities serve c is r ic s))))"
proof (induction "is" arbitrary: ic s)
  case Nil
  then show ?case by (simp add: counted_once_def list_all2_same)
next
  case (Cons i "is")
  note try_keeps = try_remotes_keeps [where serve = serve, OF k]
  let ?ps = "cl_priorities (rd c s)"
  let ?rs = "cp_remotes (?ps ! i)"
  let ?s1 = "if 1 < length ?rs then bump_round c i s else s"
  let ?j = "if 1 < length ?rs then cp_round (cl_priorities (rd c ?s1) ! i) else 0"
  let ?l = "i + 1 = length ?ps"
  obtain x s' where x: "try_remotes serve ?l ?rs r ?j (length ?rs) ic ?s1 = (x, s')" by fastforce
  let ?q = "if 1 < length ?rs then (?ps ! i)\<lparr>cp_round := wrap64 (cp_round (?ps ! i) + 1)\<rparr> else ?ps ! i"
  have "rd c s' = rd c ?s1" using try_keeps [of ?l ?rs r ?j "length ?rs" ic ?s1] by (simp only: x snd_conv)
  then have s': "cl_priorities (rd c s') = ?ps[i := ?q]" using c by (simp add: bump_round_priorities)
  have q: "counted_once (?ps ! i) ?q" by (simp add: counted_once_def)
  have refl: "list_all2 counted_once ?ps ?ps" by (simp add: counted_once_def list_all2_same)
  have now: "list_all2 counted_once ?ps (?ps[i := ?q])"
    using list_all2_update_cong [OF refl q, of i] by simp
  show ?case
  proof (cases x)
    case (Inl y)
    then show ?thesis using s' now unfolding try_priorities.simps Let_def x by simp
  next
    case (Inr ic')
    let ?s2 = "snd (try_priorities serve c is r ic' s')"
    have all: "list_all2 counted_once (?ps[i := ?q]) (cl_priorities (rd c ?s2))"
      using Cons.IH [of s' ic'] Cons.prems s' by simp
    have "cl_priorities (rd c ?s2) ! i = ?ps[i := ?q] ! i"
      using try_priorities_others [where serve = serve, OF c k, of i "is" r ic' s'] Cons.prems s' by simp
    then have "counted_once (?ps ! l) (cl_priorities (rd c ?s2) ! l)" if "l < length ?ps" for l
      using all now that by (cases "l = i") (auto simp: list_all2_conv_all_nth)
    then have "list_all2 counted_once ?ps (cl_priorities (rd c ?s2))"
      using all by (simp add: list_all2_conv_all_nth)
    then show ?thesis using Inr unfolding try_priorities.simps Let_def x by simp
  qed
qed

lemma counted_once_shape:
  assumes "list_all2 counted_once (cl_priorities cl) (cl_priorities cl')"
  shows "cluster_shape cl' = cluster_shape cl"
  using assms unfolding cluster_shape_def
  by (intro nth_equalityI) (auto simp: list_all2_conv_all_nth counted_once_def)

lemma counted_once_rounds:
  assumes "list_all2 counted_once (cl_priorities cl) (cl_priorities cl')" and "rounds_upto n cl" and "int n + 1 < 2 ^ 63"
  shows "rounds_upto (Suc n) cl'"
  unfolding rounds_upto_def
proof
  fix q assume "q \<in> set (cl_priorities cl')"
  then obtain p where p: "p \<in> set (cl_priorities cl)" "counted_once p q"
    using assms(1) by (metis in_set_conv_nth list_all2_conv_all_nth)
  then have "0 \<le> cp_round p" "cp_round p \<le> int n" using assms(2) by (auto simp: rounds_upto_def)
  then show "0 \<le> cp_round q \<and> cp_round q \<le> int (Suc n)"
    using p(2) assms(3) by (auto simp: counted_once_def in_i64_def)
qed

lemma serve_cluster_counts:
  assumes "mem_cell c" and "\<And>h. keeps_cell c (serve h)" and "rounds_upto n (rd c s)" and "int n + 1 < 2 ^ 63"
  shows "cluster_shape (rd c (snd (Cluster_ServeRPC serve c r s))) = cluster_shape (rd c s) \<and>
     rounds_upto (Suc n) (rd c (snd (Cluster_ServeRPC serve c r s)))"
proof -
  have "list_all2 counted_once (cl_priorities (rd c s)) (cl_priorities (rd c (snd (Cluster_ServeRPC serve c r s))))"
    unfolding Cluster_ServeRPC_def by (rule try_priorities_counts [where serve = serve, OF assms(1,2)]) simp_all
  then show ?thesis using counted_once_shape counted_once_rounds [OF _ assms(3,4)] by blast
qed

text \<open>Many requests: the groups stay, the counters stay in their bounds, and the first group is counted every time.\<close>

lemma serve_all_counts:
  assumes c: "mem_cell c" and k: "\<And>h. keeps_cell c (serve h)"
  shows "serve_all (Cluster_ServeRPC serve c) rs s = (xs, s') \<Longrightarrow> rounds_upto n (rd c s) \<Longrightarrow> int n + int (length rs) < 2 ^ 63 \<Longrightarrow>
    cl_priorities (rd c s) = p # ps \<Longrightarrow> 1 < length (cp_remotes p) \<Longrightarrow>
    cluster_shape (rd c s') = cluster_shape (rd c s) \<and> rounds_upto (n + length rs) (rd c s') \<and>
    (\<exists>qs. cl_priorities (rd c s') = p\<lparr>cp_round := cp_round p + int (length rs)\<rparr> # qs)"
proof (induction rs arbitrary: s xs n p ps)
  case (Cons r rs)
  obtain x s1 where x: "Cluster_ServeRPC serve c r s = (x, s1)" by fastforce
  obtain ys where ys: "serve_all (Cluster_ServeRPC serve c) rs s1 = (ys, s')"
    using Cons.prems(1) x by (auto split: prod.splits)
  have n: "int n + 1 < 2 ^ 63" using Cons.prems(3) by simp
  note one = serve_cluster_counts [where serve = serve and r = r, OF c k Cons.prems(2) n, unfolded x snd_conv]
  have "list_all2 counted_once (cl_priorities (rd c s)) (cl_priorities (rd c s1))"
    using try_priorities_counts [where serve = serve, OF c k, of "[0..<length (cl_priorities (rd c s))]" s r Interceptor_zero] x
    by (simp add: Cluster_ServeRPC_def)
  then obtain q qs where q: "cl_priorities (rd c s1) = q # qs" "counted_once p q"
    using Cons.prems(4) by (auto simp: list_all2_Cons1)
  have "0 \<le> cp_round p" "cp_round p \<le> int n" using Cons.prems(2,4) by (auto simp: rounds_upto_def)
  then have "cp_round q = cp_round p + 1"
    using first_group_round [where serve = serve, OF c k Cons.prems(4,5), of r] x q(1) n by (simp add: in_i64_def)
  then have q': "q = p\<lparr>cp_round := cp_round p + 1\<rparr>" using q(2) by (auto simp: counted_once_def)
  show ?case using Cons.IH [OF ys one [THEN conjunct2] _ q(1)] one Cons.prems(3,5) by (simp add: q' algebra_simps)
qed simp

section \<open>The order of a request\<close>

text \<open>A handler that calls the one of a remote, perhaps after counting a round.\<close>

definition calls :: "(handler_ref \<Rightarrow> 's handler) \<Rightarrow> ('s, Cluster) cell \<Rightarrow> 's handler \<Rightarrow> RemoteWithConfig \<Rightarrow> bool" where
  "calls serve c h x \<longleftrightarrow> h = serve (rw_Handler x) \<or> (\<exists>i. h = (\<lambda>r s. serve (rw_Handler x) r (bump_round c i s)))"

definition prio_order :: "Cluster \<Rightarrow> (int \<times> RemoteWithConfig) list" where
  "prio_order cl = concat (map (\<lambda>p. map (Pair (cp_priority p)) (try_group p)) (cl_priorities cl))"

lemma prio_order_snd: "map snd (prio_order cl) = try_order cl"
  by (simp add: prio_order_def try_order_def map_concat comp_def)

lemma group_calls:
  "list_all2 (calls serve c) (group_order serve c cl i) (try_group (cl_priorities cl ! i))"
proof -
  have "list_all2 (calls serve c) (map (\<lambda>x. serve (rw_Handler x)) xs) xs" for xs
    by (simp add: list_all2_conv_all_nth calls_def)
  moreover have "list_all2 (calls serve c) (counted (bump_round c i) (map (\<lambda>x. serve (rw_Handler x)) xs)) xs" for xs
    using calculation [of "tl xs"] by (cases xs) (auto simp: calls_def)
  ultimately show ?thesis by (simp add: group_order_def try_group_def Let_def rotate_map)
qed

lemma cluster_calls: "list_all2 (calls serve c) (cluster_order serve c cl) (try_order cl)"
proof -
  have "list_all2 (calls serve c) (concat (map (group_order serve c cl) is)) (concat (map (\<lambda>i. try_group (cl_priorities cl ! i)) is))" for "is"
    by (induction "is") (simp_all add: list_all2_appendI [OF group_calls])
  moreover have "map (\<lambda>i. try_group (cl_priorities cl ! i)) [0..<length (cl_priorities cl)] = map try_group (cl_priorities cl)"
    by (rule nth_equalityI) simp_all
  ultimately show ?thesis by (metis cluster_order_def try_order_def)
qed

text \<open>Lists of groups, each a rotation of the elements of its key.\<close>

lemma filter_rotated_groups:
  assumes "\<And>p. p \<in> set ps \<Longrightarrow> \<exists>n. g p = rotate n (filter (\<lambda>a. fst a = key p) xs)" and "distinct (map key ps)"
  shows "\<exists>n. filter (\<lambda>a. fst a = q) (concat (map g ps)) = rotate n (if q \<in> key ` set ps then filter (\<lambda>a. fst a = q) xs else [])"
  using assms
proof (induction ps)
  case (Cons p ps)
  obtain n where n: "g p = rotate n (filter (\<lambda>a. fst a = key p) xs)" using Cons.prems(1) [of p] by auto
  then have "\<forall>a \<in> set (g p). fst a = key p" by simp
  then have gp: "filter (\<lambda>a. fst a = q) (g p) = (if key p = q then g p else [])" by (auto simp: filter_id_conv filter_empty_conv)
  obtain m where m: "filter (\<lambda>a. fst a = q) (concat (map g ps)) = rotate m (if q \<in> key ` set ps then filter (\<lambda>a. fst a = q) xs else [])"
    using Cons by auto
  show ?case
  proof (cases "key p = q")
    case True
    then have "q \<notin> key ` set ps" using Cons.prems(2) by auto
    then show ?thesis using True gp m n by auto
  next
    case False
    then show ?thesis using gp m by auto
  qed
qed simp

text \<open>
  The order of a cluster that was built by adding \<open>ads\<close>, wherever its counters are: by priority,
  every addition once, and within a priority a rotation of the additions.
\<close>

lemma prio_order_build:
  assumes "cluster_shape cl = cluster_shape (build_cluster ads)"
  shows "mset (prio_order cl) = mset ads" and "sorted (map fst (prio_order cl))"
    and "\<exists>n. filter (\<lambda>a. fst a = q) (prio_order cl) = rotate n (filter (\<lambda>a. fst a = q) ads)"
proof -
  let ?g = "\<lambda>p. map (Pair (cp_priority p)) (try_group p)" and ?ps = "cl_priorities cl"
  note b = cluster_of_build [of ads, unfolded cluster_of_def]
  have qs: "map cp_priority ?ps = map cp_priority (cl_priorities (build_cluster ads))"
    using arg_cong [OF assms, of "map fst"] by (simp add: cluster_shape_def o_def)
  have st: "sorted_wrt (<) (map cp_priority ?ps)" and keys: "cp_priority ` set ?ps = fst ` set ads"
    using b arg_cong [OF qs, of set] by (simp_all add: qs del: set_map, simp)
  have grp: "\<exists>n. ?g p = rotate n (filter (\<lambda>a. fst a = cp_priority p) ads)" if p: "p \<in> set ?ps" for p
  proof -
    obtain q where "q \<in> set (cl_priorities (build_cluster ads))" "cp_priority q = cp_priority p" "cp_remotes q = cp_remotes p"
      using shape_group [OF assms p] by blast
    then have "cp_remotes p = map snd (filter (\<lambda>a. fst a = cp_priority p) ads)" using b by metis
    moreover have "map (\<lambda>a. (cp_priority p, snd a)) (filter (\<lambda>a. fst a = cp_priority p) ads) = filter (\<lambda>a. fst a = cp_priority p) ads"
      by (intro map_idI) auto
    ultimately show ?thesis by (auto simp: try_group_def rotate_map [symmetric] comp_def)
  qed
  have flt: "\<exists>n. filter (\<lambda>a. fst a = q) (prio_order cl) = rotate n (filter (\<lambda>a. fst a = q) ads)" for q
  proof -
    have "distinct (map cp_priority ?ps)" using st by (simp add: strict_sorted_iff)
    moreover have "(if q \<in> fst ` set ads then filter (\<lambda>a. fst a = q) ads else []) = filter (\<lambda>a. fst a = q) ads"
      by (force simp: filter_empty_conv eq_commute [of "[]"])
    ultimately show ?thesis
      using filter_rotated_groups [where g = ?g and key = cp_priority and ps = ?ps and q = q, OF grp] by (simp only: keys prio_order_def)
  qed
  then show "\<exists>n. filter (\<lambda>a. fst a = q) (prio_order cl) = rotate n (filter (\<lambda>a. fst a = q) ads)" .
  have "count (mset zs) k = count (mset (filter (\<lambda>a. fst a = fst k) zs)) k" for zs :: "(int \<times> RemoteWithConfig) list" and k
    by simp
  then show "mset (prio_order cl) = mset ads" using flt by (metis multiset_eqI mset_rotated)
  have "sorted (map fst (concat (map ?g ps)))" if "sorted_wrt (<) (map cp_priority ps)" for ps
    using that
  proof (induction ps)
    case (Cons p ps)
    have "map fst (?g p) = replicate (length (try_group p)) (cp_priority p)" by (simp add: comp_def map_replicate_const)
    then show ?case using Cons by (auto simp: sorted_append less_imp_le)
  qed simp
  then show "sorted (map fst (prio_order cl))" using st by (simp add: prio_order_def)
qed

lemma failover_first:
  assumes "mem_cell c" and "\<And>h. keeps_cell c (serve h)" and "cluster_ready (rd c s)" and "cl_priorities (rd c s) = p # ps"
  shows "\<exists>h hs. Cluster_ServeRPC serve c r s = failover (h # hs) r s \<and> calls serve c h (hd (try_group p)) \<and>
     hd (try_group p) \<in> set (cp_remotes p)"
proof -
  have ne: "try_group p \<noteq> []" using assms(3,4) by (simp add: cluster_ready_def try_group_def)
  then obtain xs where xs: "try_order (rd c s) = hd (try_group p) # xs"
    using assms(4) by (cases "try_group p") (simp_all add: try_order_def)
  from cluster_calls [of serve c "rd c s"] obtain h hs where "cluster_order serve c (rd c s) = h # hs" "calls serve c h (hd (try_group p))"
    unfolding xs by (auto simp: list_all2_Cons2)
  then show ?thesis
    using serve_failover [where serve = serve, OF assms(1-3)] hd_in_set [OF ne] by (auto simp: try_group_def)
qed

section \<open>Properties\<close>

text \<open>
  C1: A cluster to which the remotes \<open>ads\<close> were added, each with its priority, serves a request as a
  failover over handlers of these remotes: every one of them exactly once, by ascending priority,
  and within a priority in a rotation of the order in which they were added. This holds wherever
  the round counters are, as long as none of them is about to overflow.
\<close>

theorem cluster_serves_in_order:
  assumes "mem_cell c" and "\<And>h. keeps_cell c (serve h)" and "cluster_ready (rd c s)"
    and "cluster_shape (rd c s) = cluster_shape (build_cluster ads)"
  shows "\<exists>hs order. Cluster_ServeRPC serve c r s = failover hs r s \<and> list_all2 (calls serve c) hs (map snd order) \<and>
     mset order = mset ads \<and> sorted (map fst order) \<and>
     (\<forall>q. \<exists>n. filter (\<lambda>a. fst a = q) order = rotate n (filter (\<lambda>a. fst a = q) ads))"
proof (intro exI conjI)
  show "Cluster_ServeRPC serve c r s = failover (cluster_order serve c (rd c s)) r s"
    by (rule serve_failover [where serve = serve, OF assms(1-3)])
  show "list_all2 (calls serve c) (cluster_order serve c (rd c s)) (map snd (prio_order (rd c s)))"
    by (simp add: prio_order_snd cluster_calls)
  show "mset (prio_order (rd c s)) = mset ads" "sorted (map fst (prio_order (rd c s)))"
    "\<forall>q. \<exists>n. filter (\<lambda>a. fst a = q) (prio_order (rd c s)) = rotate n (filter (\<lambda>a. fst a = q) ads)"
    using prio_order_build [OF assms(4)] by blast+
qed

theorem cluster_serves_in_order_witness:
  "\<exists>hs order. Cluster_ServeRPC demo_serve own_cell (NewRequest Background ''eth_call'' (JArr [])) (build_cluster demo_remotes) =
     failover hs (NewRequest Background ''eth_call'' (JArr [])) (build_cluster demo_remotes) \<and>
     list_all2 (calls demo_serve own_cell) hs (map snd order) \<and> mset order = mset demo_remotes \<and> sorted (map fst order)"
proof -
  have "cluster_shape (rd own_cell (build_cluster demo_remotes)) = cluster_shape (build_cluster demo_remotes)"
    by (simp add: own_cell_def)
  from cluster_serves_in_order [where serve = demo_serve, OF own_cell_ok demo_ok(1,3) this] show ?thesis by blast
qed

text \<open>
  C4: The load of the best group is spread evenly. Of as many requests in a row as the first group
  has remotes, whatever the requests are, each remote of the group is the first one to be tried
  for exactly one.
\<close>

theorem cluster_round_robin:
  assumes "mem_cell c" and "\<And>h. keeps_cell c (serve h)" and "\<forall>q \<in> set (cl_priorities (rd c s)). cp_remotes q \<noteq> []"
    and "rounds_upto n (rd c s)" and "\<forall>q \<in> set (cl_priorities (rd c s)). int n + int (length rs) + int (length (cp_remotes q)) + 1 < 2 ^ 63"
    and "cl_priorities (rd c s) = p # ps" and "1 < length (cp_remotes p)" and "length rs = length (cp_remotes p)"
  shows "\<exists>firsts. mset firsts = mset (cp_remotes p) \<and> length firsts = length rs \<and>
     (\<forall>t < length rs. \<exists>h hs. calls serve c h (firsts ! t) \<and>
        Cluster_ServeRPC serve c (rs ! t) (snd (serve_all (Cluster_ServeRPC serve c) (take t rs) s)) =
        failover (h # hs) (rs ! t) (snd (serve_all (Cluster_ServeRPC serve c) (take t rs) s)))"
proof -
  let ?k = "nat (cp_round p + 2)" and ?xs = "cp_remotes p"
  let ?st = "\<lambda>t. snd (serve_all (Cluster_ServeRPC serve c) (take t rs) s)"
  have r0: "0 \<le> cp_round p" "cp_round p \<le> int n" using assms(4,6) by (auto simp: rounds_upto_def)
  have first: "\<exists>h hs. calls serve c h (rotate ?k ?xs ! t) \<and> Cluster_ServeRPC serve c (rs ! t) (?st t) = failover (h # hs) (rs ! t) (?st t)"
    if t: "t < length rs" for t
  proof -
    have bound: "int n + int (length (take t rs)) < 2 ^ 63" using assms(5,6) t by simp
    obtain qs where sh: "cluster_shape (rd c (?st t)) = cluster_shape (rd c s)" and up: "rounds_upto (n + t) (rd c (?st t))"
      and q: "cl_priorities (rd c (?st t)) = p\<lparr>cp_round := cp_round p + int t\<rparr> # qs"
      using serve_all_counts [where serve = serve, OF assms(1,2) prod.collapse [symmetric] assms(4) bound assms(6,7)] t by auto
    have "cluster_ready (rd c (?st t))"
      using shape_group [OF sh] assms(3,5) up t by (fastforce simp: cluster_ready_def rounds_upto_def)
    from failover_first [where serve = serve, OF assms(1,2) this q, of "rs ! t"]
    obtain h hs where h: "Cluster_ServeRPC serve c (rs ! t) (?st t) = failover (h # hs) (rs ! t) (?st t)"
      "calls serve c h (hd (try_group (p\<lparr>cp_round := cp_round p + int t\<rparr>)))" by blast
    have "nat (cp_round p + int t + 2) = ?k + t" using r0 by simp
    moreover have "?xs \<noteq> []" using assms(7) by auto
    ultimately have "hd (try_group (p\<lparr>cp_round := cp_round p + int t\<rparr>)) = rotate ?k ?xs ! t"
      using assms(7,8) t by (simp add: try_group_def hd_rotate_conv_nth nth_rotate)
    then show ?thesis using h by auto
  qed
  have "mset (rotate ?k ?xs) = mset ?xs" by (rule mset_rotated)
  then show ?thesis using first assms(8) by (intro exI [of _ "rotate ?k ?xs"]) simp
qed

theorem cluster_round_robin_witness:
  "\<exists>firsts. mset firsts = mset [NewRemoteWithConfig 3 Remote_zero, NewRemoteWithConfig 4 Remote_zero] \<and>
     (\<exists>h hs. calls demo_serve own_cell h (firsts ! 0) \<and>
        Cluster_ServeRPC demo_serve own_cell (NewRequest Background ''eth_call'' (JArr [])) (build_cluster demo_remotes) =
        failover (h # hs) (NewRequest Background ''eth_call'' (JArr [])) (build_cluster demo_remotes))"
proof -
  let ?r = "NewRequest Background ''eth_call'' (JArr [])"
  have "\<exists>firsts. mset firsts = mset [NewRemoteWithConfig 3 Remote_zero, NewRemoteWithConfig 4 Remote_zero] \<and> length firsts = length [?r, ?r] \<and>
     (\<forall>t < length [?r, ?r]. \<exists>h hs. calls demo_serve own_cell h (firsts ! t) \<and>
        Cluster_ServeRPC demo_serve own_cell ([?r, ?r] ! t) (snd (serve_all (Cluster_ServeRPC demo_serve own_cell) (take t [?r, ?r]) (build_cluster demo_remotes))) =
        failover (h # hs) ([?r, ?r] ! t) (snd (serve_all (Cluster_ServeRPC demo_serve own_cell) (take t [?r, ?r]) (build_cluster demo_remotes))))"
    using cluster_round_robin [where serve = demo_serve and s = "build_cluster demo_remotes" and n = 0 and rs = "[?r, ?r]", OF own_cell_ok demo_ok(1)]
    by (simp add: own_cell_def demo_build rounds_upto_def)
  then show ?thesis by fastforce
qed

text \<open>
  C21: A method that the filters of the best remotes forbid is refused to the client outright: the
  error of the filter is a user error, so that the cluster stops at the first remote it tries and
  does not go on to remotes of lower priority, whatever they would answer.
\<close>

theorem filtered_method_stops_cluster:
  assumes "mem_cell c" and "\<And>h. keeps_cell c (serve h)" and "cluster_ready (rd c s)" and "cl_priorities (rd c s) = p # ps"
    and "\<And>x. x \<in> set (cp_remotes p) \<Longrightarrow> \<exists>t next. serve (rw_Handler x) = Filterer_Middleware t next \<and> ft_methods t (rq_Method r) = Some False"
  shows "fst (Cluster_ServeRPC serve c r s) = send_err (Sentinel ErrMethodNotAllowed)"
proof -
  obtain h hs where h: "Cluster_ServeRPC serve c r s = failover (h # hs) r s" "calls serve c h (hd (try_group p))"
      "hd (try_group p) \<in> set (cp_remotes p)"
    using failover_first [where serve = serve, OF assms(1-4)] by blast
  have "fst (h r s) = send_err (Sentinel ErrMethodNotAllowed)"
    using h(2) assms(5) [OF h(3)] by (auto simp: calls_def Filterer_Middleware_def)
  then show ?thesis
    by (simp add: h(1) failover_def serve_icept_eq send_err_def cluster_react_def)
qed

definition demo_filtered :: "handler_ref \<Rightarrow> Cluster handler" where
  "demo_filtered h = (if h = 7 then (\<lambda>r s. (send_ok (AString ''ok''), s))
     else Filterer_Middleware (NewFilterer [''debug_traceCall'' \<mapsto> False]) (\<lambda>r s. (send_ok (AString ''ok''), s)))"

theorem filtered_method_stops_cluster_witness:
  "fst (Cluster_ServeRPC demo_filtered own_cell (NewRequest Background ''debug_traceCall'' (JArr [])) (build_cluster demo_remotes)) =
   send_err (Sentinel ErrMethodNotAllowed)"
proof -
  have "keeps_cell own_cell (demo_filtered h)" for h
    by (simp add: keeps_cell_def demo_filtered_def Filterer_Middleware_def)
  moreover have "cl_priorities (rd own_cell (build_cluster demo_remotes)) =
      \<lparr>cp_priority = 0, cp_remotes = [NewRemoteWithConfig 3 Remote_zero, NewRemoteWithConfig 4 Remote_zero], cp_round = 0\<rparr> #
      [\<lparr>cp_priority = 1, cp_remotes = [NewRemoteWithConfig 7 Remote_zero], cp_round = 0\<rparr>]"
    by (simp add: own_cell_def demo_build)
  ultimately show ?thesis
    by (rule filtered_method_stops_cluster [where serve = demo_filtered, OF own_cell_ok _ demo_ok(3)])
      (auto simp: demo_filtered_def NewRemoteWithConfig_def NewFilterer_def NewRequest_def)
qed

end
