(* ===== verification/Venn_Serving.thy ===== *)
theory Venn_Serving
  imports Venn_Clusters Venn_Failover
begin

text \<open>
  What a client of a started node sees: the parts of the call center composed as
  \<open>svc/node/quarks/cluster\<close> composes them. The first section frames the middlewares (none of them
  touches what lies outside its own struct), the second follows the clusters through any
  sequence of requests, and together they give the order in which a request is tried on the
  remotes of its chain.
\<close>

named_theorems keeps \<open>handlers that do not touch a cell\<close>

section \<open>Frames of the middlewares\<close>

lemma keepsI: "(\<And>r s. rd d (snd (h r s)) = rd d s) \<Longrightarrow> keeps_cell d h"
  by (simp add: keeps_cell_def)

lemma keepsD: "keeps_cell d h \<Longrightarrow> rd d (snd (h r s)) = rd d s"
  by (simp add: keeps_cell_def)

lemma keeps_with_icept:
  assumes "keeps_cell d h" and "\<And>ic s. rd d (snd (k ic s)) = rd d s"
  shows "rd d (snd (with_icept h r s k)) = rd d s"
proof (cases "h r s")
  case (Pair x s')
  then have "rd d s' = rd d s" using keepsD [OF assms(1), of r s] by simp
  then show ?thesis using Pair assms(2) by (cases x) (simp_all add: with_icept_eq)
qed

lemma keeps_Filterer [keeps]: "keeps_cell d h \<Longrightarrow> keeps_cell d (Filterer_Middleware t h)"
  by (simp add: keeps_cell_def Filterer_Middleware_def)

lemma keeps_Ratelimiter [keeps]:
  assumes "keeps_cell d h" and "\<And>s. rd d (snd (allow s)) = rd d s"
  shows "keeps_cell d (Ratelimiter_Middleware allow h)"
proof (rule keepsI)
  fix r s
  obtain ok s1 where a: "allow s = (ok, s1)" by fastforce
  then have "rd d s1 = rd d s" using assms(2) [of s] by simp
  then show "rd d (snd (Ratelimiter_Middleware allow h r s)) = rd d s"
    using keepsD [OF assms(1)] by (simp add: Ratelimiter_Middleware_def a)
qed

lemma keeps_InputData [keeps]: "keeps_cell d h \<Longrightarrow> keeps_cell d (InputData_Middleware h)"
  by (simp add: keeps_cell_def InputData_Middleware_def split: outcome.split)

lemma keeps_BlockLookBack [keeps]: "keeps_cell d h \<Longrightarrow> keeps_cell d (BlockLookBack_Middleware cdc hget m h)"
  by (simp add: keeps_cell_def BlockLookBack_Middleware_def split: outcome.split)

lemma keeps_upd: "(\<And>x s. rd d (wr c x s) = rd d s) \<Longrightarrow> rd d (upd c f s) = rd d s"
  by (simp add: upd_def)

lemma keeps_Logger [keeps]:
  assumes "keeps_cell d h" and "\<And>x s. rd d (wr c x s) = rd d s"
  shows "keeps_cell d (Logger_Middleware c left h)"
proof (rule keepsI)
  fix r s
  show "rd d (snd (Logger_Middleware c left h r s)) = rd d s"
    using keepsD [OF assms(1), of r s] keeps_upd [of d c, OF assms(2)]
    by (cases "h r s"; cases "fst (h r s)") (simp_all add: Logger_Middleware_def)
qed

lemma keeps_Collector [keeps]:
  assumes "keeps_cell d h" and "\<And>x s. rd d (wr c x s) = rd d s"
  shows "keeps_cell d (Collector_Middleware ops clk c h)"
proof (rule keepsI)
  fix r s
  note u = keeps_upd [of d c, OF assms(2)]
  let ?s = "upd c (Collector_request ops (clk s)) s"
  obtain x s1 where x: "serve_icept h Interceptor_zero r ?s = (x, s1)" by fastforce
  have "rd d s1 = rd d s" using keepsD [OF assms(1)] u serve_icept_state [OF x] by simp
  then show "rd d (snd (Collector_Middleware ops clk c h r s)) = rd d s"
    by (cases x) (simp_all add: Collector_Middleware_def Let_def x u)
qed

lemma keeps_Backer [keeps]:
  assumes "keeps_cell d h" and "\<And>x s. rd d (wr c x s) = rd d s"
  shows "keeps_cell d (Backer_Middleware c h)"
  by (rule keepsI) (simp add: Backer_Middleware_def keeps_with_icept assms keeps_upd)

lemma keeps_Doctor [keeps]:
  assumes k: "keeps_cell d h" and w: "\<And>x s. rd d (wr c x s) = rd d s"
  shows "keeps_cell d (Doctor_ServeRPC cdc clk c h)"
proof (rule keepsI)
  fix r s
  note u = keeps_upd [of d c, OF w]
  have serve: "rd d (snd (Doctor_serve clk c h r s)) = rd d s" for s
    by (simp add: Doctor_serve_def w keepsD [OF k] split: option.split prod.split bool.split)
  have check: "rd d (snd (Doctor_check cdc clk c h s)) = rd d s"
  proof -
    note fr = Do_into_keeps [OF k]
    obtain o1 s1 where 1: "Do_into (dec_Uint64 cdc) cdc (check_ctx (clk s)) h ''eth_blockNumber'' (JArr []) s = (o1, s1)" by fastforce
    obtain o2 s2 where 2: "Do_into (dec_Uint64 cdc) cdc (check_ctx (clk s)) h ''eth_chainId'' (JArr []) s1 = (o2, s2)" by fastforce
    show ?thesis using fr [OF 1] fr [OF 2] by (cases o1; cases o2) (simp_all add: Doctor_check_def 1 2 u)
  qed
  obtain o1 s1 where c: "Doctor_check cdc clk c h s = (o1, s1)" by fastforce
  show "rd d (snd (Doctor_ServeRPC cdc clk c h r s)) = rd d s"
    using check serve by (cases o1) (simp_all add: Doctor_ServeRPC_def c)
qed

lemma keeps_observe: "(\<And>x s. rd d (wr c x s) = rd d s) \<Longrightarrow> rd d (snd (Validator_observe cdc clk c b s)) = rd d s"
  by (simp add: Validator_observe_def split: outcome.split prod.split)

lemma keeps_Validator [keeps]:
  assumes k: "keeps_cell d h" and w: "\<And>x s. rd d (wr c x s) = rd d s"
  shows "keeps_cell d (Validator_Middleware cdc clk c h)"
proof (rule keepsI)
  fix r s
  have num: "rd d (snd (Validator_blockNumber cdc clk c h r s)) = rd d s"
  proof -
    obtain o1 s1 where 1: "Do cdc (rq_Ctx r) h ''eth_getBlockByNumber'' (JArr [JStr ''latest'', JBool False]) s = (o1, s1)"
      by fastforce
    then have s1: "rd d s1 = rd d s" using Do_state [of cdc "rq_Ctx r" h _ _ s] keepsD [OF k] by (metis snd_conv)
    obtain o2 s2 where 2: "Validator_observe cdc clk c (ARaw (case o1 of Ok b \<Rightarrow> b | _ \<Rightarrow> JNull)) s1 = (o2, s2)" by fastforce
    then have "rd d s2 = rd d s" using keeps_observe [of d c, OF w] s1 by (metis snd_conv)
    then show ?thesis using s1 2 by (cases o1; cases o2) (auto simp: Validator_blockNumber_def 1)
  qed
  have blk: "rd d (snd (Validator_getBlockByNumber cdc clk c h r s)) = rd d s"
    unfolding Validator_getBlockByNumber_def Let_def
  proof (rule keeps_with_icept [OF k])
    fix ic s1
    obtain o2 s2 where 2: "Validator_observe cdc clk c (ic_Result ic) s1 = (o2, s2)" by fastforce
    then have "rd d s2 = rd d s1" using keeps_observe [of d c, OF w] by (metis snd_conv)
    then show "rd d (snd (if ic_Error ic = None \<and> isQueryingEthGetBlockByNumberWithLatest (rq_Params r)
        then case Validator_observe cdc clk c (ic_Result ic) s1 of
            (Ok (number, err), s2) \<Rightarrow> (Sends [(ic_Result ic, F err s2)], s2)
          | (Err e, s2) \<Rightarrow> (Sends [(ic_Result ic, F (Some e) s2)], s2)
          | (Panic m, s2) \<Rightarrow> (Crash m, s2)
        else (Sends [(ic_Result ic, F (ic_Error ic) s1)], s1))) = rd d s1" for F
      using 2 by (cases o2) (auto split: prod.split)
  qed
  have "rd d (snd (with_icept h r s (\<lambda>ic s1. (f ic, s1)))) = rd d s" for f
    by (rule keeps_with_icept [OF k]) simp
  then show "rd d (snd (Validator_Middleware cdc clk c h r s)) = rd d s"
    using num blk keepsD [OF k] by (simp add: Validator_Middleware_def)
qed

text \<open>The RPC client works outside the tables of the node: what the frame needs of it.\<close>

definition dialer_keeps :: "('s, 'a) cell \<Rightarrow> ('s, 'conn) dialer \<Rightarrow> bool" where
  "dialer_keeps d ops \<longleftrightarrow>
     (\<forall>r s. rd d (snd (dl_connect ops r s)) = rd d s) \<and>
     (\<forall>conn m p s. rd d (snd (dl_Do ops conn m p s)) = rd d s) \<and>
     (\<forall>conn m p s. rd d (snd (dl_Subscribe ops conn m p s)) = rd d s)"

lemma keeps_forward:
  assumes "dialer_keeps d ops"
  shows "rd d (snd (Proxier_forward ops conn r s)) = rd d s"
proof -
  obtain o1 s1 where 1: "dl_Do ops conn (rq_Method r) (rq_Params r) s = (o1, s1)" by fastforce
  obtain o2 s2 where 2: "dl_Subscribe ops conn (trim_suffix (rq_Method r) ''_subscribe'') (rq_Params r) s = (o2, s2)" by fastforce
  have "rd d s1 = rd d s" "rd d s2 = rd d s" using assms 1 2 unfolding dialer_keeps_def by (metis snd_conv)+
  then show ?thesis
    by (cases o1; cases o2) (simp_all add: Proxier_forward_def Proxier_subscribe_def 1 2 Let_def)
qed

lemma keeps_Proxier [keeps]:
  assumes k: "dialer_keeps d ops" and w: "\<And>x s. rd d (wr c x s) = rd d s"
  shows "keeps_cell d (Proxier_ServeRPC ops c)"
proof (rule keepsI)
  fix r s
  obtain o1 s1 where 1: "dl_connect ops r s = (o1, s1)" by fastforce
  then have "rd d s1 = rd d s" using k unfolding dialer_keeps_def by (metis snd_conv)
  then show "rd d (snd (Proxier_ServeRPC ops c r s)) = rd d s"
    using keeps_forward [OF k] w
    by (cases o1; cases "rd c s") (simp_all add: Proxier_ServeRPC_def 1)
qed

text \<open>Whatever a remote's handler does, it leaves the clusters as they are.\<close>

lemma clusters_apart:
  "rd (cluster_cell k) (wr (conn_cell p) v1 s) = rd (cluster_cell k) s"
  "rd (cluster_cell k) (wr (collector_cell p) v2 s) = rd (cluster_cell k) s"
  "rd (cluster_cell k) (wr (log_cell p) v3 s) = rd (cluster_cell k) s"
  "rd (cluster_cell k) (wr (backer_cell p) v4 s) = rd (cluster_cell k) s"
  "rd (cluster_cell k) (wr (validator_cell p) v5 s) = rd (cluster_cell k) s"
  "rd (cluster_cell k) (wr (doctor_cell p) v6 s) = rd (cluster_cell k) s"
  "rd (cluster_cell k) (wr (limiter_cell p) v7 s) = rd (cluster_cell k) s"
  by (simp_all add: conn_cell_def collector_cell_def log_cell_def backer_cell_def validator_cell_def doctor_cell_def
      limiter_cell_def remote_cell_def cluster_cell_def entry_cell_def field_cell_def upd_def remotes_clusters.rd_wr_right)

lemma keeps_limiter_Allow: "rd (cluster_cell k) (snd (limiter_Allow env p s)) = rd (cluster_cell k) s"
  by (simp add: limiter_Allow_def clusters_apart split: prod.split)

lemma remote_handler_keeps:
  assumes "dialer_keeps (cluster_cell k) (ev_dialer env (rt_Config t))"
  shows "keeps_cell (cluster_cell k) (remote_handler env t)"
proof -
  have "keeps_cell (cluster_cell k) (Filterer_Middleware (rt_Filterer t) (Ratelimiter_Middleware (limiter_Allow env p)
      (Doctor_ServeRPC (ev_codec env) (ev_clk env) (doctor_cell p)
        (remote_inner env p (Proxier_ServeRPC (ev_dialer env (rt_Config t)) (conn_cell p))))))" for p
    unfolding remote_inner_def by (intro keeps assms clusters_apart keeps_limiter_Allow)
  then show ?thesis
    by (simp add: remote_handler_def remote_stack_def Let_def keeps_BlockLookBack split: option.split)
qed

section \<open>The clusters over many requests\<close>

text \<open>A cluster that serves a request leaves the other clusters alone.\<close>

lemma try_priorities_keeps_other:
  assumes k: "\<And>h. keeps_cell d (serve h)" and w: "\<And>x s. rd d (wr c x s) = rd d s"
  shows "rd d (snd (try_priorities serve c is r ic s)) = rd d s"
proof (induction "is" arbitrary: ic s)
  case (Cons i "is")
  let ?rs = "cp_remotes (cl_priorities (rd c s) ! i)"
  let ?s1 = "if 1 < length ?rs then bump_round c i s else s"
  let ?j = "if 1 < length ?rs then cp_round (cl_priorities (rd c ?s1) ! i) else 0"
  let ?l = "i + 1 = length (cl_priorities (rd c s))"
  obtain x s' where x: "try_remotes serve ?l ?rs r ?j (length ?rs) ic ?s1 = (x, s')" by fastforce
  have "rd d s' = rd d ?s1"
    using try_remotes_keeps [where serve = serve, OF k, of ?l ?rs r ?j "length ?rs" ic ?s1] by (simp only: x snd_conv)
  then have "rd d s' = rd d s" using keeps_upd [of d c, OF w] by (simp add: bump_round_def)
  then show ?case using Cons.IH unfolding try_priorities.simps Let_def x by (cases x) simp_all
qed simp

lemma build_cluster_rounds: "p \<in> set (cl_priorities (build_cluster ads)) \<Longrightarrow> cp_round p = 0"
proof (induction ads arbitrary: p rule: rev_induct)
  case Nil
  then show ?case by (simp add: build_cluster_def NewCluster_def)
next
  case (snoc a ads)
  obtain q rw where a: "a = (q, rw)" by fastforce
  let ?cl = "build_cluster ads"
  obtain pos ok where b: "BinarySearch cp_priority (cl_priorities ?cl) q = (pos, ok)" by fastforce
  have "p \<in> set ((cl_priorities ?cl)[pos := (cl_priorities ?cl ! pos)\<lparr>cp_remotes := cp_remotes (cl_priorities ?cl ! pos) @ [rw]\<rparr>]) \<or>
      p \<in> set (insert_at pos \<lparr>cp_priority = q, cp_remotes = [rw], cp_round = 0\<rparr> (cl_priorities ?cl))"
    using snoc.prems b by (auto simp: a build_cluster_snoc Cluster_Add_def Let_def split: if_splits prod.splits)
  then show ?case
  proof
    assume p: "p \<in> set ((cl_priorities ?cl)[pos := (cl_priorities ?cl ! pos)\<lparr>cp_remotes := cp_remotes (cl_priorities ?cl ! pos) @ [rw]\<rparr>])"
    show ?thesis
    proof (cases "pos < length (cl_priorities ?cl)")
      case True
      then show ?thesis using p snoc.IH set_update_subset_insert by fastforce
    next
      case False
      then have "p \<in> set (cl_priorities ?cl)" using p by (simp add: list_update_beyond)
      then show ?thesis by (rule snoc.IH)
    qed
  next
    assume "p \<in> set (insert_at pos \<lparr>cp_priority = q, cp_remotes = [rw], cp_round = 0\<rparr> (cl_priorities ?cl))"
    then show ?thesis using snoc.IH by (auto simp: insert_at_def dest: in_set_takeD in_set_dropD)
  qed
qed

text \<open>
  A cluster whose groups are those that adding \<open>ads\<close> gives: its order of a request is sorted by
  priority and has every remote once.
\<close>

lemma shape_order:
  assumes "cluster_shape cl = cluster_shape (build_cluster ads)" and "\<forall>a \<in> set ads. fst a = rem_Priority (rw_Config (snd a))"
  shows "mset (map rw_Config (try_order cl)) = mset (map (\<lambda>a. rw_Config (snd a)) ads)"
    and "sorted (map (\<lambda>rw. rem_Priority (rw_Config rw)) (try_order cl))"
    and "set (try_order cl) \<subseteq> snd ` set ads"
    and "\<forall>p \<in> set (cl_priorities cl). cp_remotes p \<noteq> [] \<and> length (cp_remotes p) \<le> length ads"
proof -
  let ?b = "build_cluster ads" and ?prio = "\<lambda>rw. rem_Priority (rw_Config rw)"
  note b = cluster_of_build [of ads, unfolded cluster_of_def]
  have ms: "map cp_remotes (cl_priorities cl) = map cp_remotes (cl_priorities ?b)"
    and qs: "map cp_priority (cl_priorities cl) = map cp_priority (cl_priorities ?b)"
    using arg_cong [OF assms(1), of "map snd"] arg_cong [OF assms(1), of "map fst"] by (simp_all add: cluster_shape_def o_def)
  have "mset (try_order cl) = mset (concat (map cp_remotes (cl_priorities ?b)))" using mset_try_order [of cl] ms by simp
  then have "image_mset rw_Config (mset (try_order cl)) = mset (map rw_Config (concat (map cp_remotes (cl_priorities ?b))))"
    by (metis mset_map)
  also have "\<dots> = mset (map (\<lambda>a. rw_Config (snd a)) ads)" by (simp only: concat_priorities mset_map mset_sort)
  finally show "mset (map rw_Config (try_order cl)) = mset (map (\<lambda>a. rw_Config (snd a)) ads)" by simp
  have mem: "\<exists>q. (cp_priority p, cp_remotes p) = (q, map snd (filter (\<lambda>a. fst a = q) ads)) \<and> q \<in> fst ` set ads"
    if "p \<in> set (cl_priorities cl)" for p
  proof -
    have "(cp_priority p, cp_remotes p) \<in> set (cluster_shape cl)" using that by (auto simp: cluster_shape_def)
    then have "(cp_priority p, cp_remotes p) \<in> set (cluster_shape ?b)" by (simp add: assms(1))
    then show ?thesis using b by (auto simp: cluster_shape_def)
  qed
  then have prio: "?prio rw = cp_priority p" if "p \<in> set (cl_priorities cl)" "rw \<in> set (try_group p)" for p rw
    using that assms(2) by (fastforce simp: try_group_def)
  have "sorted (map ?prio (concat (map try_group ps)))"
    if "sorted_wrt (<) (map cp_priority ps)" "set ps \<subseteq> set (cl_priorities cl)" for ps
    using that
  proof (induction ps)
    case (Cons p ps)
    have "map ?prio (try_group p) = map (\<lambda>_. cp_priority p) (try_group p)" using prio Cons.prems by (intro map_cong) simp_all
    then have "sorted (map ?prio (try_group p))" by (simp add: map_replicate_const)
    moreover have "?prio x \<le> ?prio y" if "x \<in> set (try_group p)" "y \<in> set (concat (map try_group ps))" for x y
      using that prio Cons.prems by (fastforce intro: less_imp_le)
    ultimately show ?case using Cons by (auto simp: sorted_append)
  qed simp
  then show "sorted (map ?prio (try_order cl))" using b by (simp add: try_order_def qs)
  show "set (try_order cl) \<subseteq> snd ` set ads" using mem by (fastforce simp: try_order_def try_group_def)
  show "\<forall>p \<in> set (cl_priorities cl). cp_remotes p \<noteq> [] \<and> length (cp_remotes p) \<le> length ads"
    using mem by (fastforce simp: filter_empty_conv)
qed

text \<open>The clusters of a node while it serves requests.\<close>

definition env_isolated :: "('conn, 'w, 'l, 'x) node_env \<Rightarrow> bool" where
  "env_isolated env \<longleftrightarrow> (\<forall>k cfg. dialer_keeps (cluster_cell k) (ev_dialer env cfg))"

lemma serve_target_keeps: "env_isolated env \<Longrightarrow> keeps_cell (cluster_cell k) (serve_target env t h)"
  by (simp add: serve_target_def env_isolated_def remote_handler_keeps)

lemma clusters_step:
  assumes iso: "env_isolated env" and n: "rounds_upto n (rd (cluster_cell i) s)" "int n + 1 < 2 ^ 63"
    and s': "s' = snd (Clusters_Middleware env t None r s)"
  shows "cluster_shape (rd (cluster_cell i) s') = cluster_shape (rd (cluster_cell i) s) \<and> rounds_upto (Suc n) (rd (cluster_cell i) s')"
proof -
  have same: ?thesis if "s' = s" using that n(1) rounds_upto_mono [OF n(1)] by simp
  have served: "cluster_shape (rd (cluster_cell i) s2) = cluster_shape (rd (cluster_cell i) s) \<and> rounds_upto (Suc n) (rd (cluster_cell i) s2)"
    if s2: "s2 = snd (Cluster_ServeRPC (serve_target env t) (cluster_cell k) r s)" for k s2
  proof (cases "k = i")
    case True
    then show ?thesis
      using serve_cluster_counts [where serve = "serve_target env t", OF cluster.mem_cell_axioms serve_target_keeps [OF iso] n] s2 by simp
  next
    case False
    then have "rd (cluster_cell i) s2 = rd (cluster_cell i) s" unfolding s2 Cluster_ServeRPC_def
      by (intro try_priorities_keeps_other [where serve = "serve_target env t"]) (simp_all add: serve_target_keeps [OF iso] cluster_entry_wr)
    then show ?thesis using rounds_upto_mono [OF n(1)] by simp
  qed
  show ?thesis
  proof (cases "GetChain (rq_Ctx r)")
    case (Ok chain)
    show ?thesis
    proof (cases "cs_Remotes t (ch_Name chain)")
      case None
      then have "s' = s" using Ok by (simp add: s' Clusters_Middleware_def chain_not_supported_def)
      then show ?thesis by (rule same)
    next
      case (Some k)
      then have "s' = s \<or> s' = snd (Cluster_ServeRPC (serve_target env t) (cluster_cell k) r s)"
        using Ok by (simp add: s' Clusters_Middleware_def chain_handler_def BlockLookBack_Middleware_def Let_def
            split: option.split outcome.split)
      then show ?thesis using same served by blast
    qed
  qed (use same in \<open>simp_all add: s' Clusters_Middleware_def\<close>)
qed

lemma clusters_steps:
  assumes "env_isolated env"
  shows "serve_all (Clusters_Middleware env t None) rs s = (xs, s') \<Longrightarrow> rounds_upto n (rd (cluster_cell i) s) \<Longrightarrow>
    int n + int (length rs) < 2 ^ 63 \<Longrightarrow>
    cluster_shape (rd (cluster_cell i) s') = cluster_shape (rd (cluster_cell i) s) \<and> rounds_upto (n + length rs) (rd (cluster_cell i) s')"
proof (induction rs arbitrary: s xs n)
  case (Cons r rs)
  obtain x s1 where x: "Clusters_Middleware env t None r s = (x, s1)" by fastforce
  obtain ys where ys: "serve_all (Clusters_Middleware env t None) rs s1 = (ys, s')"
    using Cons.prems(1) x by (auto split: prod.splits)
  have st: "cluster_shape (rd (cluster_cell i) s1) = cluster_shape (rd (cluster_cell i) s)" "rounds_upto (Suc n) (rd (cluster_cell i) s1)"
    using clusters_step [OF assms Cons.prems(2) _ refl, of t r] Cons.prems(3) x by simp_all
  show ?case using Cons.IH [OF ys st(2)] st(1) Cons.prems(3) by simp
qed simp

section \<open>The order of a request\<close>

text \<open>A handler that is that of a remote, up to counting a round of its cluster first.\<close>

definition handles :: "('conn, 'w, 'l, 'x) node_env \<Rightarrow> ('conn, 'w, 'l, 'x) node_state handler \<Rightarrow> RemoteTarget \<Rightarrow> bool" where
  "handles env h t \<longleftrightarrow> (\<exists>f. h = (\<lambda>r s. remote_handler env t r (f s)) \<and> (\<forall>s. nd_remotes (f s) = nd_remotes s \<and> nd_world (f s) = nd_world s))"

lemma handles_remote: "handles env (remote_handler env t) t"
  unfolding handles_def by (intro exI [of _ "\<lambda>s. s"]) simp

lemma handles_counted: "handles env h t \<Longrightarrow> handles env (\<lambda>r s. h r (bump_round (cluster_cell k) i s)) t"
  unfolding handles_def
proof (elim exE conjE)
  fix f
  assume f: "h = (\<lambda>r s. remote_handler env t r (f s))" "\<forall>s. nd_remotes (f s) = nd_remotes s \<and> nd_world (f s) = nd_world s"
  have b: "nd_remotes (bump_round (cluster_cell k) i s) = nd_remotes s" "nd_world (bump_round (cluster_cell k) i s) = nd_world s" for s
    by (simp_all add: bump_round_def cluster_cell_def clusters_cell_def entry_cell_def field_cell_def own_cell_def upd_def)
  show "\<exists>g. (\<lambda>r s. h r (bump_round (cluster_cell k) i s)) = (\<lambda>r s. remote_handler env t r (g s)) \<and>
      (\<forall>s. nd_remotes (g s) = nd_remotes s \<and> nd_world (g s) = nd_world s)"
    by (intro exI [of _ "\<lambda>s. f (bump_round (cluster_cell k) i s)"]) (simp add: f b)
qed

lemma cluster_handles:
  "list_all2 (handles env) (cluster_order (serve_target env t) (cluster_cell k) cl) (map (\<lambda>rw. cs_targets t ! rw_Handler rw) (try_order cl))"
  unfolding list_all2_map2
  by (rule cluster_order_related) (simp_all add: serve_target_def handles_remote handles_counted)

end
