(* ===== verification/Spec2Isabelle.thy ===== *)
theory Spec2Isabelle
  imports Venn_Backer Venn_Doctor Venn_Validator Venn_Remote Venn_Headstore Venn_Middlewares
    Venn_Oracles Venn_Stalker Venn_Node Venn_Election Venn_Rediblock Venn_Dashboard Venn_Telemetry Venn_Proxy Venn_Subscribe
    Venn_Always Venn_Blocks Venn_Services Venn_Serving
begin

text \<open>
  A verification of venn, an Ethereum JSON-RPC gateway written in Go.

  \<^bold>\<open>The program.\<close> A \<^emph>\<open>node\<close> (\<open>svc/app/node\<close>) serves several chains. For every chain it has a cluster of
  remotes (upstream endpoints), tried by priority and in turn within a priority
  (\<open>lib/callcenter/cluster.go\<close>). Every remote is wrapped in middlewares of the call center: method
  filter, rate limit, health checks (doctor), head validation (validator), backoff (backer), metrics,
  and the proxier that holds the connection. In front of the clusters the node caches blocks,
  receipts and logs in a stack of block stores (LRU, Redis, remotes), replaces the tag latest by
  the head it knows, forges receipts, serves subscriptions and limits clients. A stalker follows the
  head of each chain and publishes it in a head store; with several nodes an election over Redis
  decides which of them stalks. A \<^emph>\<open>gateway\<close> (\<open>svc/app/gateway\<close>) stands before nodes: it checks origins,
  methods, sizes and rate limits, records telemetry, and proxies requests and subscriptions.

  \<^bold>\<open>Theories and sources.\<close>
  \<^item> \<open>Venn_Prelude\<close>: outcomes (result, error or panic), the error values of the program, 64-bit
    arithmetic, strings, and memory cells (\<open>mem_cell\<close>, \<open>disjoint_cells\<close>): a struct behind a pointer is a
    cell of the state of whoever uses it, so that sharing is explicit.
  \<^item> \<open>Venn_Json\<close>, \<open>Venn_Ethtypes\<close> (\<open>lib/ethtypes\<close>), \<open>Venn_Jrpc\<close> (\<open>lib/jrpcutil\<close>, \<open>lib/subctx\<close>, the records of
    \<open>lib/config\<close>), \<open>Venn_Util\<close> (\<open>lib/util\<close>): documents, block numbers and filters, requests, replies,
    handlers \<open>request \<Rightarrow> 's \<Rightarrow> reply \<times> 's\<close> and middlewares, error classes.
  \<^item> \<open>Venn_Backer\<close>, \<open>Venn_Doctor\<close>, \<open>Venn_Validator\<close>, \<open>Venn_Cluster\<close>, \<open>Venn_Remote\<close>, \<open>Venn_Proxy\<close>: one theory per part
    of \<open>lib/callcenter\<close>; \<open>Venn_Failover\<close>: what the order of a cluster, its counters and the method filters mean
    for the requests it serves.
  \<^item> \<open>Venn_Clusters\<close> (\<open>svc/node/quarks/cluster\<close>): how these parts are put together for every remote;
    \<open>Venn_Serving\<close>: frames of the middlewares and the clusters of a node over any sequence of requests.
  \<^item> \<open>Venn_Headstore\<close>, \<open>Venn_Blockstore\<close> (\<open>lib/stores\<close>), \<open>Venn_Chainblock\<close>, \<open>Venn_Rediblock\<close>
    (\<open>svc/node/stores/vennstores\<close>): stores of heads and blocks.
  \<^item> \<open>Venn_Cacher\<close>, \<open>Venn_Middlewares\<close>, \<open>Venn_Subcenter\<close>, \<open>Venn_Stalker\<close>, \<open>Venn_Oracles\<close>, \<open>Venn_Election\<close>,
    \<open>Venn_Always\<close>: the services of a node (\<open>svc/node/atoms\<close>, \<open>svc/node/middlewares\<close>, \<open>lib/oracles\<close>, \<open>lib/election\<close>).
  \<^item> \<open>Venn_Node\<close> (\<open>svc/app/node\<close>, \<open>lib/util/waiter.go\<close>) and \<open>Venn_Dashboard\<close> (\<open>dashboard/handler.go\<close>): the whole
    handler of a node and what its dashboard shows.
  \<^item> \<open>Venn_Config\<close> (\<open>lib/config\<close>), \<open>Venn_Origin\<close> (\<open>lib/util/origin\<close>), \<open>Venn_Ratelimit\<close> (\<open>lib/ratelimit\<close>), \<open>Venn_Gateway\<close>
    (\<open>svc/app/gateway\<close>), \<open>Venn_Telemetry\<close> (\<open>svc/gateway/quarks/telemetry\<close>): configuration and gateway.
  \<^item> \<open>Venn_Subscribe\<close> (\<open>lib/jrpcutil/subscribe.go\<close>): subscriptions within the process.
  \<^item> \<open>Venn_Blocks\<close> (\<open>lib/ethtypes/block.go\<close>): blocks, transactions and receipts as structs; \<open>Venn_Services\<close>
    (\<open>svc/shared/services\<close>, \<open>svc/gateway/services\<close>, \<open>svc/node/atoms/headstoreProvider\<close>): what a process is started
    with.
  The last section of this theory has the property that spans the call center and the assembly of a node.

  \<^bold>\<open>How code is modelled.\<close> A struct is a record with the source's fields, a method a function on it; a
  handler with effects passes the state along. Every error return is \<open>Err\<close>, every panic \<open>Panic\<close> or
  \<open>Crash\<close>; what a handler sends is the list of its calls of \<open>Send\<close>, so that a second or a missing
  response shows. \<open>uint64\<close> is a 64-bit word, \<open>int\<close> an integer with \<open>wrap64\<close> where it can overflow,
  durations are nanoseconds, \<open>float64\<close> is a rational without rounding. Goroutines that share a struct
  are steps of an inductive relation (doctor, head stores, leases, the single-node election,
  telemetry, subscriptions), each step a critical section or a meeting at a channel.

  \<^bold>\<open>Interfaces.\<close> \<open>mem_cell\<close> and \<open>disjoint_cells\<close> are interpreted for the fields of a node's state;
  \<open>head_store\<close> (a store that never goes back) for the in-memory store and the store over a Redis
  stream; \<open>sound_store\<close> (what is returned belongs to the query and is genuine, and every operation
  keeps the invariant) for the remotes as a store and for the Redis store; for the LRU and the
  compound store its laws are lemmas with the cell as a parameter. The LRU cache is the locale-free contract
  \<open>lru_ok\<close>, of which a map is an instance.

  \<^bold>\<open>What is shown.\<close>
  \<^item> Serving: a cluster is a failover over handlers of exactly the remotes added to it, by priority and
    rotated within a priority, the client gets the first decisive answer, the remotes of the best
    priority take turns in coming first, and adding keeps the order; a started node
    tries a request on exactly the configured remotes of its chain, by priority, however many requests
    came before; a remote that its filters, limit, health or backoff exclude
    is not contacted and answers with an error; a node passes methods that are not its own on to its
    clusters and their answer back.
  \<^item> Heads: heads accepted through a validator never go back, the Redis head store keeps the highest,
    the waits of the stalker are bounded, and a subscription delivers no block twice and, as far as
    blocks can be fetched and notifications succeed, leaves none out.
  \<^item> Blocks: what the stack of stores returns is of the block asked for and filed under the hash it
    carries, with or without its transactions; Redis entries are found again, expire in bounds and are
    forgotten, of all types, after a reorganisation; logs from the cache are those that the filter's meaning selects; receipts partition the logs.
  \<^item> Remotes: the doctor's verdict and invariant, the backer's recovery.
  \<^item> Codecs: block numbers and filters are decoded from their encoding; compiled filters mean what is
    documented.
  \<^item> Gateway: what it refuses never reaches the proxy, only allowed origins pass, origin patterns allow
    what is documented as far as a wildcard stands for one label, subscriptions survive lost websockets
    and failed redials.
  \<^item> Configuration: an accepted configuration is well-formed.
  \<^item> Election: every lease is granted and cancelled at most once and as leadership demands, and the
    search for a leader ends when there is one; the strategy for a single node never leads.
  \<^item> Several properties record what the code does against its intent: checks that starve under load
    or are rescheduled by a look at the dashboard, log ranges that panic, filtered methods that stop the
    failover, an in-memory head store that never stores, and telemetry of which 129 calls return and
    all later ones block.

  \<^bold>\<open>Parameters, bounds and fuel.\<close> Third-party code is an argument of the definitions: codecs of hashes
  and numbers (with the laws \<open>codec_ok\<close>), LRU caches, Redis, the distributed lock, rate limiters,
  sliding windows, connections, URL and address parsing, the subscription engine, the JetStream
  client. The order in which Go ranges over a map is an argument as well. The stalker's loop has no
  end and takes the number of rounds as fuel, and its theorem holds for every number; \<open>discoverLeader\<close>
  may loop and is a partial function into \<open>option\<close>, with a theorem that it returns. Subscriptions and
  websocket sessions are driven by finite lists of events of any length. Numbers that pass through
  a Redis script are exact, as they are below \<open>10^14\<close>.

  \<^bold>\<open>Conventions that matter to a reader.\<close> A handler that fails to answer because it waits for something
  else is a \<open>Crash\<close> with a text that says so. A request is a value: where the source changes it in place
  (\<open>inputData.go\<close>), the changed request is passed on and is what the logger sees, and changing it again
  for another remote has no effect (\<open>input_data_idempotent\<close>). A call that joins another one in the
  single flight of the block store gets the answer that the same query had in some other state
  (\<open>shared_flight\<close>); the crash of an open log range is shown for calls that do not join another one.
  Every call to Redis can fail by itself and then has no effect. Calls carry their deadlines, but what
  a passed deadline does is up to the connection. The data of a websocket session is what its loop
  receives; a value in the channel when the session ends is lost. Chains and remotes of a configuration are not null; the
  parser dereferences them and a null ends the process at start.

  \<^bold>\<open>Not modelled.\<close> Logging and tracing; HTTP servers, routers and rendering (the pages generated by
  templ); registration of Prometheus metrics; command line and dependency injection. These have no
  logic of their own beyond calls of libraries, or cannot be observed by a client.
\<close>

section \<open>A request to a started node\<close>

text \<open>
  C2: However many requests a started node has served, a request for one of its chains is a failover
  over handlers of remotes: the handlers are those built for exactly the configured remotes of the
  chain, each once, by ascending priority, and the first decisive answer in this order is the reply.
  It is assumed that the RPC client does not reach into the tables of the node, that the look-back
  limit of the chain, if there is one, admits the request, and that the counters have not used up
  63 bits.
\<close>

theorem node_serves_by_priority:
  assumes "distinct (map ch_Name cs)" and "i < length cs" and "start_node env cs s0 = (t, s1)" and "env_isolated env"
    and "serve_all (Clusters_Middleware env t None) rs s1 = (xs, s2)"
    and "int (length rs) + int (length (ch_Remotes (cs ! i))) + 1 < 2 ^ 63"
    and "GetChain (rq_Ctx r) = Ok chain" and "ch_Name chain = ch_Name (cs ! i)"
    and "\<And>lb. cs_chainLookBack t (ch_Name chain) = Some lb \<Longrightarrow> lookback_check (ev_codec env) (ev_hget env) lb r s2 = Ok ()"
  shows "\<exists>hs ts. Clusters_Middleware env t None r s2 = failover hs r s2 \<and> list_all2 (handles env) hs ts \<and>
     set ts \<subseteq> set (cs_targets t) \<and> mset (map rt_Config ts) = mset (ch_Remotes (cs ! i)) \<and>
     sorted (map (\<lambda>t. rem_Priority (rt_Config t)) ts)"
proof -
  let ?ads = "added_remotes i (start_hooks 0 cs)" and ?cl = "rd (cluster_cell i) s2"
  let ?ts = "map (\<lambda>rw. cs_targets t ! rw_Handler rw) (try_order ?cl)"
  note tables = start_node_tables [OF assms(1-3)]
  have ads: "map (\<lambda>a. rw_Config (snd a)) ?ads = ch_Remotes (cs ! i)" "\<forall>a \<in> set ?ads. fst a = rem_Priority (rw_Config (snd a))"
    using added_configs [OF assms(2), of 0] by simp_all
  have "rounds_upto 0 (rd (cluster_cell i) s1)" using build_cluster_rounds tables(1) by (simp add: rounds_upto_def)
  from clusters_steps [OF assms(4,5) this] assms(6) tables(1)
  have shape: "cluster_shape ?cl = cluster_shape (build_cluster ?ads)" and rounds: "rounds_upto (length rs) ?cl" by simp_all
  note order = shape_order [OF shape ads(2)]
  have "length ?ads = length (ch_Remotes (cs ! i))" using arg_cong [OF ads(1), of length] by simp
  then have "cluster_ready ?cl" using order(4) rounds assms(6) by (fastforce simp: cluster_ready_def rounds_upto_def)
  then have "Cluster_ServeRPC (serve_target env t) (cluster_cell i) r s2 = failover (cluster_order (serve_target env t) (cluster_cell i) ?cl) r s2"
    by (intro serve_failover [where serve = "serve_target env t"] cluster.mem_cell_axioms serve_target_keeps [OF assms(4)])
  moreover have "Clusters_Middleware env t None r s2 = Cluster_ServeRPC (serve_target env t) (cluster_cell i) r s2"
    using assms(7-9) tables(3) by (simp add: Clusters_Middleware_def chain_handler_def BlockLookBack_Middleware_def Let_def split: option.split)
  moreover have target: "rw_Handler rw < length (cs_targets t) \<and> rt_Config (cs_targets t ! rw_Handler rw) = rw_Config rw"
    if "rw \<in> set (try_order ?cl)" for rw
    using that order(3) started_handler [OF tables(2)] by auto
  moreover have cfg: "map rt_Config ?ts = map rw_Config (try_order ?cl)" using target by simp
  have "set ?ts \<subseteq> set (cs_targets t)" using target by auto
  moreover have "mset (map rt_Config ?ts) = mset (ch_Remotes (cs ! i))" unfolding cfg using order(1) ads(1) by simp
  moreover have "map (\<lambda>t. rem_Priority (rt_Config t)) ?ts = map (\<lambda>rw. rem_Priority (rw_Config rw)) (try_order ?cl)" using target by simp
  then have "sorted (map (\<lambda>t. rem_Priority (rt_Config t)) ?ts)" using order(2) by (simp only:)
  ultimately show ?thesis using cluster_handles [of env t i ?cl] by metis
qed

theorem node_serves_by_priority_witness:
  "\<exists>hs ts. Clusters_Middleware demo_env (fst (start_node demo_env [demo_node_chain] demo_state)) None
       (NewRequest (WithChain Background demo_node_chain) ''eth_chainId'' (JArr [])) (snd (start_node demo_env [demo_node_chain] demo_state)) =
     failover hs (NewRequest (WithChain Background demo_node_chain) ''eth_chainId'' (JArr [])) (snd (start_node demo_env [demo_node_chain] demo_state)) \<and>
     list_all2 (handles demo_env) hs ts \<and> mset (map rt_Config ts) = mset (ch_Remotes demo_node_chain)"
proof -
  let ?x = "start_node demo_env [demo_node_chain] demo_state" and ?r = "NewRequest (WithChain Background demo_node_chain) ''eth_chainId'' (JArr [])"
  have iso: "env_isolated demo_env" by (simp add: env_isolated_def dialer_keeps_def demo_env_def demo_dialer_def)
  have none: "cs_chainLookBack (fst ?x) name = None" for name
    by (simp add: start_node_def Clusters_zero_def start_remote_def NewRemoteTarget_def Let_def demo_node_chain_def demo_chain_def)
  have chain: "GetChain (rq_Ctx ?r) = Ok demo_node_chain" by (simp add: NewRequest_def WithChain_def GetChain_def)
  have two: "length (ch_Remotes demo_node_chain) = 2" by (simp add: demo_node_chain_def)
  have "\<exists>hs ts. Clusters_Middleware demo_env (fst ?x) None ?r (snd ?x) = failover hs ?r (snd ?x) \<and> list_all2 (handles demo_env) hs ts \<and>
     set ts \<subseteq> set (cs_targets (fst ?x)) \<and> mset (map rt_Config ts) = mset (ch_Remotes ([demo_node_chain] ! 0)) \<and>
     sorted (map (\<lambda>t. rem_Priority (rt_Config t)) ts)"
    by (rule node_serves_by_priority [where rs = "[]" and xs = "[]" and chain = demo_node_chain, OF _ _ prod.collapse [symmetric] iso])
      (simp_all add: chain two none)
  then show ?thesis unfolding nth_Cons_0 by blast
qed

end
